(* ===== verification/Prelude.thy ===== *)
theory Prelude
  imports Main "HOL-Library.Word" "HOL-Library.Monad_Syntax"
begin

text \<open>
  Shared ground of the development: the Rust result type, bytes and big-endian
  integers, slices whose out-of-range access is a panic, the part of the string and
  slice API the sources use, and the generic lemmas the component theories rest on.
\<close>

section \<open>Collections of facts\<close>

named_theorems wire_simps
  \<open>equations for reading and writing bytes on the wire\<close>

named_theorems key_simps
  \<open>equations for host names and route keys\<close>

section \<open>Results, panics and machine integers\<close>

text \<open>Rust's \<open>Result<T, E>\<close>.\<close>

datatype ('a, 'e) result = Ok 'a | Err 'e

primrec is_ok :: "('a, 'e) result \<Rightarrow> bool" where
  "is_ok (Ok x) = True"
| "is_ok (Err e) = False"

primrec map_ok :: "('a \<Rightarrow> 'b) \<Rightarrow> ('a, 'e) result \<Rightarrow> ('b, 'e) result" where
  "map_ok f (Ok x) = Ok (f x)"
| "map_ok f (Err e) = Err e"

primrec map_err :: "('e \<Rightarrow> 'f) \<Rightarrow> ('a, 'e) result \<Rightarrow> ('a, 'f) result" where
  "map_err f (Ok x) = Ok x"
| "map_err f (Err e) = Err (f e)"

primrec bind_ok :: "('a, 'e) result \<Rightarrow> ('a \<Rightarrow> ('b, 'e) result) \<Rightarrow> ('b, 'e) result" where
  "bind_ok (Ok x) f = f x"
| "bind_ok (Err e) f = Err e"

primrec ok_or :: "'a option \<Rightarrow> 'e \<Rightarrow> ('a, 'e) result" where
  "ok_or None e = Err e"
| "ok_or (Some x) e = Ok x"

lemma bind_ok_eq_Ok: "bind_ok r f = Ok y \<longleftrightarrow> (\<exists>x. r = Ok x \<and> f x = Ok y)"
  by (cases r) auto

lemma map_ok_eq_Ok: "map_ok f r = Ok y \<longleftrightarrow> (\<exists>x. r = Ok x \<and> y = f x)"
  by (cases r) auto

lemma map_err_eq_Ok [simp]: "map_err f r = Ok y \<longleftrightarrow> r = Ok y"
  by (cases r) auto

lemma ok_or_eq_Ok [simp]: "ok_or x e = Ok y \<longleftrightarrow> x = Some y"
  by (cases x) auto

lemma is_ok_iff: "is_ok r \<longleftrightarrow> (\<exists>x. r = Ok x)"
  by (cases r) auto

type_synonym byte = "8 word"
type_synonym u16 = "16 word"

text \<open>\<open>u16::from_be_bytes\<close> and \<open>u16::to_be_bytes\<close>.\<close>

definition from_be_bytes16 :: "byte \<Rightarrow> byte \<Rightarrow> u16" where
  "from_be_bytes16 high low = of_nat (unat high * 256 + unat low)"

definition to_be_bytes16 :: "u16 \<Rightarrow> byte list" where
  "to_be_bytes16 w = [of_nat (unat w div 256), of_nat (unat w mod 256)]"

lemma unat_byte_lt: "unat (b :: byte) < 256"
  using unsigned_less [of b, where ?'a = nat] by simp

lemma unat_u16_lt: "unat (w :: u16) < 65536"
  using unsigned_less [of w, where ?'a = nat] by simp

lemma unat_from_be_bytes16 [simp]:
  "unat (from_be_bytes16 a b) = unat a * 256 + unat b"
proof -
  have "unat a * 256 + unat b < 65536"
    using unat_byte_lt [of a] unat_byte_lt [of b] by linarith
  then show ?thesis
    by (simp only: from_be_bytes16_def unat_of_nat) simp
qed

lemma length_to_be_bytes16 [simp]: "length (to_be_bytes16 w) = 2"
  by (simp add: to_be_bytes16_def)

lemma to_be_bytes16_not_Nil [simp]: "to_be_bytes16 w \<noteq> []"
  by (simp add: to_be_bytes16_def)

lemma from_to_be_bytes16 [simp]:
  "from_be_bytes16 (to_be_bytes16 w ! 0) (to_be_bytes16 w ! Suc 0) = w"
proof -
  have "unat w div 256 < 256" using unat_u16_lt [of w] by simp
  then have "unat w div 256 mod 256 = unat w div 256" by simp
  then show ?thesis
    by (simp add: from_be_bytes16_def to_be_bytes16_def unat_of_nat)
qed

lemma to_from_be_bytes16 [simp]: "to_be_bytes16 (from_be_bytes16 a b) = [a, b]"
  using unat_byte_lt [of a] unat_byte_lt [of b]
  by (simp add: to_be_bytes16_def div_mult_self3 mod_mult_self3)

section \<open>Slices\<close>

text \<open>
  \<open>&xs[start..end]\<close>: \<^term>\<open>None\<close> is the panic Rust raises when the range is reversed or
  runs past the end.
\<close>

definition slice :: "'a list \<Rightarrow> nat \<Rightarrow> nat \<Rightarrow> 'a list option" where
  "slice xs start end =
     (if start \<le> end \<and> end \<le> length xs then Some (take (end - start) (drop start xs)) else None)"

lemma slice_Some [simp]:
  "start \<le> end \<Longrightarrow> end \<le> length xs \<Longrightarrow> slice xs start end = Some (take (end - start) (drop start xs))"
  by (simp add: slice_def)

lemma slice_eq_SomeD:
  "slice xs start end = Some ys \<Longrightarrow>
   start \<le> end \<and> end \<le> length xs \<and> ys = take (end - start) (drop start xs)"
  by (simp add: slice_def split: if_splits)

text \<open>\<open>xs.windows(2).any(|pair| pair[0] == pair[1])\<close>.\<close>

fun windows2_any_eq :: "'a list \<Rightarrow> bool" where
  "windows2_any_eq (x # y # zs) = (x = y \<or> windows2_any_eq (y # zs))"
| "windows2_any_eq xs = False"

lemma sorted_windows2_any_eq:
  "sorted xs \<Longrightarrow> windows2_any_eq xs \<longleftrightarrow> \<not> distinct (xs :: 'a :: linorder list)"
proof (induction xs rule: windows2_any_eq.induct)
  case (1 x y zs)
  show ?case
  proof (cases "x = y")
    case False
    with "1.prems" have "x \<notin> set (y # zs)" by fastforce
    with False "1.IH" "1.prems" show ?thesis by simp
  qed simp
qed auto

lemma sort_windows2_any_eq: "windows2_any_eq (sort xs) \<longleftrightarrow> \<not> distinct xs"
  using sorted_windows2_any_eq [of "sort xs"] by simp

section \<open>Strings\<close>

text \<open>
  A Rust \<open>str\<close> is its UTF-8 byte sequence; an Isabelle \<^typ>\<open>char\<close> is one byte, so a
  \<^typ>\<open>string\<close> is that byte sequence and \<^term>\<open>length\<close> is \<open>str::len\<close>.
\<close>

definition string_of_bytes :: "byte list \<Rightarrow> string" where
  "string_of_bytes bs = map (\<lambda>b. char_of (unat b)) bs"

definition bytes_of_string :: "string \<Rightarrow> byte list" where
  "bytes_of_string s = map (\<lambda>c. of_nat (of_char c)) s"

lemma string_of_bytes_of_string [simp]: "string_of_bytes (bytes_of_string s) = s"
proof -
  have "char_of (unat (of_nat (of_char c) :: byte)) = c" for c
    by (simp add: unat_of_nat)
  then show ?thesis
    by (simp add: string_of_bytes_def bytes_of_string_def comp_def)
qed

lemma bytes_of_string_of_bytes [simp]: "bytes_of_string (string_of_bytes bs) = bs"
proof -
  have "of_nat (of_char (char_of (unat b))) = b" for b :: byte
    using unat_byte_lt [of b] by simp
  then show ?thesis
    by (simp add: string_of_bytes_def bytes_of_string_def comp_def)
qed

lemma length_bytes_of_string [simp]: "length (bytes_of_string s) = length s"
  by (simp add: bytes_of_string_def)

lemma length_string_of_bytes [simp]: "length (string_of_bytes s) = length s"
  by (simp add: string_of_bytes_def)

definition is_ascii_uppercase :: "char \<Rightarrow> bool" where
  "is_ascii_uppercase c \<longleftrightarrow> 65 \<le> (of_char c :: nat) \<and> of_char c \<le> (90 :: nat)"

definition is_ascii_lowercase :: "char \<Rightarrow> bool" where
  "is_ascii_lowercase c \<longleftrightarrow> 97 \<le> (of_char c :: nat) \<and> of_char c \<le> (122 :: nat)"

definition is_ascii_digit :: "char \<Rightarrow> bool" where
  "is_ascii_digit c \<longleftrightarrow> 48 \<le> (of_char c :: nat) \<and> of_char c \<le> (57 :: nat)"

definition to_ascii_lower :: "char \<Rightarrow> char" where
  "to_ascii_lower c = (if is_ascii_uppercase c then char_of (of_char c + 32 :: nat) else c)"

abbreviation to_ascii_lowercase :: "string \<Rightarrow> string" where
  "to_ascii_lowercase \<equiv> map to_ascii_lower"

lemma not_upper_to_ascii_lower [simp]: "\<not> is_ascii_uppercase (to_ascii_lower c)"
  by (auto simp: to_ascii_lower_def is_ascii_uppercase_def)

lemma to_ascii_lower_id [simp]: "\<not> is_ascii_uppercase c \<Longrightarrow> to_ascii_lower c = c"
  by (simp add: to_ascii_lower_def)

lemma to_ascii_lower_idem [simp]: "to_ascii_lower (to_ascii_lower c) = to_ascii_lower c"
  by simp

lemma to_ascii_lower_comp_idem [simp]: "to_ascii_lower \<circ> to_ascii_lower = to_ascii_lower"
  by (simp add: fun_eq_iff)

lemma to_ascii_lowercase_idem [simp]:
  "to_ascii_lowercase (to_ascii_lowercase s) = to_ascii_lowercase s"
  by simp

lemma to_ascii_lower_not_letter:
  assumes "\<not> is_ascii_lowercase d"
  shows "to_ascii_lower c = d \<longleftrightarrow> c = d \<and> \<not> is_ascii_uppercase d"
proof (cases "is_ascii_uppercase c")
  case True
  then have "is_ascii_lowercase (to_ascii_lower c)"
    by (auto simp: to_ascii_lower_def is_ascii_uppercase_def is_ascii_lowercase_def)
  with True assms show ?thesis by auto
next
  case False
  then show ?thesis by auto
qed

text \<open>\<open>s.split(c)\<close>, \<open>s.split_once(c)\<close>, \<open>s.rsplit_once(c)\<close> and \<open>s.strip_prefix(p)\<close>.\<close>

fun split_char :: "char \<Rightarrow> string \<Rightarrow> string list" where
  "split_char c [] = [[]]"
| "split_char c (x # xs) =
     (if x = c then [] # split_char c xs
      else (x # hd (split_char c xs)) # tl (split_char c xs))"

fun split_once :: "char \<Rightarrow> string \<Rightarrow> (string \<times> string) option" where
  "split_once c [] = None"
| "split_once c (x # xs) =
     (if x = c then Some ([], xs)
      else map_option (\<lambda>(a, b). (x # a, b)) (split_once c xs))"

definition rsplit_once :: "char \<Rightarrow> string \<Rightarrow> (string \<times> string) option" where
  "rsplit_once c s = map_option (\<lambda>(a, b). (rev b, rev a)) (split_once c (rev s))"

fun strip_prefix :: "string \<Rightarrow> string \<Rightarrow> string option" where
  "strip_prefix [] s = Some s"
| "strip_prefix (p # ps) [] = None"
| "strip_prefix (p # ps) (x # xs) = (if p = x then strip_prefix ps xs else None)"

lemma split_char_not_Nil [simp]: "split_char c s \<noteq> []"
  by (cases s) auto

text \<open>For evaluation: the recursive call is made once.\<close>

lemma split_char_code [code]:
  "split_char c [] = [[]]"
  "split_char c (x # xs) =
     (if x = c then [] # split_char c xs
      else case split_char c xs of [] \<Rightarrow> [[x]] | y # ys \<Rightarrow> (x # y) # ys)"
  by (simp_all split: list.split)

lemma split_once_Some_iff:
  "split_once c s = Some (a, b) \<longleftrightarrow> s = a @ c # b \<and> c \<notin> set a"
proof (induction s arbitrary: a)
  case (Cons x s)
  then show ?case by (cases a) auto
qed auto

lemma split_once_None_iff [simp]: "split_once c s = None \<longleftrightarrow> c \<notin> set s"
  by (induction s) auto

lemma rsplit_once_Some_iff:
  "rsplit_once c s = Some (a, b) \<longleftrightarrow> s = a @ c # b \<and> c \<notin> set b"
proof -
  have "rsplit_once c s = Some (a, b) \<longleftrightarrow> split_once c (rev s) = Some (rev b, rev a)"
    by (auto simp: rsplit_once_def)
  also have "\<dots> \<longleftrightarrow> rev s = rev b @ c # rev a \<and> c \<notin> set b"
    by (simp add: split_once_Some_iff)
  also have "rev s = rev b @ c # rev a \<longleftrightarrow> s = a @ c # b"
    by (metis append.assoc append_Cons append_Nil rev.simps(2) rev_append rev_rev_ident)
  finally show ?thesis .
qed

lemma rsplit_once_None_iff [simp]: "rsplit_once c s = None \<longleftrightarrow> c \<notin> set s"
  by (simp add: rsplit_once_def)

lemma strip_prefix_Some_iff: "strip_prefix p s = Some r \<longleftrightarrow> s = p @ r"
  by (induction p s rule: strip_prefix.induct) auto

lemma split_char_append:
  "split_char c (a @ c # b) = split_char c a @ split_char c b"
  by (induction a) auto

lemma split_char_single [simp]: "c \<notin> set a \<Longrightarrow> split_char c a = [a]"
  by (induction a) auto

lemma split_char_no_sep: "l \<in> set (split_char c s) \<Longrightarrow> c \<notin> set l"
proof (induction s arbitrary: l)
  case (Cons x s)
  show ?case
  proof (cases "x = c")
    case False
    have "hd (split_char c s) \<in> set (split_char c s)"
      and "set (tl (split_char c s)) \<subseteq> set (split_char c s)"
      by (auto intro: list.set_sel)
    with False Cons show ?thesis by auto
  qed (use Cons in auto)
qed simp

lemma set_split_char: "(\<Union>l \<in> set (split_char c s). set l) = set s - {c}"
proof (induction s)
  case (Cons x s)
  obtain h t where ht: "split_char c s = h # t"
    by (cases "split_char c s") auto
  with Cons show ?case by auto
qed simp

lemma length_split_char: "length (split_char c s) = Suc (length (filter (\<lambda>x. x = c) s))"
  by (induction s) auto

section \<open>Lists as multisets of tasks, and first matches\<close>

lemma length_filter_remove1:
  "x \<in> set xs \<Longrightarrow> length (filter P xs) = length (filter P (remove1 x xs)) + (if P x then 1 else 0)"
proof (induction xs)
  case (Cons y ys)
  then show ?case by (cases "x = y") auto
qed simp

lemma length_remove1_mem: "x \<in> set xs \<Longrightarrow> length xs = Suc (length (remove1 x xs))"
  by (induction xs) auto

lemma find_append_case:
  "find P (xs @ ys) = (case find P xs of Some x \<Rightarrow> Some x | None \<Rightarrow> find P ys)"
  by (induction xs) auto

lemma find_Some_split:
  "find P xs = Some x \<longleftrightarrow> (\<exists>before after. xs = before @ x # after \<and> P x \<and> list_all (\<lambda>y. \<not> P y) before)"
proof (induction xs)
  case (Cons y ys)
  show ?case
  proof (cases "P y")
    case True
    then show ?thesis by (auto simp: Cons_eq_append_conv)
  next
    case False
    have "(\<exists>before after. ys = before @ x # after \<and> P x \<and> list_all (\<lambda>y. \<not> P y) before) \<longleftrightarrow>
        (\<exists>before after. y # ys = before @ x # after \<and> P x \<and> list_all (\<lambda>y. \<not> P y) before)"
      (is "?l \<longleftrightarrow> ?r")
    proof
      assume ?l
      then obtain before after where "ys = before @ x # after" "P x" "list_all (\<lambda>y. \<not> P y) before"
        by blast
      with False show ?r by (intro exI [of _ "y # before"] exI [of _ after]) simp
    next
      assume ?r
      with False show ?l by (auto simp: Cons_eq_append_conv)
    qed
    with Cons False show ?thesis by simp
  qed
qed simp

lemma find_None_list_all: "find P xs = None \<longleftrightarrow> list_all (\<lambda>x. \<not> P x) xs"
  by (auto simp: find_None_iff list_all_iff)

section \<open>The contract of a pool of slots\<close>

text \<open>
  Accept loops take a slot before they accept and give it back when the connection ends. What
  such a loop promises is that no step creates or loses a slot; its clients rely on no more
  connections than slots ever being open.
\<close>

locale slot_pool =
  fixes step :: "'s \<Rightarrow> 's \<Rightarrow> bool"
    and free_slots :: "'s \<Rightarrow> nat"
    and held_slots :: "'s \<Rightarrow> nat"
    and open_tasks :: "'s \<Rightarrow> nat"
  assumes step_conserves:
    "step s s' \<Longrightarrow> free_slots s' + held_slots s' + open_tasks s' = free_slots s + held_slots s + open_tasks s"
begin

lemma conserved:
  "step\<^sup>*\<^sup>* s s' \<Longrightarrow> free_slots s' + held_slots s' + open_tasks s' = free_slots s + held_slots s + open_tasks s"
  by (induction rule: rtranclp_induct) (simp_all add: step_conserves)

lemma bounded:
  "step\<^sup>*\<^sup>* s s' \<Longrightarrow> open_tasks s' \<le> free_slots s + held_slots s + open_tasks s"
  using conserved by fastforce

lemma no_slot_lost:
  "step\<^sup>*\<^sup>* s s' \<Longrightarrow> held_slots s' = 0 \<Longrightarrow> open_tasks s' = 0 \<Longrightarrow>
   free_slots s' = free_slots s + held_slots s + open_tasks s"
  using conserved by fastforce

end

section \<open>The contract of a simulation\<close>

text \<open>
  A system of several tasks contains another as a component. What the component promises in its
  own runs holds in the larger system as soon as every step of the larger one is a step of the
  component or leaves it alone.
\<close>

locale simulation =
  fixes system_step :: "'s \<Rightarrow> 's \<Rightarrow> bool"
    and part_step :: "'p \<Rightarrow> 'p \<Rightarrow> bool"
    and part :: "'s \<Rightarrow> 'p"
  assumes step_or_stutter: "system_step s s' \<Longrightarrow> part_step (part s) (part s') \<or> part s' = part s"
begin

lemma run_of_part: "system_step\<^sup>*\<^sup>* s s' \<Longrightarrow> part_step\<^sup>*\<^sup>* (part s) (part s')"
proof (induction rule: rtranclp_induct)
  case (step s' s'')
  from step_or_stutter [OF step(2)] step(3) show ?case
    by (auto intro: rtranclp.rtrancl_into_rtrancl)
qed simp

lemma part_invariant:
  assumes "\<And>p. part_step\<^sup>*\<^sup>* (part s) p \<Longrightarrow> I p"
  shows "system_step\<^sup>*\<^sup>* s s' \<Longrightarrow> I (part s')"
  using assms run_of_part by blast

end

end
