(* ===== verification/Tls_Reader.thy ===== *)
theory Tls_Reader
  imports Prelude
begin

text \<open>
  The bounds-checked cursor over untrusted bytes (\<open>protocol/reader.rs\<close>). A reader is its
  remaining bytes; every read returns the value and the reader after it, or \<^term>\<open>None\<close> when the
  input is short. The lemmas state each read as the inverse of the corresponding write, so
  that the parsers above can be compared with a grammar.
\<close>

section \<open>The cursor\<close>

type_synonym reader = "byte list"

definition reader_bytes :: "nat \<Rightarrow> reader \<Rightarrow> (byte list \<times> reader) option" where
  "reader_bytes len r = (if length r < len then None else Some (take len r, drop len r))"

definition reader_u8 :: "reader \<Rightarrow> (byte \<times> reader) option" where
  "reader_u8 r = map_option (\<lambda>(b, r'). (b ! 0, r')) (reader_bytes 1 r)"

definition reader_u16 :: "reader \<Rightarrow> (u16 \<times> reader) option" where
  "reader_u16 r = map_option (\<lambda>(b, r'). (from_be_bytes16 (b ! 0) (b ! 1), r')) (reader_bytes 2 r)"

definition reader_vec8 :: "reader \<Rightarrow> (byte list \<times> reader) option" where
  "reader_vec8 r = do { (len, r') \<leftarrow> reader_u8 r; reader_bytes (unat len) r' }"

definition reader_vec16 :: "reader \<Rightarrow> (byte list \<times> reader) option" where
  "reader_vec16 r = do { (len, r') \<leftarrow> reader_u16 r; reader_bytes (unat len) r' }"

section \<open>Length-prefixed encodings\<close>

text \<open>TLS \<open>opaque x<0..2^8-1>\<close> and \<open>opaque x<0..2^16-1>\<close>.\<close>

definition enc_vec8 :: "byte list \<Rightarrow> byte list" where
  "enc_vec8 v = of_nat (length v) # v"

definition enc_vec16 :: "byte list \<Rightarrow> byte list" where
  "enc_vec16 v = to_be_bytes16 (of_nat (length v)) @ v"

lemma length_enc_vec8 [simp]: "length (enc_vec8 v) = Suc (length v)"
  by (simp add: enc_vec8_def)

lemma length_enc_vec16 [simp]: "length (enc_vec16 v) = length v + 2"
  by (simp add: enc_vec16_def)

lemma enc_vec_not_Nil [simp]: "enc_vec8 v \<noteq> []" "enc_vec16 v \<noteq> []"
  by (simp_all add: enc_vec8_def enc_vec16_def)

section \<open>Reads invert writes\<close>

lemma reader_bytes_Some [wire_simps]:
  "reader_bytes n r = Some (a, r') \<longleftrightarrow> r = a @ r' \<and> length a = n"
  by (auto simp: reader_bytes_def)

lemma reader_bytes_append [simp]: "length a = n \<Longrightarrow> reader_bytes n (a @ r) = Some (a, r)"
  by (simp add: reader_bytes_Some)

lemma reader_u8_Some [wire_simps]: "reader_u8 r = Some (b, r') \<longleftrightarrow> r = b # r'"
  by (cases r) (auto simp: reader_u8_def reader_bytes_def)

lemma reader_u8_Cons [simp]: "reader_u8 (b # r) = Some (b, r)"
  by (simp add: reader_u8_Some)

lemma reader_u16_Some [wire_simps]: "reader_u16 r = Some (w, r') \<longleftrightarrow> r = to_be_bytes16 w @ r'"
proof
  assume "reader_u16 r = Some (w, r')"
  then obtain b where "r = b @ r'" "length b = 2" "w = from_be_bytes16 (b ! 0) (b ! 1)"
    by (auto simp: reader_u16_def reader_bytes_Some)
  then show "r = to_be_bytes16 w @ r'"
    by (auto simp: numeral_2_eq_2 length_Suc_conv)
next
  assume "r = to_be_bytes16 w @ r'"
  then have "reader_bytes 2 r = Some (to_be_bytes16 w, r')" by simp
  then show "reader_u16 r = Some (w, r')" by (simp add: reader_u16_def)
qed

lemma reader_u16_append [simp]: "reader_u16 (to_be_bytes16 w @ r) = Some (w, r)"
  by (simp add: reader_u16_Some)

lemma reader_vec8_Some [wire_simps]:
  "reader_vec8 r = Some (v, r') \<longleftrightarrow> r = enc_vec8 v @ r' \<and> length v < 256"
proof
  assume "reader_vec8 r = Some (v, r')"
  then obtain len where "r = len # v @ r'" "length v = unat len"
    by (auto simp: reader_vec8_def wire_simps split: bind_splits)
  then show "r = enc_vec8 v @ r' \<and> length v < 256"
    using unat_byte_lt [of len] by (simp add: enc_vec8_def)
next
  assume "r = enc_vec8 v @ r' \<and> length v < 256"
  then show "reader_vec8 r = Some (v, r')"
    by (simp add: reader_vec8_def enc_vec8_def unat_of_nat)
qed

lemma reader_vec16_Some [wire_simps]:
  "reader_vec16 r = Some (v, r') \<longleftrightarrow> r = enc_vec16 v @ r' \<and> length v < 65536"
proof
  assume "reader_vec16 r = Some (v, r')"
  then obtain len where "r = to_be_bytes16 len @ v @ r'" "length v = unat len"
    by (auto simp: reader_vec16_def wire_simps split: bind_splits)
  then show "r = enc_vec16 v @ r' \<and> length v < 65536"
    using unat_u16_lt [of len] by (simp add: enc_vec16_def)
next
  assume "r = enc_vec16 v @ r' \<and> length v < 65536"
  then show "reader_vec16 r = Some (v, r')"
    by (simp add: reader_vec16_def enc_vec16_def unat_of_nat)
qed

lemma reader_vec8_append [simp]: "length v < 256 \<Longrightarrow> reader_vec8 (enc_vec8 v @ r) = Some (v, r)"
  by (simp add: reader_vec8_Some)

lemma reader_vec16_append [simp]:
  "length v < 65536 \<Longrightarrow> reader_vec16 (enc_vec16 v @ r) = Some (v, r)"
  by (simp add: reader_vec16_Some)

lemmas reader_empty =
  reader_vec8_append [where r = "[]", simplified] reader_vec16_append [where r = "[]", simplified]

text \<open>Every read leaves a strictly shorter reader, except one of zero bytes.\<close>

lemma reader_u8_shorter: "reader_u8 r = Some (b, r') \<Longrightarrow> length r' < length r"
  by (simp add: wire_simps)

lemma reader_u16_shorter: "reader_u16 r = Some (w, r') \<Longrightarrow> length r' < length r"
  by (simp add: wire_simps)

lemma reader_vec16_shorter: "reader_vec16 r = Some (v, r') \<Longrightarrow> length r' < length r"
  by (simp add: wire_simps)

end
