(* ===== verification/Std_Net.thy ===== *)
theory Std_Net
  imports Prelude
begin

text \<open>
  The standard-library text functions the sources call on untrusted or configured
  strings: UTF-8 validation (\<open>str::from_utf8\<close>), unsigned integer parsing
  (\<open>str::parse::<u16>\<close>), and parsing and printing of IP addresses
  (\<open>str::parse::<IpAddr>\<close>, \<open>str::parse::<Ipv6Addr>\<close>, \<open>Display\<close>). They follow
  the documented grammars of \<open>core::str\<close> and \<open>core::net\<close>; nothing in \<open>src/\<close>
  maps to them.
\<close>

section \<open>UTF-8 validation\<close>

definition utf8_cont :: "byte \<Rightarrow> bool" where
  "utf8_cont b \<longleftrightarrow> 0x80 \<le> b \<and> b \<le> 0xBF"

fun utf8_valid :: "byte list \<Rightarrow> bool" where
  "utf8_valid [] = True"
| "utf8_valid (b # bs) =
     (if b < 0x80 then utf8_valid bs
      else case bs of
        [] \<Rightarrow> False
      | c # cs \<Rightarrow>
          if 0xC2 \<le> b \<and> b \<le> 0xDF then utf8_cont c \<and> utf8_valid cs
          else case cs of
            [] \<Rightarrow> False
          | d # ds \<Rightarrow>
              if 0xE0 \<le> b \<and> b \<le> 0xEF then
                (if b = 0xE0 then 0xA0 \<le> c \<and> c \<le> 0xBF
                 else if b = 0xED then 0x80 \<le> c \<and> c \<le> 0x9F
                 else utf8_cont c) \<and> utf8_cont d \<and> utf8_valid ds
              else case ds of
                [] \<Rightarrow> False
              | e # es \<Rightarrow>
                  0xF0 \<le> b \<and> b \<le> 0xF4 \<and>
                  (if b = 0xF0 then 0x90 \<le> c \<and> c \<le> 0xBF
                   else if b = 0xF4 then 0x80 \<le> c \<and> c \<le> 0x8F
                   else utf8_cont c) \<and> utf8_cont d \<and> utf8_cont e \<and> utf8_valid es)"

definition from_utf8 :: "byte list \<Rightarrow> string option" where
  "from_utf8 bs = (if utf8_valid bs then Some (string_of_bytes bs) else None)"

lemma utf8_valid_ascii: "\<forall>b \<in> set bs. b < 0x80 \<Longrightarrow> utf8_valid bs"
  by (induction bs) auto

lemma from_utf8_ascii:
  assumes "\<forall>c \<in> set s. (of_char c :: nat) < 128"
  shows "from_utf8 (bytes_of_string s) = Some s"
proof -
  have "\<forall>b \<in> set (bytes_of_string s). b < 0x80"
  proof
    fix b assume "b \<in> set (bytes_of_string s)"
    then obtain c where c: "c \<in> set s" and b: "b = of_nat (of_char c)"
      by (auto simp: bytes_of_string_def)
    from assms c have "(of_char c :: nat) < 128" by blast
    then have "unat b < 128" by (simp add: b unat_of_nat)
    then show "b < 0x80" by (simp add: word_less_nat_alt)
  qed
  then show ?thesis
    by (simp add: from_utf8_def utf8_valid_ascii)
qed

section \<open>Decimal and hexadecimal numbers\<close>

text \<open>\<open>char::to_digit(radix)\<close> for radix 10 and 16.\<close>

definition to_digit :: "nat \<Rightarrow> char \<Rightarrow> nat option" where
  "to_digit radix c =
     (let n = of_char c :: nat;
          v = (if 48 \<le> n \<and> n \<le> 57 then n - 48
               else if 97 \<le> n \<and> n \<le> 122 then n - 87
               else if 65 \<le> n \<and> n \<le> 90 then n - 55
               else radix)
      in if v < radix then Some v else None)"

text \<open>\<open>{:x}\<close> and \<open>{}\<close> print a digit below the radix.\<close>

definition from_digit :: "nat \<Rightarrow> char" where
  "from_digit d = char_of (if d < 10 then d + 48 else d + 87)"

fun show_radix :: "nat \<Rightarrow> nat \<Rightarrow> string" where
  "show_radix radix n =
     (if radix < 2 \<or> n < radix then [from_digit n]
      else show_radix radix (n div radix) @ [from_digit (n mod radix)])"

declare show_radix.simps [simp del]

text \<open>\<open>u16::from_str\<close>: an optional \<open>+\<close>, then at least one decimal digit, no overflow.\<close>

fun read_decimal :: "nat \<Rightarrow> nat \<Rightarrow> string \<Rightarrow> nat option" where
  "read_decimal bound acc [] = Some acc"
| "read_decimal bound acc (c # cs) =
     (case to_digit 10 c of
        None \<Rightarrow> None
      | Some d \<Rightarrow>
          if acc * 10 + d < bound then read_decimal bound (acc * 10 + d) cs else None)"

definition parse_unsigned :: "nat \<Rightarrow> string \<Rightarrow> nat option" where
  "parse_unsigned bound s =
     (case s of
        [] \<Rightarrow> None
      | c # cs \<Rightarrow>
          if c = CHR ''+'' then (if cs = [] then None else read_decimal bound 0 cs)
          else read_decimal bound 0 s)"

definition parse_u16 :: "string \<Rightarrow> u16 option" where
  "parse_u16 s = map_option of_nat (parse_unsigned 65536 s)"

lemma to_digit_from_digit:
  assumes "d < radix" and "radix \<le> 16"
  shows "to_digit radix (from_digit d) = Some d"
  using assms by (auto simp: to_digit_def from_digit_def Let_def)

lemma from_digit_neq_plus: "d < 16 \<Longrightarrow> from_digit d \<noteq> CHR ''+''"
proof
  assume "d < 16" and "from_digit d = CHR ''+''"
  then have "of_char (from_digit d) = (of_char (CHR ''+'') :: nat)" by simp
  with \<open>d < 16\<close> show False by (auto simp: from_digit_def split: if_splits)
qed

lemma show_radix_not_Nil [simp]: "show_radix radix n \<noteq> []"
  by (subst show_radix.simps) simp

lemma set_show_radix:
  "2 \<le> radix \<Longrightarrow> set (show_radix radix n) \<subseteq> from_digit ` {..<radix}"
proof (induction radix n rule: show_radix.induct)
  case (1 radix n)
  then show ?case by (subst show_radix.simps) auto
qed

lemma read_decimal_append:
  "read_decimal bound acc (a @ b) =
     (case read_decimal bound acc a of None \<Rightarrow> None | Some v \<Rightarrow> read_decimal bound v b)"
  by (induction a arbitrary: acc) (auto split: option.splits)

lemma read_decimal_show:
  "n < bound \<Longrightarrow> read_decimal bound 0 (show_radix 10 n) = Some n"
proof (induction "10 :: nat" n rule: show_radix.induct)
  case (1 n)
  show ?case
  proof (cases "n < 10")
    case True
    with 1 show ?thesis
      by (subst show_radix.simps) (simp add: to_digit_from_digit)
  next
    case False
    with 1 have "read_decimal bound 0 (show_radix 10 (n div 10)) = Some (n div 10)"
      by simp
    with False 1 show ?thesis
      by (subst show_radix.simps) (simp add: read_decimal_append to_digit_from_digit)
  qed
qed

lemma parse_unsigned_show: "n < bound \<Longrightarrow> parse_unsigned bound (show_radix 10 n) = Some n"
proof -
  assume n: "n < bound"
  obtain c cs where s: "show_radix 10 n = c # cs"
    by (cases "show_radix 10 n") auto
  from set_show_radix [of 10 n] s obtain d where "c = from_digit d" "d < 10" by auto
  then have "c \<noteq> CHR ''+''" using from_digit_neq_plus [of d] by simp
  then show ?thesis
    using read_decimal_show [OF n] by (simp add: parse_unsigned_def s)
qed

lemma parse_u16_show: "parse_u16 (show_radix 10 (unat w)) = Some w"
  using parse_unsigned_show [of "unat w" 65536] unat_u16_lt [of w]
  by (simp add: parse_u16_def)

section \<open>IP addresses\<close>

text \<open>
  An IPv4 address is its four octets, an IPv6 address its eight segments; the parser
  follows \<open>core::net::parser\<close>, each step returning the value and the unread rest.
\<close>

datatype ip_addr = V4 "byte list" | V6 "u16 list"

fun wf_ip :: "ip_addr \<Rightarrow> bool" where
  "wf_ip (V4 octets) = (length octets = 4)"
| "wf_ip (V6 segments) = (length segments = 8)"

fun read_digits :: "nat \<Rightarrow> nat \<Rightarrow> nat \<Rightarrow> nat \<Rightarrow> string \<Rightarrow> (nat \<times> nat \<times> string) option" where
  "read_digits radix max_digits count acc [] = Some (acc, count, [])"
| "read_digits radix max_digits count acc (c # cs) =
     (case to_digit radix c of
        None \<Rightarrow> Some (acc, count, c # cs)
      | Some d \<Rightarrow>
          if max_digits < Suc count then None
          else read_digits radix max_digits (Suc count) (acc * radix + d) cs)"

definition read_number :: "nat \<Rightarrow> nat \<Rightarrow> bool \<Rightarrow> nat \<Rightarrow> string \<Rightarrow> (nat \<times> string) option" where
  "read_number radix max_digits allow_zero_prefix bound s =
     (case read_digits radix max_digits 0 0 s of
        None \<Rightarrow> None
      | Some (v, count, rest) \<Rightarrow>
          if count = 0 then None
          else if \<not> allow_zero_prefix \<and> take 1 s = ''0'' \<and> 1 < count then None
          else if v < bound then Some (v, rest) else None)"

definition read_given_char :: "char \<Rightarrow> string \<Rightarrow> string option" where
  "read_given_char c s = strip_prefix [c] s"

text \<open>\<open>read_separator(sep, index, inner)\<close>: the separator is expected from the second element on.\<close>

definition read_separator ::
    "char \<Rightarrow> nat \<Rightarrow> (string \<Rightarrow> ('a \<times> string) option) \<Rightarrow> string \<Rightarrow> ('a \<times> string) option" where
  "read_separator sep index inner s =
     (if 0 < index then Option.bind (read_given_char sep s) inner else inner s)"

fun read_octets :: "nat \<Rightarrow> nat \<Rightarrow> string \<Rightarrow> (byte list \<times> string) option" where
  "read_octets index 0 s = Some ([], s)"
| "read_octets index (Suc n) s =
     (case read_separator CHR ''.'' index (read_number 10 3 False 256) s of
        None \<Rightarrow> None
      | Some (v, rest) \<Rightarrow>
          map_option (\<lambda>(vs, r). (of_nat v # vs, r)) (read_octets (Suc index) n rest))"

abbreviation read_ipv4_addr :: "string \<Rightarrow> (byte list \<times> string) option" where
  "read_ipv4_addr \<equiv> read_octets 0 4"

text \<open>
  \<open>read_groups\<close> fills at most \<open>limit\<close> segments from \<open>index\<close> on, and says whether the last two came
  from an embedded IPv4 address.
\<close>

definition octet_pairs :: "byte list \<Rightarrow> u16 list" where
  "octet_pairs octets =
     [from_be_bytes16 (octets ! 0) (octets ! 1), from_be_bytes16 (octets ! 2) (octets ! 3)]"

fun read_groups :: "nat \<Rightarrow> nat \<Rightarrow> string \<Rightarrow> u16 list \<times> bool \<times> string" where
  "read_groups index 0 s = ([], False, s)"
| "read_groups index (Suc left) s =
     (case (if 0 < left then read_separator CHR '':'' index read_ipv4_addr s else None) of
        Some (octets, rest) \<Rightarrow> (octet_pairs octets, True, rest)
      | None \<Rightarrow>
          (case read_separator CHR '':'' index (read_number 16 4 True 65536) s of
             None \<Rightarrow> ([], False, s)
           | Some (v, rest) \<Rightarrow>
               (let (vs, v4, r) = read_groups (Suc index) left rest
                in (of_nat v # vs, v4, r))))"

definition read_ipv6_addr :: "string \<Rightarrow> (u16 list \<times> string) option" where
  "read_ipv6_addr s =
     (let (head, head_v4, rest) = read_groups 0 8 s
      in if length head = 8 then Some (head, rest)
         else if head_v4 then None
         else case strip_prefix ''::'' rest of
           None \<Rightarrow> None
         | Some rest' \<Rightarrow>
             (let (tail, tail_v4, rest'') = read_groups 0 (8 - (length head + 1)) rest'
              in Some (head @ replicate (8 - length head - length tail) 0 @ tail, rest'')))"

definition parse_ipv6_addr :: "string \<Rightarrow> u16 list option" where
  "parse_ipv6_addr s =
     (case read_ipv6_addr s of
        Some (segments, []) \<Rightarrow> Some segments
      | _ \<Rightarrow> None)"

definition parse_ip_addr :: "string \<Rightarrow> ip_addr option" where
  "parse_ip_addr s =
     (case (case read_ipv4_addr s of
              Some (octets, rest) \<Rightarrow> Some (V4 octets, rest)
            | None \<Rightarrow> map_option (\<lambda>(segments, rest). (V6 segments, rest)) (read_ipv6_addr s)) of
        Some (ip, []) \<Rightarrow> Some ip
      | _ \<Rightarrow> None)"

section \<open>Printing addresses\<close>

definition show_ipv4 :: "byte list \<Rightarrow> string" where
  "show_ipv4 octets =
     show_radix 10 (unat (octets ! 0)) @ ''.'' @ show_radix 10 (unat (octets ! 1)) @ ''.'' @
     show_radix 10 (unat (octets ! 2)) @ ''.'' @ show_radix 10 (unat (octets ! 3))"

text \<open>The longest run of zero segments (the first one, when several are equally long).\<close>

fun zero_span :: "nat \<Rightarrow> nat \<times> nat \<Rightarrow> nat \<times> nat \<Rightarrow> u16 list \<Rightarrow> nat \<times> nat" where
  "zero_span i longest current [] = longest"
| "zero_span i longest current (x # xs) =
     (if x = 0 then
        (let current' = ((if snd current = 0 then i else fst current), Suc (snd current));
             longest' = (if snd current' > snd longest then current' else longest)
         in zero_span (Suc i) longest' current' xs)
      else zero_span (Suc i) longest (0, 0) xs)"

fun show_segments :: "u16 list \<Rightarrow> string" where
  "show_segments [] = []"
| "show_segments [x] = show_radix 16 (unat x)"
| "show_segments (x # xs) = show_radix 16 (unat x) @ '':'' @ show_segments xs"

definition to_ipv4_mapped :: "u16 list \<Rightarrow> byte list option" where
  "to_ipv4_mapped segments =
     (if take 6 segments = [0, 0, 0, 0, 0, 0xFFFF]
      then Some (to_be_bytes16 (segments ! 6) @ to_be_bytes16 (segments ! 7)) else None)"

definition show_ipv6 :: "u16 list \<Rightarrow> string" where
  "show_ipv6 segments =
     (case to_ipv4_mapped segments of
        Some octets \<Rightarrow> ''::ffff:'' @ show_ipv4 octets
      | None \<Rightarrow>
          (let (start, len) = zero_span 0 (0, 0) (0, 0) segments
           in if len > 1 then
                show_segments (take start segments) @ ''::'' @
                show_segments (drop (start + len) segments)
              else show_segments segments))"

text \<open>A text that starts with neither a hexadecimal digit nor a colon is no address.\<close>

lemma parse_ip_addr_None:
  assumes "to_digit 16 c = None" "c \<noteq> CHR '':''"
  shows "parse_ip_addr (c # cs) = None"
proof -
  have "to_digit 10 c = None"
    using assms(1) by (auto simp: to_digit_def Let_def split: if_splits)
  then have v4: "read_octets 0 (Suc n) (c # cs) = None" for n
    by (simp add: read_separator_def read_number_def)
  have "read_groups 0 (Suc n) (c # cs) = ([], False, c # cs)" for n
    using assms(1) v4 [of 3] by (simp add: read_separator_def read_number_def)
  from this [of 7] have "read_groups 0 8 (c # cs) = ([], False, c # cs)" by simp
  then have "read_ipv6_addr (c # cs) = None"
    using assms(2) by (simp add: read_ipv6_addr_def)
  with v4 [of 3] show ?thesis by (simp add: parse_ip_addr_def)
qed

text \<open>Neither is one without a colon that does not start with a decimal digit.\<close>

lemma read_digits_rest: "read_digits radix m n acc s = Some (v, k, rest) \<Longrightarrow> set rest \<subseteq> set s"
  by (induction radix m n acc s rule: read_digits.induct) (auto split: option.splits if_splits)

lemma read_number_rest: "read_number radix m z b s = Some (v, rest) \<Longrightarrow> set rest \<subseteq> set s"
  by (fastforce simp: read_number_def split: option.splits if_splits intro: read_digits_rest [THEN subsetD])

lemma parse_ip_addr_no_colon:
  assumes "to_digit 10 c = None" "CHR '':'' \<notin> set (c # cs)"
  shows "parse_ip_addr (c # cs) = None"
proof -
  have v4: "read_octets 0 (Suc n) (c # cs) = None" for n
    using assms(1) by (simp add: read_separator_def read_number_def)
  have stop: "read_groups (Suc i) n rest = ([], False, rest)" if "CHR '':'' \<notin> set rest" for i n rest
    using that by (cases n; cases rest) (auto simp: read_separator_def read_given_char_def)
  have "\<exists>vs rest. read_groups 0 (Suc n) (c # cs) = (vs, False, rest) \<and> length vs \<le> 1 \<and> CHR '':'' \<notin> set rest" for n
  proof (cases "read_number 16 4 True 65536 (c # cs)")
    case None
    with v4 [of 3] assms(2) show ?thesis by (simp add: read_separator_def)
  next
    case (Some r)
    obtain v rest where r: "r = (v, rest)" by (cases r)
    have "CHR '':'' \<notin> set rest" using read_number_rest [OF Some [unfolded r]] assms(2) by blast
    with Some r v4 [of 3] show ?thesis by (simp add: read_separator_def stop)
  qed
  from this [of 7] obtain vs rest where "read_groups 0 8 (c # cs) = (vs, False, rest)"
    "length vs \<le> 1" "CHR '':'' \<notin> set rest" by auto
  then have "read_ipv6_addr (c # cs) = None"
    by (cases rest) (auto simp: read_ipv6_addr_def)
  with v4 [of 3] show ?thesis by (simp add: parse_ip_addr_def)
qed

lemma show_radix_digits:
  "n < 10 \<Longrightarrow> show_radix 10 n = [from_digit n]"
  "10 \<le> n \<Longrightarrow> n < 100 \<Longrightarrow> show_radix 10 n = [from_digit (n div 10), from_digit (n mod 10)]"
  "100 \<le> n \<Longrightarrow> n < 1000 \<Longrightarrow> show_radix 10 n =
     [from_digit (n div 10 div 10), from_digit (n div 10 mod 10), from_digit (n mod 10)]"
proof -
  note one = show_radix.simps [of 10 n]
  show "n < 10 \<Longrightarrow> show_radix 10 n = [from_digit n]" by (simp add: one)
  show "10 \<le> n \<Longrightarrow> n < 100 \<Longrightarrow> show_radix 10 n = [from_digit (n div 10), from_digit (n mod 10)]"
    by (simp add: one show_radix.simps [of 10 "n div 10"])
  assume n: "100 \<le> n" "n < 1000"
  then have "\<not> n div 10 < 10" "n div 10 div 10 < 10" by linarith+
  with n show "show_radix 10 n =
      [from_digit (n div 10 div 10), from_digit (n div 10 mod 10), from_digit (n mod 10)]"
    by (simp add: one show_radix.simps [of 10 "n div 10"] show_radix.simps [of 10 "n div 10 div 10"])
qed

lemma from_digit_eq_zero: "d < 10 \<Longrightarrow> from_digit d = CHR ''0'' \<longleftrightarrow> d = 0"
proof -
  assume d: "d < 10"
  then have "to_digit 10 (from_digit d) = Some d" by (simp add: to_digit_from_digit)
  moreover have "to_digit 10 CHR ''0'' = Some 0" by code_simp
  moreover have "from_digit 0 = CHR ''0''" by code_simp
  ultimately show ?thesis by auto
qed

lemma read_number_show:
  assumes "n < 256" and "rest = [] \<or> to_digit 10 (hd rest) = None"
  shows "read_number 10 3 False 256 (show_radix 10 n @ rest) = Some (n, rest)"
proof -
  have stop: "read_digits 10 3 count acc rest = Some (acc, count, rest)" for count acc
    using assms(2) by (cases rest) auto
  consider "n < 10" | "10 \<le> n" "n < 100" | "100 \<le> n" by linarith
  then show ?thesis
  proof cases
    case 1
    then show ?thesis
      by (simp add: show_radix_digits read_number_def to_digit_from_digit stop)
  next
    case 2
    then have "n div 10 < 10" "n div 10 \<noteq> 0" by auto
    with 2 show ?thesis
      by (simp add: show_radix_digits read_number_def to_digit_from_digit stop from_digit_eq_zero)
  next
    case 3
    with assms(1) have "n div 10 div 10 < 10" "n div 10 div 10 \<noteq> 0" by auto
    moreover have "(n div 10 div 10 * 10 + n div 10 mod 10) * 10 + n mod 10 = n"
      by (simp only: div_mult_mod_eq)
    ultimately show ?thesis
      using 3 assms(1)
      by (simp add: show_radix_digits read_number_def to_digit_from_digit stop from_digit_eq_zero)
  qed
qed

lemma read_octets_show:
  assumes "length octets = 4"
  shows "read_ipv4_addr (show_ipv4 octets) = Some (octets, [])"
proof -
  obtain a b c d where o: "octets = [a, b, c, d]"
    using assms by (auto simp: length_Suc_conv numeral_eq_Suc)
  have dot: "to_digit 10 CHR ''.'' = None" by code_simp
  have four: "(4 :: nat) = Suc (Suc (Suc (Suc 0)))" by simp
  have num: "read_number 10 3 False 256 (show_radix 10 (unat x) @ rest) = Some (unat x, rest)"
    if "rest = [] \<or> hd rest = CHR ''.''" for rest and x :: byte
    using that dot unat_byte_lt [of x] by (intro read_number_show) auto
  show ?thesis
    using num [of "[]"] unfolding four
    by (simp add: o show_ipv4_def read_separator_def read_given_char_def num)
qed

lemma parse_ip_addr_show_ipv4: "length octets = 4 \<Longrightarrow> parse_ip_addr (show_ipv4 octets) = Some (V4 octets)"
  by (simp add: parse_ip_addr_def read_octets_show)

end
