(* ===== verification/Names.thy ===== *)
theory Names
  imports Std_Net
begin

text \<open>
  The domain types of the lookup contract (\<open>lookup/types.rs\<close>): validated host names,
  exact and wildcard route keys, and backend addresses, with their parsers and printers.
\<close>

section \<open>Name errors and DNS names\<close>

datatype name_error =
    Empty
  | TooLong
  | EmptyLabel
  | LabelTooLong
  | InvalidCharacter
  | IpLiteral
  | InvalidWildcard
  | MissingPort
  | InvalidPort
  | InvalidBackendHost

definition MAX_NAME_LEN :: nat where "MAX_NAME_LEN = 253"

definition MAX_LABEL_LEN :: nat where "MAX_LABEL_LEN = 63"

definition WILDCARD_PREFIX :: string where "WILDCARD_PREFIX = ''*.''"

definition name_char :: "char \<Rightarrow> bool" where
  "name_char b \<longleftrightarrow>
     is_ascii_lowercase b \<or> is_ascii_digit b \<or> b = CHR ''-'' \<or> b = CHR ''_''"

text \<open>The loop over \<open>name.split('.')\<close> stops at the first bad label.\<close>

fun validate_labels :: "string list \<Rightarrow> (unit, name_error) result" where
  "validate_labels [] = Ok ()"
| "validate_labels (label # labels) =
     (if label = [] then Err EmptyLabel
      else if length label > MAX_LABEL_LEN then Err LabelTooLong
      else if \<not> list_all name_char label then Err InvalidCharacter
      else validate_labels labels)"

definition validate_dns_name :: "string \<Rightarrow> (unit, name_error) result" where
  "validate_dns_name name =
     (if name = [] then Err Empty
      else if length name > MAX_NAME_LEN then Err TooLong
      else validate_labels (split_char CHR ''.'' name))"

section \<open>Host names\<close>

datatype hostname = Hostname (as_str: string)

definition hostname_parse :: "string \<Rightarrow> (hostname, name_error) result" where
  "hostname_parse name =
     (let lowered = to_ascii_lowercase name
      in case validate_dns_name lowered of
           Err e \<Rightarrow> Err e
         | Ok _ \<Rightarrow>
             if parse_ip_addr lowered \<noteq> None then Err IpLiteral
             else Ok (Hostname lowered))"

definition hostname_parent :: "hostname \<Rightarrow> string option" where
  "hostname_parent host = map_option snd (split_once CHR ''.'' (as_str host))"

section \<open>Route keys\<close>

record route_key =
  key_text :: string
  key_wildcard :: bool

definition route_key_exact :: "hostname \<Rightarrow> route_key" where
  "route_key_exact host = \<lparr>key_text = as_str host, key_wildcard = False\<rparr>"

definition route_key_parse :: "string \<Rightarrow> (route_key, name_error) result" where
  "route_key_parse key =
     (let lowered = to_ascii_lowercase key
      in case strip_prefix WILDCARD_PREFIX lowered of
           Some parent \<Rightarrow>
             (case map_err (\<lambda>e. if e = InvalidCharacter then InvalidWildcard else e)
                     (hostname_parse parent) of
                Err e \<Rightarrow> Err e
              | Ok host \<Rightarrow>
                  if CHR ''.'' \<notin> set (as_str host) then Err InvalidWildcard
                  else Ok \<lparr>key_text = lowered, key_wildcard = True\<rparr>)
         | None \<Rightarrow>
             if CHR ''*'' \<in> set lowered then Err InvalidWildcard
             else map_ok route_key_exact (hostname_parse lowered))"

definition route_key_wildcard_for :: "hostname \<Rightarrow> route_key option" where
  "route_key_wildcard_for host =
     (case hostname_parent host of
        None \<Rightarrow> None
      | Some parent \<Rightarrow>
          if CHR ''.'' \<notin> set parent then None
          else Some \<lparr>key_text = WILDCARD_PREFIX @ parent, key_wildcard = True\<rparr>)"

section \<open>Backends\<close>

datatype backend_host = Ip ip_addr | Dns string

record backend =
  backend_host :: backend_host
  backend_port :: u16

definition split_host_port :: "string \<Rightarrow> (string \<times> string, name_error) result" where
  "split_host_port value =
     (case strip_prefix ''['' value of
        Some rest \<Rightarrow>
          (case split_once CHR '']'' rest of
             None \<Rightarrow> Err InvalidBackendHost
           | Some (host, after) \<Rightarrow>
               (case strip_prefix '':'' after of
                  None \<Rightarrow> Err MissingPort
                | Some port \<Rightarrow>
                    if parse_ipv6_addr host = None then Err InvalidBackendHost
                    else Ok (host, port)))
      | None \<Rightarrow>
          (case rsplit_once CHR '':'' value of
             None \<Rightarrow> Err MissingPort
           | Some (host, port) \<Rightarrow>
               if CHR '':'' \<in> set host then Err InvalidBackendHost
               else Ok (host, port)))"

definition parse_backend_host :: "string \<Rightarrow> (backend_host, name_error) result" where
  "parse_backend_host host =
     (case parse_ip_addr host of
        Some ip \<Rightarrow> Ok (Ip ip)
      | None \<Rightarrow>
          (let lowered = to_ascii_lowercase host
           in case validate_dns_name lowered of
                Err _ \<Rightarrow> Err InvalidBackendHost
              | Ok _ \<Rightarrow> Ok (Dns lowered)))"

text \<open>\<open>port.parse::<u16>().ok().and_then(NonZeroU16::new)\<close>.\<close>

definition parse_port :: "string \<Rightarrow> u16 option" where
  "parse_port s = Option.bind (parse_u16 s) (\<lambda>p. if p = 0 then None else Some p)"

definition backend_from_str :: "string \<Rightarrow> (backend, name_error) result" where
  "backend_from_str value =
     (case split_host_port value of
        Err e \<Rightarrow> Err e
      | Ok (host, port) \<Rightarrow>
          (case parse_port port of
             None \<Rightarrow> Err InvalidPort
           | Some p \<Rightarrow>
               map_ok (\<lambda>h. \<lparr>backend_host = h, backend_port = p\<rparr>) (parse_backend_host host)))"

definition show_u16 :: "u16 \<Rightarrow> string" where
  "show_u16 p = show_radix 10 (unat p)"

text \<open>\<open>impl Display for Backend\<close>.\<close>

definition backend_display :: "backend \<Rightarrow> string" where
  "backend_display b =
     (case backend_host b of
        Ip (V6 ip) \<Rightarrow> ''['' @ show_ipv6 ip @ '']:'' @ show_u16 (backend_port b)
      | Ip (V4 ip) \<Rightarrow> show_ipv4 ip @ '':'' @ show_u16 (backend_port b)
      | Dns name \<Rightarrow> name @ '':'' @ show_u16 (backend_port b))"

section \<open>Well-formed names\<close>

text \<open>What the validators accept, stated without their control flow.\<close>

definition dns_label :: "string \<Rightarrow> bool" where
  "dns_label l \<longleftrightarrow> 0 < length l \<and> length l \<le> 63 \<and> list_all name_char l"

definition dns_name :: "string \<Rightarrow> bool" where
  "dns_name s \<longleftrightarrow> s \<noteq> [] \<and> length s \<le> 253 \<and> list_all dns_label (split_char CHR ''.'' s)"

definition valid_hostname :: "hostname \<Rightarrow> bool" where
  "valid_hostname h \<longleftrightarrow> dns_name (as_str h) \<and> parse_ip_addr (as_str h) = None"

definition valid_route_key :: "route_key \<Rightarrow> bool" where
  "valid_route_key k \<longleftrightarrow>
     (if key_wildcard k
      then take 2 (key_text k) = ''*.'' \<and> valid_hostname (Hostname (drop 2 (key_text k))) \<and>
           CHR ''.'' \<in> set (drop 2 (key_text k))
      else valid_hostname (Hostname (key_text k)))"

lemma name_char_not_upper: "name_char c \<Longrightarrow> \<not> is_ascii_uppercase c"
  by (auto simp: name_char_def is_ascii_lowercase_def is_ascii_digit_def is_ascii_uppercase_def)

lemma name_char_special [simp]:
  "\<not> name_char CHR ''*''" "\<not> name_char CHR ''.''" "\<not> name_char CHR '':''" "\<not> name_char CHR ''[''"
  by (simp_all add: name_char_def is_ascii_lowercase_def is_ascii_digit_def)

lemma name_char_ascii: "name_char c \<Longrightarrow> (of_char c :: nat) < 128"
  by (auto simp: name_char_def is_ascii_lowercase_def is_ascii_digit_def)

lemma validate_labels_Ok: "validate_labels ls = Ok u \<longleftrightarrow> list_all dns_label ls"
  by (induction ls) (auto simp: dns_label_def MAX_LABEL_LEN_def)

lemma validate_dns_name_Ok: "validate_dns_name s = Ok u \<longleftrightarrow> dns_name s"
  by (simp add: validate_dns_name_def dns_name_def validate_labels_Ok MAX_NAME_LEN_def)

lemma dns_name_chars:
  assumes "dns_name s" and "c \<in> set s"
  shows "c = CHR ''.'' \<or> name_char c"
proof (cases "c = CHR ''.''")
  case False
  with assms(2) have "c \<in> (\<Union>l \<in> set (split_char CHR ''.'' s). set l)"
    by (simp add: set_split_char)
  with assms(1) show ?thesis
    by (auto simp: dns_name_def dns_label_def list_all_iff)
qed simp

lemma dns_name_excludes:
  assumes "dns_name s"
  shows "CHR ''*'' \<notin> set s" "CHR '':'' \<notin> set s" "CHR ''['' \<notin> set s"
  using dns_name_chars [OF assms] name_char_special by fastforce+

lemma dns_name_lower [simp]: "dns_name s \<Longrightarrow> to_ascii_lowercase s = s"
proof (rule map_idI)
  fix c assume "dns_name s" "c \<in> set s"
  then consider "c = CHR ''.''" | "name_char c" using dns_name_chars by blast
  then show "to_ascii_lower c = c"
  proof cases
    case 1
    then show ?thesis by (simp add: is_ascii_uppercase_def)
  next
    case 2
    then show ?thesis by (simp add: name_char_not_upper)
  qed
qed

lemma hostname_parse_Ok_iff:
  "hostname_parse s = Ok h \<longleftrightarrow> h = Hostname (to_ascii_lowercase s) \<and> valid_hostname h"
proof (cases "validate_dns_name (to_ascii_lowercase s)")
  case (Ok u)
  then have "dns_name (to_ascii_lowercase s)" by (simp add: validate_dns_name_Ok)
  with Ok show ?thesis by (auto simp: hostname_parse_def valid_hostname_def Let_def)
next
  case (Err e)
  then have "\<not> dns_name (to_ascii_lowercase s)"
    by (metis result.distinct(1) validate_dns_name_Ok)
  with Err show ?thesis by (auto simp: hostname_parse_def valid_hostname_def Let_def)
qed

lemma hostname_parse_dns_name: "hostname_parse s = Ok h \<Longrightarrow> dns_name (to_ascii_lowercase s)"
  by (auto simp: hostname_parse_Ok_iff valid_hostname_def)

lemma hostname_parse_valid: "valid_hostname h \<Longrightarrow> hostname_parse (as_str h) = Ok h"
  by (cases h) (simp add: hostname_parse_Ok_iff valid_hostname_def)

lemma hostname_parse_lower: "hostname_parse (to_ascii_lowercase s) = hostname_parse s"
  by (simp add: hostname_parse_def)

lemma dns_name_parent:
  assumes "dns_name s" and "s = label @ CHR ''.'' # parent"
  shows "dns_name parent" and "label \<noteq> []"
proof -
  have split: "split_char CHR ''.'' s = split_char CHR ''.'' label @ split_char CHR ''.'' parent"
    by (simp add: assms(2) split_char_append)
  with assms(1) have labels: "list_all dns_label (split_char CHR ''.'' parent)"
    "list_all dns_label (split_char CHR ''.'' label)"
    by (simp_all add: dns_name_def)
  then have "parent \<noteq> []" "label \<noteq> []" by (auto simp: dns_label_def)
  with assms labels show "dns_name parent" "label \<noteq> []" by (simp_all add: dns_name_def)
qed

lemma valid_route_key_exact [simp]: "valid_route_key (route_key_exact h) \<longleftrightarrow> valid_hostname h"
  by (simp add: valid_route_key_def route_key_exact_def)

lemma star_lower: "take 2 (to_ascii_lowercase s) = ''*.'' \<longleftrightarrow> take 2 s = ''*.''"
proof -
  have "to_ascii_lower c = CHR ''*'' \<longleftrightarrow> c = CHR ''*''"
    and "to_ascii_lower c = CHR ''.'' \<longleftrightarrow> c = CHR ''.''" for c
    by (simp_all add: to_ascii_lower_not_letter is_ascii_lowercase_def is_ascii_uppercase_def)
  then show ?thesis by (cases s; cases "tl s") auto
qed

lemma valid_route_key_text_wildcard:
  assumes "valid_route_key k" and "key_wildcard k"
  obtains parent where "key_text k = ''*.'' @ parent" and "valid_hostname (Hostname parent)"
    and "CHR ''.'' \<in> set parent"
proof -
  have "key_text k = take 2 (key_text k) @ drop 2 (key_text k)" by simp
  with assms that show ?thesis by (simp add: valid_route_key_def)
qed

lemma valid_route_key_lower: "valid_route_key k \<Longrightarrow> to_ascii_lowercase (key_text k) = key_text k"
proof (cases "key_wildcard k")
  case True
  assume "valid_route_key k"
  with True obtain parent where "key_text k = ''*.'' @ parent" "valid_hostname (Hostname parent)"
    using valid_route_key_text_wildcard by blast
  then show ?thesis by (simp add: valid_hostname_def is_ascii_uppercase_def)
qed (simp add: valid_route_key_def valid_hostname_def)

lemma valid_exact_no_star:
  "valid_route_key k \<Longrightarrow> \<not> key_wildcard k \<Longrightarrow> CHR ''*'' \<notin> set (key_text k)"
  by (simp add: valid_route_key_def valid_hostname_def dns_name_excludes)

lemma route_key_parse_star:
  "to_ascii_lowercase s = ''*.'' @ parent \<Longrightarrow>
   route_key_parse s =
     (case hostname_parse parent of
        Err e \<Rightarrow> Err (if e = InvalidCharacter then InvalidWildcard else e)
      | Ok host \<Rightarrow>
          if CHR ''.'' \<notin> set (as_str host) then Err InvalidWildcard
          else Ok \<lparr>key_text = ''*.'' @ parent, key_wildcard = True\<rparr>)"
  by (simp add: route_key_parse_def WILDCARD_PREFIX_def split: result.splits)

lemma route_key_parse_Ok_iff:
  "route_key_parse s = Ok k \<longleftrightarrow> valid_route_key k \<and> key_text k = to_ascii_lowercase s"
proof (cases "strip_prefix WILDCARD_PREFIX (to_ascii_lowercase s)")
  case None
  then have no_prefix: "to_ascii_lowercase s \<noteq> ''*.'' @ r" for r
    using strip_prefix_Some_iff [of "''*.''" "to_ascii_lowercase s" r]
    by (simp add: WILDCARD_PREFIX_def)
  show ?thesis
  proof
    assume "route_key_parse s = Ok k"
    with None show "valid_route_key k \<and> key_text k = to_ascii_lowercase s"
      by (auto simp: route_key_parse_def Let_def map_ok_eq_Ok hostname_parse_Ok_iff
          route_key_exact_def valid_route_key_def split: if_splits)
  next
    assume k: "valid_route_key k \<and> key_text k = to_ascii_lowercase s"
    then have exact: "\<not> key_wildcard k"
      using no_prefix by (metis valid_route_key_text_wildcard)
    with k have "valid_hostname (Hostname (to_ascii_lowercase s))" by (auto simp: valid_route_key_def)
    moreover have "k = route_key_exact (Hostname (to_ascii_lowercase s))"
      using k exact by (cases k) (simp add: route_key_exact_def)
    ultimately show "route_key_parse s = Ok k"
      using None k valid_exact_no_star [OF _ exact]
      by (simp add: route_key_parse_def Let_def hostname_parse_lower map_ok_eq_Ok
          hostname_parse_Ok_iff)
  qed
next
  case (Some parent)
  then have low: "to_ascii_lowercase s = ''*.'' @ parent"
    by (simp add: WILDCARD_PREFIX_def strip_prefix_Some_iff)
  then have parent_low: "to_ascii_lowercase parent = parent"
    using to_ascii_lowercase_idem [of s] by simp
  show ?thesis
  proof
    assume "route_key_parse s = Ok k"
    then have "hostname_parse parent = Ok (Hostname parent)" "CHR ''.'' \<in> set parent"
      and k: "k = \<lparr>key_text = ''*.'' @ parent, key_wildcard = True\<rparr>"
      using parent_low
      by (auto simp: route_key_parse_star [OF low] hostname_parse_Ok_iff
          split: result.splits if_splits)
    then show "valid_route_key k \<and> key_text k = to_ascii_lowercase s"
      using low by (simp add: valid_route_key_def hostname_parse_Ok_iff)
  next
    assume k: "valid_route_key k \<and> key_text k = to_ascii_lowercase s"
    then have wild: "key_wildcard k" using valid_exact_no_star [of k] low by auto
    with k low have parts: "valid_hostname (Hostname parent)" "CHR ''.'' \<in> set parent"
      by (auto simp: valid_route_key_def)
    then have "hostname_parse parent = Ok (Hostname parent)"
      using parent_low by (simp add: hostname_parse_Ok_iff)
    with parts k wild low show "route_key_parse s = Ok k"
      by (cases k) (simp add: route_key_parse_star [OF low])
  qed
qed

lemma route_key_parse_valid: "valid_route_key k \<Longrightarrow> route_key_parse (key_text k) = Ok k"
  by (simp add: route_key_parse_Ok_iff valid_route_key_lower)

section \<open>What a key covers\<close>

text \<open>
  The matching relation of the documentation: an exact key covers its own name, a wildcard
  key covers the names that have exactly one label in place of the star.
\<close>

definition key_matches :: "route_key \<Rightarrow> hostname \<Rightarrow> bool" where
  "key_matches k h \<longleftrightarrow>
     (if key_wildcard k
      then \<exists>label. CHR ''.'' \<notin> set label \<and> as_str h = label @ tl (key_text k)
      else key_text k = as_str h)"

lemma route_key_wildcard_for_iff:
  assumes "valid_route_key k" and "key_wildcard k"
  shows "route_key_wildcard_for h = Some k \<longleftrightarrow> key_matches k h"
proof -
  obtain parent where kt: "key_text k = ''*.'' @ parent" and dot: "CHR ''.'' \<in> set parent"
    using assms by (rule valid_route_key_text_wildcard)
  have "route_key_wildcard_for h = Some k \<longleftrightarrow> hostname_parent h = Some parent"
    using kt dot assms(2)
    by (cases k) (auto simp: route_key_wildcard_for_def WILDCARD_PREFIX_def split: option.splits)
  also have "\<dots> \<longleftrightarrow> (\<exists>label. split_once CHR ''.'' (as_str h) = Some (label, parent))"
    by (auto simp: hostname_parent_def)
  also have "\<dots> \<longleftrightarrow> key_matches k h"
    using assms(2) kt by (auto simp: key_matches_def split_once_Some_iff)
  finally show ?thesis .
qed

lemma route_key_wildcard_for_wildcard:
  "route_key_wildcard_for h = Some k \<Longrightarrow> key_wildcard k \<and> take 2 (key_text k) = ''*.''"
  by (auto simp: route_key_wildcard_for_def WILDCARD_PREFIX_def split: option.splits if_splits)

section \<open>Backends\<close>

fun wf_backend_host :: "backend_host \<Rightarrow> bool" where
  "wf_backend_host (Ip ip) = wf_ip ip"
| "wf_backend_host (Dns name) = (dns_name name \<and> parse_ip_addr name = None)"

definition wf_backend :: "backend \<Rightarrow> bool" where
  "wf_backend b \<longleftrightarrow> wf_backend_host (backend_host b) \<and> backend_port b \<noteq> 0"

lemma show_u16_digits: "c \<in> set (show_u16 p) \<Longrightarrow> \<exists>d < 10. c = from_digit d"
  using set_show_radix [of 10 "unat p"] by (auto simp: show_u16_def)

lemma from_digit_not_special: "d < 10 \<Longrightarrow> from_digit d \<noteq> CHR '':'' \<and> from_digit d \<noteq> CHR ''[''"
proof -
  assume "d < 10"
  then have "to_digit 10 (from_digit d) = Some d" by (simp add: to_digit_from_digit)
  moreover have "to_digit 10 CHR '':'' = None" "to_digit 10 CHR ''['' = None" by code_simp+
  ultimately show ?thesis by auto
qed

lemma show_u16_no_colon: "CHR '':'' \<notin> set (show_u16 p)"
  using show_u16_digits [of "CHR '':''" p] from_digit_not_special by force

lemma parse_port_show: "p \<noteq> 0 \<Longrightarrow> parse_port (show_u16 p) = Some p"
  by (simp add: parse_port_def show_u16_def parse_u16_show)

lemma show_ipv4_chars: "c \<in> set (show_ipv4 octets) \<Longrightarrow> c = CHR ''.'' \<or> (\<exists>d < 10. c = from_digit d)"
  using set_show_radix [of 10] by (fastforce simp: show_ipv4_def)

lemma backend_from_str_plain:
  assumes "CHR '':'' \<notin> set host" "CHR ''['' \<notin> set host" "p \<noteq> 0"
  shows "backend_from_str (host @ '':'' @ show_u16 p) =
    map_ok (\<lambda>h. \<lparr>backend_host = h, backend_port = p\<rparr>) (parse_backend_host host)"
proof -
  have "rsplit_once CHR '':'' (host @ '':'' @ show_u16 p) = Some (host, show_u16 p)"
    by (simp add: rsplit_once_Some_iff show_u16_no_colon)
  moreover have "strip_prefix ''['' (host @ '':'' @ show_u16 p) = None"
    using assms(2) by (cases host) auto
  ultimately have "split_host_port (host @ '':'' @ show_u16 p) = Ok (host, show_u16 p)"
    using assms(1) by (simp add: split_host_port_def)
  then show ?thesis by (simp add: backend_from_str_def parse_port_show assms(3))
qed

lemma backend_round_trip_dns:
  assumes "dns_name name" "parse_ip_addr name = None" "p \<noteq> 0"
  shows "backend_from_str (backend_display \<lparr>backend_host = Dns name, backend_port = p\<rparr>) =
    Ok \<lparr>backend_host = Dns name, backend_port = p\<rparr>"
proof -
  have "validate_dns_name name = Ok ()" using assms(1) by (simp add: validate_dns_name_Ok)
  then have "parse_backend_host name = Ok (Dns name)"
    using assms(1,2) by (simp add: parse_backend_host_def Let_def)
  with backend_from_str_plain [of name p] dns_name_excludes [OF assms(1)] assms(3) show ?thesis
    by (simp add: backend_display_def)
qed

lemma backend_round_trip_v4:
  assumes "length octets = 4" "p \<noteq> 0"
  shows "backend_from_str (backend_display \<lparr>backend_host = Ip (V4 octets), backend_port = p\<rparr>) =
    Ok \<lparr>backend_host = Ip (V4 octets), backend_port = p\<rparr>"
proof -
  have "CHR '':'' \<notin> set (show_ipv4 octets)" "CHR ''['' \<notin> set (show_ipv4 octets)"
    using show_ipv4_chars [of _ octets] from_digit_not_special by fastforce+
  from backend_from_str_plain [OF this assms(2)] show ?thesis
    by (simp add: backend_display_def parse_backend_host_def parse_ip_addr_show_ipv4 [OF assms(1)])
qed

section \<open>Properties\<close>

text \<open>Printing a backend whose host is a DNS name or an IPv4 address and
parsing the text gives the backend back.\<close>

theorem backend_round_trip:
  assumes "wf_backend b" "case backend_host b of Ip (V6 _) \<Rightarrow> False | _ \<Rightarrow> True"
  shows "backend_from_str (backend_display b) = Ok b"
proof (cases "backend_host b")
  case (Ip ip)
  with assms obtain octets where "ip = V4 octets" "length octets = 4" "backend_port b \<noteq> 0"
    by (cases ip) (auto simp: wf_backend_def)
  with backend_round_trip_v4 [of octets "backend_port b"] Ip show ?thesis
    by (cases b) simp
next
  case (Dns name)
  with assms(1) backend_round_trip_dns [of name "backend_port b"] show ?thesis
    by (cases b) (simp add: wf_backend_def)
qed

theorem backend_round_trip_witness:
  "backend_from_str (backend_display \<lparr>backend_host = Ip (V4 [10, 0, 0, 1]), backend_port = 443\<rparr>) =
     Ok \<lparr>backend_host = Ip (V4 [10, 0, 0, 1]), backend_port = 443\<rparr>"
  by (rule backend_round_trip) (simp_all add: wf_backend_def)

definition demo_key :: route_key where
  "demo_key = \<lparr>key_text = ''*.x.y'', key_wildcard = True\<rparr>"

lemma demo_key_valid: "valid_route_key demo_key"
proof -
  have "dns_name ''x.y''" by code_simp
  moreover have "parse_ip_addr ''x.y'' = None" by (rule parse_ip_addr_None) code_simp+
  ultimately show ?thesis by (simp add: demo_key_def valid_route_key_def valid_hostname_def)
qed

text \<open>Parsing a host name succeeds exactly on the names whose ASCII
lowercase is a DNS name that is not an IP literal, and the result is that lowercase form.\<close>

theorem hostname_normal_form:
  "hostname_parse s = Ok h \<longleftrightarrow>
   as_str h = to_ascii_lowercase s \<and> dns_name (as_str h) \<and> parse_ip_addr (as_str h) = None"
  by (cases h) (auto simp: hostname_parse_Ok_iff valid_hostname_def)

text \<open>C40 (route\_key\_normal\_form): a route key parses exactly when its lowercase text is a valid
exact or wildcard key, and the text of a parsed key parses to that key again.\<close>

theorem route_key_normal_form:
  "(route_key_parse s = Ok k \<longleftrightarrow> valid_route_key k \<and> key_text k = to_ascii_lowercase s) \<and>
   (valid_route_key k \<longrightarrow> route_key_parse (key_text k) = Ok k)"
  by (simp add: route_key_parse_Ok_iff route_key_parse_valid)

theorem route_key_normal_form_witness:
  "valid_route_key demo_key \<and> route_key_parse (key_text demo_key) = Ok demo_key \<and>
   route_key_parse ''*.X.y'' = Ok demo_key"
proof -
  have "to_ascii_lowercase ''*.X.y'' = key_text demo_key" by code_simp
  then show ?thesis using route_key_normal_form [of "''*.X.y''" demo_key] demo_key_valid by simp
qed

text \<open>The wildcard candidate of a host name is a valid wildcard key
exactly when that key's suffix is what follows the name's first label: a wildcard stands
for one label, never for none and never for several.\<close>

theorem wildcard_one_label:
  assumes "valid_route_key k" "key_wildcard k"
  shows "route_key_wildcard_for h = Some k \<longleftrightarrow>
    (\<exists>label. CHR ''.'' \<notin> set label \<and> as_str h = label @ tl (key_text k))"
  using route_key_wildcard_for_iff [OF assms] assms(2) by (simp add: key_matches_def)

theorem wildcard_one_label_witness:
  "route_key_wildcard_for (Hostname ''w.x.y'') = Some demo_key"
proof -
  have "key_wildcard demo_key" by (simp add: demo_key_def)
  from wildcard_one_label [OF demo_key_valid this, of "Hostname ''w.x.y''"] show ?thesis
    by (simp add: demo_key_def exI [of _ "''w''"])
qed

end
