(* ===== verification/Routing.thy ===== *)
theory Routing
  imports Names "HOL-Library.AList"
begin

text \<open>
  The lookup contract (\<open>lookup/mod.rs\<close>), the in-memory route table (\<open>lookup/memory.rs\<close>)
  and the routing policy (\<open>routing/mod.rs\<close>): which keys a host name may match, and which
  hit wins. The contract between the router and a route store is the locale
  \<open>route_store\<close>; the policy's theorem is proved once inside it.
\<close>

section \<open>Candidates and hits\<close>

record route_candidates =
  cand_exact :: route_key
  cand_wildcard :: "route_key option"

definition candidates_for_hostname :: "hostname \<Rightarrow> route_candidates" where
  "candidates_for_hostname host =
     \<lparr>cand_exact = route_key_exact host, cand_wildcard = route_key_wildcard_for host\<rparr>"

definition cand_keys :: "route_candidates \<Rightarrow> route_key list" where
  "cand_keys c = cand_exact c # (case cand_wildcard c of None \<Rightarrow> [] | Some k \<Rightarrow> [k])"

definition cand_contains :: "route_candidates \<Rightarrow> route_key \<Rightarrow> bool" where
  "cand_contains c key \<longleftrightarrow> list_ex (\<lambda>candidate. candidate = key) (cand_keys c)"

type_synonym route_hits = "(route_key \<times> backend) list"

definition hits_get :: "route_hits \<Rightarrow> route_key \<Rightarrow> backend option" where
  "hits_get hits key = map_option snd (find (\<lambda>(hit_key, _). hit_key = key) hits)"

text \<open>\<open>RouteHits\<close> keeps the pairs in the order they were pushed.\<close>

definition hits_new :: route_hits where "hits_new = []"

definition hits_push :: "route_hits \<Rightarrow> route_key \<Rightarrow> backend \<Rightarrow> route_hits" where
  "hits_push hits key b = hits @ [(key, b)]"

definition hits_is_empty :: "route_hits \<Rightarrow> bool" where "hits_is_empty hits \<longleftrightarrow> hits = []"

definition hits_len :: "route_hits \<Rightarrow> nat" where "hits_len hits = length hits"

definition hits_from_iter :: "(route_key \<times> backend) list \<Rightarrow> route_hits" where
  "hits_from_iter rows = fold (\<lambda>(key, b) hits. hits_push hits key b) rows hits_new"

lemma hits_fold_push: "fold (\<lambda>(key, b) hits. hits_push hits key b) rows hits = hits @ rows"
  by (induction rows arbitrary: hits) (auto simp: hits_push_def)

lemma hits_from_iter_id [simp]: "hits_from_iter rows = rows"
  by (simp add: hits_from_iter_def hits_fold_push hits_new_def)

lemma hits_get_push:
  "hits_get (hits_push hits key b) k =
     (case hits_get hits k of Some b' \<Rightarrow> Some b' | None \<Rightarrow> if k = key then Some b else None)"
  by (induction hits) (auto simp: hits_get_def hits_push_def)

datatype lookup_error = LookupError string

section \<open>The in-memory table\<close>

text \<open>A \<open>HashMap\<close> is an association list with distinct keys.\<close>

record in_memory_lookup =
  mem_routes :: "(route_key \<times> backend) list"

definition mem_new :: in_memory_lookup where
  "mem_new = \<lparr>mem_routes = []\<rparr>"

definition mem_get :: "in_memory_lookup \<Rightarrow> route_key \<Rightarrow> backend option" where
  "mem_get table key = map_of (mem_routes table) key"

definition mem_insert ::
    "in_memory_lookup \<Rightarrow> route_key \<Rightarrow> backend \<Rightarrow> backend option \<times> in_memory_lookup" where
  "mem_insert table key b =
     (map_of (mem_routes table) key,
      table\<lparr>mem_routes := AList.update key b (mem_routes table)\<rparr>)"

definition mem_len :: "in_memory_lookup \<Rightarrow> nat" where
  "mem_len table = length (mem_routes table)"

definition mem_is_empty :: "in_memory_lookup \<Rightarrow> bool" where
  "mem_is_empty table \<longleftrightarrow> mem_routes table = []"

definition mem_hits :: "in_memory_lookup \<Rightarrow> route_candidates \<Rightarrow> route_hits" where
  "mem_hits table c =
     List.map_filter (\<lambda>key. map_option (\<lambda>b. (key, b)) (map_of (mem_routes table) key))
       (cand_keys c)"

definition mem_from_iter :: "(route_key \<times> backend) list \<Rightarrow> in_memory_lookup" where
  "mem_from_iter rows = fold (\<lambda>(key, b) table. snd (mem_insert table key b)) rows mem_new"

definition mem_wf :: "in_memory_lookup \<Rightarrow> bool" where
  "mem_wf table \<longleftrightarrow> distinct (map fst (mem_routes table))"

section \<open>The routing policy\<close>

record route_match =
  match_key :: route_key
  match_backend :: backend

record selection =
  sel_matched :: "route_match option"
  sel_ignored_hits :: nat

datatype route_error = NotFound | Lookup lookup_error | Timeout

definition candidate_keys :: "hostname \<Rightarrow> route_candidates" where
  "candidate_keys host = candidates_for_hostname host"

text \<open>\<open>Error::source\<close>.\<close>

definition route_error_source :: "route_error \<Rightarrow> lookup_error option" where
  "route_error_source e = (case e of Lookup error \<Rightarrow> Some error | _ \<Rightarrow> None)"

definition select_route :: "route_candidates \<Rightarrow> route_hits \<Rightarrow> selection" where
  "select_route c hits =
     \<lparr>sel_matched =
        (case List.map_filter
                (\<lambda>key. map_option (\<lambda>b. \<lparr>match_key = key, match_backend = b\<rparr>) (hits_get hits key))
                (cand_keys c) of
           [] \<Rightarrow> None
         | m # _ \<Rightarrow> Some m),
      sel_ignored_hits = length (filter (\<lambda>(key, _). \<not> cand_contains c key) hits)\<rparr>"

text \<open>
  \<open>tokio::time::timeout(d, future)\<close>: the future's output, or that the deadline came first.
\<close>

datatype 'a timed = Done 'a | Elapsed

type_synonym load_result = "(route_hits, lookup_error) result"

definition resolve_route ::
    "(route_candidates \<Rightarrow> load_result timed) \<Rightarrow> hostname \<Rightarrow> (route_match, route_error) result" where
  "resolve_route lookup host =
     (let candidates = candidate_keys host
      in case lookup candidates of
           Done (Ok hits) \<Rightarrow> ok_or (sel_matched (select_route candidates hits)) NotFound
         | Done (Err error) \<Rightarrow> Err (Lookup error)
         | Elapsed \<Rightarrow> Err Timeout)"

declare candidate_keys_def [simp]

section \<open>Basic facts\<close>

lemma cand_contains_iff [simp]: "cand_contains c k \<longleftrightarrow> k \<in> set (cand_keys c)"
  by (auto simp: cand_contains_def list_ex_iff)

lemma set_cand_keys:
  "set (cand_keys c) = insert (cand_exact c) (set_option (cand_wildcard c))"
  by (cases "cand_wildcard c") (simp_all add: cand_keys_def)

lemma hits_get_map_of [key_simps]: "hits_get hits = map_of hits"
proof
  fix k show "hits_get hits k = map_of hits k"
    by (induction hits) (auto simp: hits_get_def split: if_splits)
qed

lemma map_filter_first:
  "(case List.map_filter f xs of [] \<Rightarrow> None | m # _ \<Rightarrow> Some m) =
     (case find (\<lambda>x. f x \<noteq> None) xs of None \<Rightarrow> None | Some x \<Rightarrow> f x)"
  by (induction xs) (auto simp: List.map_filter_def split: option.splits)

lemma sel_matched_select_route [key_simps]:
  "sel_matched (select_route c hits) =
     (case map_of hits (cand_exact c) of
        Some b \<Rightarrow> Some \<lparr>match_key = cand_exact c, match_backend = b\<rparr>
      | None \<Rightarrow>
          (case cand_wildcard c of
             None \<Rightarrow> None
           | Some k \<Rightarrow> map_option (\<lambda>b. \<lparr>match_key = k, match_backend = b\<rparr>) (map_of hits k)))"
  by (auto simp: select_route_def cand_keys_def hits_get_map_of List.map_filter_def
      split: option.splits)

lemma map_of_map_filter_keys:
  "map_of (List.map_filter (\<lambda>key. map_option (Pair key) (f key)) keys) k =
     (if k \<in> set keys then f k else None)"
  by (induction keys) (auto simp: List.map_filter_def split: option.splits)

lemma map_of_mem_hits [key_simps]:
  "map_of (mem_hits table c) k = (if k \<in> set (cand_keys c) then mem_get table k else None)"
  by (simp add: mem_hits_def mem_get_def map_of_map_filter_keys)

lemma mem_hits_candidates: "(k, b) \<in> set (mem_hits table c) \<Longrightarrow> k \<in> set (cand_keys c)"
  by (auto simp: mem_hits_def List.map_filter_def)

lemma mem_get_new [simp]: "mem_get mem_new k = None"
  by (simp add: mem_get_def mem_new_def)

lemma mem_get_insert [simp]:
  "mem_get (snd (mem_insert table key b)) k = (if k = key then Some b else mem_get table k)"
  by (auto simp: mem_get_def mem_insert_def update_conv)

lemma mem_wf_new [simp]: "mem_wf mem_new"
  by (simp add: mem_wf_def mem_new_def)

lemma mem_wf_insert: "mem_wf table \<Longrightarrow> mem_wf (snd (mem_insert table key b))"
  by (simp add: mem_wf_def mem_insert_def distinct_update)

lemma mem_len_wf: "mem_wf table \<Longrightarrow> mem_len table = card (dom (mem_get table))"
proof -
  assume "mem_wf table"
  then have "card (set (map fst (mem_routes table))) = length (mem_routes table)"
    unfolding mem_wf_def by (metis distinct_card length_map)
  then show ?thesis
    by (simp add: mem_len_def mem_get_def [abs_def] dom_map_of_conv_image_fst)
qed

lemma mem_get_fold:
  "mem_get (fold (\<lambda>(key, b) table. snd (mem_insert table key b)) rows t) k =
     (case map_of (rev rows) k of None \<Rightarrow> mem_get t k | Some b \<Rightarrow> Some b)"
  by (induction rows arbitrary: t)
    (auto simp: map_add_Some_iff map_add_def split: option.splits)

lemma mem_get_from_iter: "mem_get (mem_from_iter rows) k = map_of (rev rows) k"
  by (simp add: mem_from_iter_def mem_get_fold split: option.splits)

section \<open>The contract of a route store\<close>

text \<open>
  A store answers with every stored route whose key is literally a candidate, and with
  nothing else: \<open>stored\<close> is the table it stands for. What the router does with such a
  store depends on \<open>stored\<close> alone.
\<close>

locale route_store =
  fixes answer :: "'s \<Rightarrow> route_candidates \<Rightarrow> route_hits"
    and stored :: "'s \<Rightarrow> route_key \<Rightarrow> backend option"
  assumes answer_literal:
      "k \<in> set (cand_keys c) \<Longrightarrow> map_of (answer s c) k = stored s k"
    and answer_only_candidates: "(k, b) \<in> set (answer s c) \<Longrightarrow> k \<in> set (cand_keys c)"
begin

lemma no_ignored_hits: "sel_ignored_hits (select_route c (answer s c)) = 0"
  by (auto simp: select_route_def filter_empty_conv dest: answer_only_candidates)

lemma exact_first:
  "stored s (route_key_exact h) = Some b \<Longrightarrow>
   resolve_route (\<lambda>c. Done (Ok (answer s c))) h =
     Ok \<lparr>match_key = route_key_exact h, match_backend = b\<rparr>"
  using answer_literal [of "route_key_exact h" "candidates_for_hostname h" s]
  by (simp add: resolve_route_def key_simps candidates_for_hostname_def set_cand_keys)

lemma wildcard_second:
  assumes "stored s (route_key_exact h) = None"
  shows "resolve_route (\<lambda>c. Done (Ok (answer s c))) h =
     (case route_key_wildcard_for h of
        None \<Rightarrow> Err NotFound
      | Some k \<Rightarrow>
          (case stored s k of
             None \<Rightarrow> Err NotFound
           | Some b \<Rightarrow> Ok \<lparr>match_key = k, match_backend = b\<rparr>))"
proof -
  have "map_of (answer s (candidates_for_hostname h)) k = stored s k"
    if "k = route_key_exact h \<or> route_key_wildcard_for h = Some k" for k
    using that answer_literal [of k "candidates_for_hostname h" s]
    by (auto simp: candidates_for_hostname_def set_cand_keys)
  with assms show ?thesis
    by (auto simp: resolve_route_def key_simps candidates_for_hostname_def split: option.splits)
qed

text \<open>
  A match is always a stored route whose key covers the name, and one is found exactly
  when such a route exists; an exact route wins over a wildcard.
\<close>

lemma resolve_sound:
  assumes keys: "\<And>k b. stored s k = Some b \<Longrightarrow> valid_route_key k"
    and found: "resolve_route (\<lambda>c. Done (Ok (answer s c))) h = Ok m"
  shows "stored s (match_key m) = Some (match_backend m) \<and> key_matches (match_key m) h"
proof (cases "stored s (route_key_exact h)")
  case None
  with found obtain k b where k: "route_key_wildcard_for h = Some k" "stored s k = Some b"
    and m: "m = \<lparr>match_key = k, match_backend = b\<rparr>"
    by (auto simp: wildcard_second split: option.splits)
  moreover have "key_matches k h"
    using k keys [of k b] route_key_wildcard_for_iff [of k h] route_key_wildcard_for_wildcard
    by blast
  ultimately show ?thesis by simp
next
  case (Some b)
  with found have "m = \<lparr>match_key = route_key_exact h, match_backend = b\<rparr>"
    by (simp add: exact_first)
  with Some show ?thesis by (simp add: key_matches_def route_key_exact_def)
qed

lemma resolve_complete:
  assumes keys: "\<And>k b. stored s k = Some b \<Longrightarrow> valid_route_key k"
    and route: "stored s k = Some b" "key_matches k h"
  shows "is_ok (resolve_route (\<lambda>c. Done (Ok (answer s c))) h)"
proof (cases "stored s (route_key_exact h)")
  case None
  have "key_wildcard k"
  proof (rule ccontr)
    assume "\<not> key_wildcard k"
    with route have "k = route_key_exact h"
      by (cases k) (simp add: key_matches_def route_key_exact_def)
    with None route show False by simp
  qed
  with route keys have "route_key_wildcard_for h = Some k"
    using route_key_wildcard_for_iff by blast
  with None route show ?thesis by (simp add: wildcard_second)
qed (simp add: exact_first)

end

interpretation mem: route_store mem_hits mem_get
proof
  fix k c s
  assume "k \<in> set (cand_keys c)"
  then show "map_of (mem_hits s c) k = mem_get s k" by (simp add: key_simps)
next
  fix k b s c
  assume "(k, b) \<in> set (mem_hits s c)"
  then show "k \<in> set (cand_keys c)" by (rule mem_hits_candidates)
qed

section \<open>Properties\<close>

text \<open>Among valid keys, the candidates of a host name are exactly the keys
that cover it.\<close>

lemma route_keys_cover:
  assumes "valid_route_key k"
  shows "k \<in> set (cand_keys (candidates_for_hostname h)) \<longleftrightarrow> key_matches k h"
proof (cases "key_wildcard k")
  case True
  then have "k \<noteq> route_key_exact h" by (auto simp: route_key_exact_def)
  with route_key_wildcard_for_iff [OF assms True, of h] show ?thesis
    by (auto simp: set_cand_keys candidates_for_hostname_def)
next
  case False
  then have "route_key_wildcard_for h \<noteq> Some k" using route_key_wildcard_for_wildcard by blast
  with False show ?thesis
    by (cases k) (auto simp: set_cand_keys candidates_for_hostname_def key_matches_def
        route_key_exact_def)
qed

definition mem_keys_valid :: "in_memory_lookup \<Rightarrow> bool" where
  "mem_keys_valid table \<longleftrightarrow> list_all (\<lambda>(key, _). valid_route_key key) (mem_routes table)"

lemma mem_keys_validD: "mem_keys_valid table \<Longrightarrow> mem_get table k = Some b \<Longrightarrow> valid_route_key k"
  by (auto simp: mem_keys_valid_def mem_get_def list_all_iff dest: map_of_SomeD)

text \<open>Over a table of valid keys, routing a host name yields a
stored route whose key covers the name, and it yields one whenever some stored key
covers the name.\<close>

theorem routing_sound_complete:
  assumes "mem_keys_valid table"
  shows "case resolve_route (\<lambda>c. Done (Ok (mem_hits table c))) h of
      Ok m \<Rightarrow> mem_get table (match_key m) = Some (match_backend m) \<and> key_matches (match_key m) h
    | Err e \<Rightarrow> e = NotFound \<and> \<not> (\<exists>k b. mem_get table k = Some b \<and> key_matches k h)"
proof (cases "resolve_route (\<lambda>c. Done (Ok (mem_hits table c))) h")
  case (Ok m)
  with mem.resolve_sound [OF mem_keys_validD [OF assms] Ok] show ?thesis by simp
next
  case (Err e)
  moreover have "e = NotFound"
    using Err
    by (cases "sel_matched (select_route (candidates_for_hostname h)
          (mem_hits table (candidates_for_hostname h)))")
      (simp_all add: resolve_route_def Let_def)
  moreover have "\<not> (\<exists>k b. mem_get table k = Some b \<and> key_matches k h)"
    using mem.resolve_complete [OF mem_keys_validD [OF assms]] Err by fastforce
  ultimately show ?thesis by simp
qed

definition demo_backend :: backend where
  "demo_backend = \<lparr>backend_host = Dns ''b'', backend_port = 443\<rparr>"

definition demo_table :: in_memory_lookup where
  "demo_table = mem_from_iter
     [(demo_key, demo_backend)]"

lemma demo_table_get:
  "mem_get demo_table k =
     (if k = demo_key then Some demo_backend else None)"
  by (simp add: demo_table_def mem_get_from_iter)

theorem routing_sound_complete_witness:
  "is_ok (resolve_route (\<lambda>c. Done (Ok (mem_hits demo_table c))) (Hostname ''w.x.y''))"
proof -
  have "mem_keys_valid demo_table"
    using demo_key_valid
    by (simp add: mem_keys_valid_def demo_table_def mem_from_iter_def mem_insert_def mem_new_def)
  note r = routing_sound_complete [OF this, of "Hostname ''w.x.y''"]
  have "key_matches demo_key (Hostname ''w.x.y'')"
    by (simp add: key_matches_def demo_key_def exI [of _ "''w''"])
  then have ex: "\<exists>k b. mem_get demo_table k = Some b \<and> key_matches k (Hostname ''w.x.y'')"
    by (auto simp: demo_table_get)
  show ?thesis
  proof (cases "resolve_route (\<lambda>c. Done (Ok (mem_hits demo_table c))) (Hostname ''w.x.y'')")
    case (Err e)
    with r have "\<not> (\<exists>k b. mem_get demo_table k = Some b \<and> key_matches k (Hostname ''w.x.y''))"
      by simp
    with ex show ?thesis by blast
  qed simp
qed

text \<open>A stored exact route always wins, and a wildcard route answers
only for names with no exact route.\<close>

theorem exact_beats_wildcard:
  "resolve_route (\<lambda>c. Done (Ok (mem_hits table c))) h =
     (case mem_get table (route_key_exact h) of
        Some b \<Rightarrow> Ok \<lparr>match_key = route_key_exact h, match_backend = b\<rparr>
      | None \<Rightarrow>
          (case Option.bind (route_key_wildcard_for h)
                  (\<lambda>k. map_option (\<lambda>b. \<lparr>match_key = k, match_backend = b\<rparr>) (mem_get table k)) of
             None \<Rightarrow> Err NotFound
           | Some m \<Rightarrow> Ok m))"
  by (auto simp: mem.exact_first mem.wildcard_second split: option.splits)

text \<open>Whatever a lookup returns, a route is only ever taken from a hit
on one of the name's own candidates; a failed or late lookup never yields a route.\<close>

theorem route_from_any_store:
  assumes "resolve_route lookup h = Ok m"
  shows "\<exists>hits. lookup (candidates_for_hostname h) = Done (Ok hits) \<and>
    (match_key m, match_backend m) \<in> set hits \<and>
    match_key m \<in> set (cand_keys (candidates_for_hostname h))"
  using assms
  by (auto simp: resolve_route_def sel_matched_select_route set_cand_keys Let_def
      dest: map_of_SomeD split: timed.splits result.splits option.splits if_splits)

theorem route_from_any_store_witness:
  "\<exists>hits. mem_hits demo_table (candidates_for_hostname (Hostname ''w.x.y'')) = hits \<and> hits \<noteq> []"
proof -
  have w: "route_key_wildcard_for (Hostname ''w.x.y'') =
      Some demo_key" by code_simp
  have "resolve_route (\<lambda>c. Done (Ok (mem_hits demo_table c))) (Hostname ''w.x.y'') =
      Ok \<lparr>match_key = demo_key, match_backend = demo_backend\<rparr>"
    by (simp add: mem.wildcard_second demo_table_get w route_key_exact_def demo_key_def)
  from route_from_any_store [OF this] show ?thesis by auto
qed

end
