(* ===== verification/Dns_Resolver.thy ===== *)
theory Dns_Resolver
  imports Names "HOL-Library.AList" "HOL-Library.Multiset"
begin

text \<open>
  Backend DNS resolution (\<open>delivery/resolver.rs\<close>): the cache of answers, one lookup per name
  and port at a time, and the permits that bound the blocking calls. Instants are
  nanoseconds; the largest representable instant is a parameter. The system resolver is
  not part of the sources: its answer is an argument of the step that delivers it.
\<close>

section \<open>Data\<close>

type_synonym socket_addr = "ip_addr \<times> u16"

text \<open>\<open>Display for SocketAddr\<close>.\<close>

definition show_socket_addr :: "socket_addr \<Rightarrow> string" where
  "show_socket_addr addr =
     (case addr of
        (V4 ip, port) \<Rightarrow> show_ipv4 ip @ '':'' @ show_u16 port
      | (V6 ip, port) \<Rightarrow> ''['' @ show_ipv6 ip @ '']:'' @ show_u16 port)"

datatype io_kind =
    IoNotFound | IoOther | IoInterrupted | IoWouldBlock | IoNotConnected | IoWriteZero | IoKind nat

record io_error =
  io_kind :: io_kind
  io_message :: string

type_synonym dns_key = "string \<times> u16"

type_synonym dns_outcome = "(socket_addr list, io_error) result"

record dns_entry =
  dns_addrs :: "socket_addr list option"
  dns_fresh_until :: nat
  dns_stale_until :: nat

definition NANOS :: nat where "NANOS = 1000000000"

definition DNS_NEGATIVE_TTL :: nat where "DNS_NEGATIVE_TTL = 1 * NANOS"

definition DNS_STALE_IF_ERROR :: nat where "DNS_STALE_IF_ERROR = 60 * NANOS"

definition PRUNE_THRESHOLD :: nat where "PRUNE_THRESHOLD = 4096"

record dns_config =
  dns_instant_max :: nat
  dns_ttl :: nat
  dns_max_concurrent :: nat

definition dns_later :: "dns_config \<Rightarrow> nat \<Rightarrow> nat \<Rightarrow> nat" where
  "dns_later cfg t d =
     (if t + d \<le> dns_instant_max cfg then t + d else t + 100 * 365 * 24 * 3600 * NANOS)"

section \<open>The cache\<close>

type_synonym dns_cache = "(dns_key \<times> dns_entry) list"

definition dns_fresh :: "nat \<Rightarrow> dns_cache \<Rightarrow> dns_key \<Rightarrow> dns_outcome option" where
  "dns_fresh now cache key =
     (case map_of cache key of
        None \<Rightarrow> None
      | Some entry \<Rightarrow>
          if now < dns_fresh_until entry
          then Some (ok_or (dns_addrs entry)
                 \<lparr>io_kind = IoNotFound, io_message = ''recent resolution of '' @ fst key @ '' failed''\<rparr>)
          else None)"

definition dns_prune :: "nat \<Rightarrow> dns_cache \<Rightarrow> dns_cache" where
  "dns_prune now cache =
     (if length cache \<ge> PRUNE_THRESHOLD
      then filter (\<lambda>(_, e). now < max (dns_stale_until e) (dns_fresh_until e)) cache
      else cache)"

definition dns_error :: "string \<Rightarrow> dns_outcome \<Rightarrow> io_error" where
  "dns_error name failed =
     (case failed of
        Err e \<Rightarrow> \<lparr>io_kind = io_kind e, io_message = ''resolving '' @ name @ '': '' @ io_message e\<rparr>
      | Ok _ \<Rightarrow> \<lparr>io_kind = IoNotFound, io_message = name @ '' resolved to no addresses''\<rparr>)"

definition dns_store ::
    "dns_config \<Rightarrow> nat \<Rightarrow> dns_cache \<Rightarrow> dns_key \<Rightarrow> dns_outcome \<Rightarrow> dns_outcome \<times> dns_cache" where
  "dns_store cfg now cache0 key res =
     (let cache = dns_prune now cache0
      in case (case res of Ok addrs \<Rightarrow> if addrs = [] then None else Some addrs | Err _ \<Rightarrow> None) of
           Some addrs \<Rightarrow>
             (let fresh_until = dns_later cfg now (dns_ttl cfg)
              in (Ok addrs,
                  AList.update key \<lparr>dns_addrs = Some addrs, dns_fresh_until = fresh_until,
                    dns_stale_until = dns_later cfg fresh_until DNS_STALE_IF_ERROR\<rparr> cache))
         | None \<Rightarrow>
             (let entry0 = (case map_of cache key of
                              Some e \<Rightarrow> e
                            | None \<Rightarrow> \<lparr>dns_addrs = None, dns_fresh_until = now, dns_stale_until = now\<rparr>);
                  entry = entry0\<lparr>dns_fresh_until := dns_later cfg now DNS_NEGATIVE_TTL\<rparr>
              in case dns_addrs entry of
                   Some addrs \<Rightarrow>
                     if now < dns_stale_until entry then (Ok addrs, AList.update key entry cache)
                     else (Err (dns_error (fst key) res), AList.update key (entry\<lparr>dns_addrs := None\<rparr>) cache)
                 | None \<Rightarrow>
                     (Err (dns_error (fst key) res), AList.update key (entry\<lparr>dns_addrs := None\<rparr>) cache)))"

text \<open>The rotation counter is a \<open>usize\<close> that wraps.\<close>

definition dns_rotated :: "64 word \<Rightarrow> socket_addr list \<Rightarrow> socket_addr list \<times> 64 word" where
  "dns_rotated rotation addrs =
     (let start = unat rotation mod max (length addrs) 1
      in (drop start addrs @ take start addrs, rotation + 1))"

section \<open>Resolving\<close>

text \<open>
  A lookup is waiting for a permit, blocking in the system resolver with a permit, or holds
  an answer it has not stored yet; \<open>dns_inflight\<close> is the map of shared receivers.
\<close>

record dns_sys =
  dns_cache :: dns_cache
  dns_inflight :: "dns_key list"
  dns_queued :: "dns_key list"
  dns_blocking :: "dns_key list"
  dns_storing :: "(dns_key \<times> dns_outcome) list"
  dns_answers :: "(dns_key \<times> dns_outcome) list"
  dns_rotation :: "64 word"
  dns_clock :: nat

definition dns_init :: dns_sys where
  "dns_init = \<lparr>dns_cache = [], dns_inflight = [], dns_queued = [], dns_blocking = [], dns_storing = [],
     dns_answers = [], dns_rotation = 0, dns_clock = 0\<rparr>"

definition dns_permits :: "dns_config \<Rightarrow> nat" where
  "dns_permits cfg = max (dns_max_concurrent cfg) 1"

datatype dns_step_result = DnsAnswer "(socket_addr list, io_error) result" | DnsWait

definition resolve_begin :: "dns_key \<Rightarrow> dns_sys \<Rightarrow> dns_step_result \<times> dns_sys" where
  "resolve_begin key s =
     (case dns_fresh (dns_clock s) (dns_cache s) key of
        Some (Ok addrs) \<Rightarrow>
          (let (r, rotation) = dns_rotated (dns_rotation s) addrs
           in (DnsAnswer (Ok r), s\<lparr>dns_rotation := rotation\<rparr>))
      | Some (Err e) \<Rightarrow> (DnsAnswer (Err e), s)
      | None \<Rightarrow>
          if key \<in> set (dns_inflight s) then (DnsWait, s)
          else (DnsWait, s\<lparr>dns_inflight := key # dns_inflight s, dns_queued := key # dns_queued s\<rparr>))"

text \<open>A waiter that got its outcome from the channel; \<^term>\<open>None\<close> is a dropped sender.\<close>

definition resolve_end :: "dns_outcome option \<Rightarrow> 64 word \<Rightarrow> dns_outcome \<times> 64 word" where
  "resolve_end sent rotation =
     (case sent of
        Some (Ok addrs) \<Rightarrow> (let (r, rot) = dns_rotated rotation addrs in (Ok r, rot))
      | Some (Err e) \<Rightarrow> (Err e, rotation)
      | None \<Rightarrow> (Err \<lparr>io_kind = IoOther, io_message = ''resolver lookup ended without a result''\<rparr>, rotation))"

inductive dns_step :: "dns_config \<Rightarrow> dns_sys \<Rightarrow> dns_sys \<Rightarrow> bool" for cfg :: dns_config where
  resolve: "resolve_begin key s = (r, s') \<Longrightarrow> dns_step cfg s s'"
| acquire:
    "key \<in> set (dns_queued s) \<Longrightarrow> length (dns_blocking s) < dns_permits cfg \<Longrightarrow>
     dns_step cfg s (s\<lparr>dns_queued := remove1 key (dns_queued s), dns_blocking := key # dns_blocking s\<rparr>)"
| answer:
    "key \<in> set (dns_blocking s) \<Longrightarrow>
     dns_step cfg s (s\<lparr>dns_blocking := remove1 key (dns_blocking s),
       dns_storing := (key, res) # dns_storing s\<rparr>)"
| store:
    "(key, res) \<in> set (dns_storing s) \<Longrightarrow>
     dns_store cfg (dns_clock s) (dns_cache s) key res = (out, cache) \<Longrightarrow>
     dns_step cfg s (s\<lparr>dns_storing := remove1 (key, res) (dns_storing s), dns_cache := cache,
       dns_inflight := removeAll key (dns_inflight s), dns_answers := (key, out) # dns_answers s\<rparr>)"
| tick: "dns_step cfg s (s\<lparr>dns_clock := dns_clock s + d\<rparr>)"

abbreviation dns_reachable :: "dns_config \<Rightarrow> dns_sys \<Rightarrow> bool" where
  "dns_reachable cfg \<equiv> (dns_step cfg)\<^sup>*\<^sup>* dns_init"

section \<open>Rotation\<close>

lemma dns_rotated_rotate: "fst (dns_rotated r addrs) = rotate (unat r) addrs"
  by (cases addrs) (simp_all add: dns_rotated_def rotate_drop_take Let_def)

lemma hd_rotate: "xs \<noteq> [] \<Longrightarrow> hd (rotate n xs) = xs ! (n mod length xs)"
proof -
  assume "xs \<noteq> []"
  then have "n mod length xs < length xs" by simp
  then show ?thesis by (simp add: rotate_drop_take hd_append hd_drop_conv_nth)
qed

section \<open>The invariant\<close>

definition dns_entry_ok :: "dns_entry \<Rightarrow> bool" where
  "dns_entry_ok e \<longleftrightarrow>
     (case dns_addrs e of
        None \<Rightarrow> True
      | Some addrs \<Rightarrow> addrs \<noteq> [] \<and> dns_fresh_until e \<le> dns_stale_until e + DNS_NEGATIVE_TTL)"

definition dns_cache_ok :: "dns_cache \<Rightarrow> bool" where
  "dns_cache_ok cache \<longleftrightarrow> (\<forall>x \<in> set cache. dns_entry_ok (snd x))"

definition dns_lookups :: "dns_sys \<Rightarrow> dns_key list" where
  "dns_lookups s = dns_queued s @ dns_blocking s @ map fst (dns_storing s)"

definition dns_flight_ok :: "dns_config \<Rightarrow> dns_sys \<Rightarrow> bool" where
  "dns_flight_ok cfg s \<longleftrightarrow>
     distinct (dns_lookups s) \<and> set (dns_inflight s) = set (dns_lookups s) \<and>
     length (dns_blocking s) \<le> dns_permits cfg"

lemma dns_later_ge: "t \<le> dns_later cfg t d"
  by (simp add: dns_later_def)

lemma dns_cache_ok_update:
  assumes "dns_cache_ok cache" "dns_entry_ok e"
  shows "dns_cache_ok (AList.update key e cache)"
  using assms by (induction cache) (auto simp: dns_cache_ok_def)

lemma dns_cache_ok_prune: "dns_cache_ok cache \<Longrightarrow> dns_cache_ok (dns_prune now cache)"
  by (simp add: dns_prune_def dns_cache_ok_def)

lemma dns_cache_okD: "dns_cache_ok cache \<Longrightarrow> map_of cache key = Some e \<Longrightarrow> dns_entry_ok e"
  by (auto simp: dns_cache_ok_def dest!: map_of_SomeD)

lemma dns_store_ok:
  assumes ok: "dns_cache_ok cache" and now: "now + DNS_NEGATIVE_TTL \<le> dns_instant_max cfg"
    and st: "dns_store cfg now cache key res = (out, cache')"
  shows "dns_cache_ok cache' \<and> (\<forall>addrs. out = Ok addrs \<longrightarrow> addrs \<noteq> [])"
proof -
  let ?c = "dns_prune now cache"
  have okc: "dns_cache_ok ?c" by (rule dns_cache_ok_prune [OF ok])
  have neg: "dns_later cfg now DNS_NEGATIVE_TTL = now + DNS_NEGATIVE_TTL"
    using now by (simp add: dns_later_def)
  show ?thesis
  proof (cases "\<exists>addrs. res = Ok addrs \<and> addrs \<noteq> []")
    case True
    then obtain addrs where res: "res = Ok addrs" "addrs \<noteq> []" by blast
    have "dns_entry_ok \<lparr>dns_addrs = Some addrs, dns_fresh_until = dns_later cfg now (dns_ttl cfg),
        dns_stale_until = dns_later cfg (dns_later cfg now (dns_ttl cfg)) DNS_STALE_IF_ERROR\<rparr>"
      using res dns_later_ge [of "dns_later cfg now (dns_ttl cfg)" cfg DNS_STALE_IF_ERROR]
      by (simp add: dns_entry_ok_def)
    from dns_cache_ok_update [OF okc this, of key] st res show ?thesis
      by (auto simp: dns_store_def Let_def)
  next
    case False
    then have sel: "(case res of Ok addrs \<Rightarrow> if addrs = [] then None else Some addrs | Err _ \<Rightarrow> None) = None"
      by (auto split: result.splits)
    let ?old = "case map_of ?c key of Some e \<Rightarrow> e
      | None \<Rightarrow> \<lparr>dns_addrs = None, dns_fresh_until = now, dns_stale_until = now\<rparr>"
    let ?new = "?old\<lparr>dns_fresh_until := now + DNS_NEGATIVE_TTL\<rparr>"
    have e0: "dns_entry_ok ?old"
      using dns_cache_okD [OF okc, of key]
      by (cases "map_of ?c key") (simp_all add: dns_entry_ok_def)
    show ?thesis
    proof (cases "dns_addrs ?old \<noteq> None \<and> now < dns_stale_until ?old")
      case True
      then obtain addrs where addrs: "dns_addrs ?old = Some addrs" "now < dns_stale_until ?old" by blast
      with e0 have "dns_entry_ok ?new" "addrs \<noteq> []" by (simp_all add: dns_entry_ok_def)
      with st addrs dns_cache_ok_update [OF okc, of ?new key] show ?thesis
        by (auto simp: dns_store_def sel neg Let_def)
    next
      case False
      have "dns_entry_ok (?new\<lparr>dns_addrs := None\<rparr>)" by (simp add: dns_entry_ok_def)
      from dns_cache_ok_update [OF okc this, of key] st False show ?thesis
        by (cases "dns_addrs ?old") (auto simp: dns_store_def sel neg Let_def)
    qed
  qed
qed

lemma resolve_begin_cases:
  assumes "resolve_begin key s = (r, s')"
  shows "(\<exists>n. s' = s\<lparr>dns_rotation := n\<rparr>) \<or>
    (key \<notin> set (dns_inflight s) \<and>
     s' = s\<lparr>dns_inflight := key # dns_inflight s, dns_queued := key # dns_queued s\<rparr>)"
proof -
  have "\<exists>n. s = s\<lparr>dns_rotation := n\<rparr>" by (rule exI [of _ "dns_rotation s"]) simp
  with assms show ?thesis
    by (auto simp: resolve_begin_def Let_def split: option.splits result.splits if_splits prod.splits)
qed

lemma flight_same_lookups:
  assumes "dns_flight_ok cfg s" "mset (dns_lookups s') = mset (dns_lookups s)"
    "dns_inflight s' = dns_inflight s" "length (dns_blocking s') \<le> dns_permits cfg"
  shows "dns_flight_ok cfg s'"
  using assms mset_eq_imp_distinct_iff [OF assms(2)] mset_eq_setD [OF assms(2)]
  by (simp add: dns_flight_ok_def)

lemma dns_step_flight:
  assumes "dns_step cfg s s'" and ok: "dns_flight_ok cfg s"
  shows "dns_flight_ok cfg s'"
  using assms(1)
proof cases
  case (resolve key r)
  from resolve_begin_cases [OF this] show ?thesis
  proof
    assume "\<exists>n. s' = s\<lparr>dns_rotation := n\<rparr>"
    then obtain n where "s' = s\<lparr>dns_rotation := n\<rparr>" by blast
    with ok show ?thesis by (simp add: dns_flight_ok_def dns_lookups_def)
  next
    assume new: "key \<notin> set (dns_inflight s) \<and>
      s' = s\<lparr>dns_inflight := key # dns_inflight s, dns_queued := key # dns_queued s\<rparr>"
    then have "dns_lookups s' = key # dns_lookups s" by (simp add: dns_lookups_def)
    with ok new show ?thesis by (simp add: dns_flight_ok_def)
  qed
next
  case (acquire key)
  then have "mset (dns_lookups s') = mset (dns_lookups s)" by (simp add: dns_lookups_def)
  with acquire show ?thesis by (intro flight_same_lookups [OF ok]) simp_all
next
  case (answer key res)
  then have "mset (dns_lookups s') = mset (dns_lookups s)" by (simp add: dns_lookups_def)
  moreover have "length (dns_blocking s') \<le> length (dns_blocking s)"
    using answer by (simp add: length_remove1)
  ultimately show ?thesis using answer ok by (intro flight_same_lookups [OF ok]) (auto simp: dns_flight_ok_def)
next
  case (store key res out cache)
  have "key \<in># image_mset fst (mset (dns_storing s))" using store(2) by force
  then have "mset (dns_lookups s) = mset (key # dns_lookups s')"
    using store by (simp add: dns_lookups_def image_mset_Diff)
  from mset_eq_imp_distinct_iff [OF this] mset_eq_setD [OF this] store ok show ?thesis
    by (auto simp: dns_flight_ok_def)
next
  case (tick d)
  with ok show ?thesis by (simp add: dns_flight_ok_def dns_lookups_def)
qed

lemma dns_flight_init: "dns_flight_ok cfg dns_init"
  by (simp add: dns_flight_ok_def dns_init_def dns_lookups_def)

lemma dns_flight_reachable: "dns_reachable cfg s \<Longrightarrow> dns_flight_ok cfg s"
  by (induction rule: rtranclp_induct) (auto intro: dns_flight_init dns_step_flight)

text \<open>The clock never goes back, so a representable final instant means representable earlier ones.\<close>

lemma dns_step_clock: "dns_step cfg s s' \<Longrightarrow> dns_clock s \<le> dns_clock s'"
  by (cases rule: dns_step.cases) (auto dest: resolve_begin_cases)

definition dns_data_ok :: "dns_sys \<Rightarrow> bool" where
  "dns_data_ok s \<longleftrightarrow>
     dns_cache_ok (dns_cache s) \<and> (\<forall>x \<in> set (dns_answers s). \<forall>addrs. snd x = Ok addrs \<longrightarrow> addrs \<noteq> [])"

lemma dns_step_data:
  assumes "dns_step cfg s s'" "dns_data_ok s" "dns_clock s + DNS_NEGATIVE_TTL \<le> dns_instant_max cfg"
  shows "dns_data_ok s'"
  using assms(1)
proof cases
  case (resolve key r)
  from resolve_begin_cases [OF this] assms(2) show ?thesis by (auto simp: dns_data_ok_def)
next
  case (store key res out cache)
  from dns_store_ok [OF _ assms(3) store(3)] assms(2) store(1) show ?thesis
    by (auto simp: dns_data_ok_def)
qed (use assms(2) in \<open>auto simp: dns_data_ok_def\<close>)

lemma dns_data_reachable:
  "dns_reachable cfg s \<Longrightarrow> dns_clock s + DNS_NEGATIVE_TTL \<le> dns_instant_max cfg \<Longrightarrow> dns_data_ok s"
proof (induction rule: rtranclp_induct)
  case base
  show ?case by (simp add: dns_data_ok_def dns_init_def dns_cache_ok_def)
next
  case (step s s')
  with dns_step_clock [OF step(2)] dns_step_data [OF step(2)] show ?case by simp
qed

section \<open>A running example\<close>

definition demo_dns_cfg :: dns_config where
  "demo_dns_cfg = \<lparr>dns_instant_max = 2 ^ 62, dns_ttl = 30 * NANOS, dns_max_concurrent = 2\<rparr>"

definition demo_dns_key :: dns_key where "demo_dns_key = (''b'', 443)"

definition demo_addrs :: "socket_addr list" where
  "demo_addrs = [(V4 [10, 0, 0, 1], 443), (V4 [10, 0, 0, 2], 443)]"

lemma demo_dns_started:
  "dns_reachable demo_dns_cfg
     (dns_init\<lparr>dns_inflight := [demo_dns_key], dns_queued := [demo_dns_key]\<rparr>)"
proof (rule r_into_rtranclp)
  have "resolve_begin demo_dns_key dns_init =
      (DnsWait, dns_init\<lparr>dns_inflight := [demo_dns_key], dns_queued := [demo_dns_key]\<rparr>)"
    by (simp add: resolve_begin_def dns_fresh_def dns_init_def)
  then show "dns_step demo_dns_cfg dns_init
      (dns_init\<lparr>dns_inflight := [demo_dns_key], dns_queued := [demo_dns_key]\<rparr>)"
    by (rule dns_step.resolve)
qed

definition demo_dns_entry :: dns_entry where
  "demo_dns_entry = \<lparr>dns_addrs = Some demo_addrs, dns_fresh_until = 30 * NANOS, dns_stale_until = 90 * NANOS\<rparr>"

lemma demo_dns_stored:
  "\<exists>s. dns_reachable demo_dns_cfg s \<and> dns_clock s = 0 \<and> dns_inflight s = [] \<and> dns_storing s = [] \<and>
     dns_blocking s = [] \<and> dns_queued s = [] \<and> dns_cache s = [(demo_dns_key, demo_dns_entry)]"
proof -
  let ?s1 = "dns_init\<lparr>dns_inflight := [demo_dns_key], dns_queued := [demo_dns_key]\<rparr>"
  let ?s2 = "dns_init\<lparr>dns_inflight := [demo_dns_key], dns_blocking := [demo_dns_key]\<rparr>"
  let ?s3 = "dns_init\<lparr>dns_inflight := [demo_dns_key], dns_storing := [(demo_dns_key, Ok demo_addrs)]\<rparr>"
  let ?s4 = "dns_init\<lparr>dns_cache := [(demo_dns_key, demo_dns_entry)],
    dns_answers := [(demo_dns_key, Ok demo_addrs)]\<rparr>"
  have "dns_step demo_dns_cfg ?s1 ?s2"
    using dns_step.acquire [of demo_dns_key ?s1 demo_dns_cfg]
    by (simp add: dns_init_def demo_dns_cfg_def dns_permits_def)
  moreover have "dns_step demo_dns_cfg ?s2 ?s3"
    using dns_step.answer [of demo_dns_key ?s2 demo_dns_cfg "Ok demo_addrs"] by (simp add: dns_init_def)
  moreover have "dns_step demo_dns_cfg ?s3 ?s4"
  proof -
    have "dns_store demo_dns_cfg (dns_clock ?s3) (dns_cache ?s3) demo_dns_key (Ok demo_addrs) =
        (Ok demo_addrs, [(demo_dns_key, demo_dns_entry)])"
      by (simp add: dns_store_def dns_prune_def PRUNE_THRESHOLD_def dns_later_def demo_dns_cfg_def
          dns_init_def demo_addrs_def demo_dns_entry_def DNS_STALE_IF_ERROR_def NANOS_def)
    from dns_step.store [OF _ this] show ?thesis by (simp add: dns_init_def)
  qed
  ultimately have "dns_reachable demo_dns_cfg ?s4"
    using demo_dns_started by (meson rtranclp.rtrancl_into_rtrancl)
  then show ?thesis by (intro exI [of _ ?s4]) (simp add: dns_init_def)
qed

text \<open>
  The answer goes stale at 90 seconds; a re-resolution that fails 0.1 seconds earlier keeps it
  for another second.
\<close>

lemma dns_overrun:
  "\<exists>(s :: dns_sys) e. dns_reachable demo_dns_cfg s \<and> map_of (dns_cache s) demo_dns_key = Some e \<and>
     dns_fresh (dns_clock s) (dns_cache s) demo_dns_key = Some (Ok demo_addrs) \<and>
     dns_stale_until e < dns_clock s"
proof -
  let ?key = demo_dns_key
  let ?err = "Err \<lparr>io_kind = IoOther, io_message = []\<rparr> :: dns_outcome"
  let ?kept = "demo_dns_entry\<lparr>dns_fresh_until := 90900000000\<rparr>"
  obtain s where s: "dns_reachable demo_dns_cfg s" "dns_clock s = 0" "dns_inflight s = []"
    "dns_storing s = []" "dns_blocking s = []" "dns_queued s = []" "dns_cache s = [(?key, demo_dns_entry)]"
    using demo_dns_stored by blast
  let ?t = "s\<lparr>dns_clock := 89900000000\<rparr>"
  let ?q = "?t\<lparr>dns_inflight := [?key], dns_queued := [?key]\<rparr>"
  let ?b = "?q\<lparr>dns_queued := [], dns_blocking := [?key]\<rparr>"
  let ?r = "?b\<lparr>dns_blocking := [], dns_storing := [(?key, ?err)]\<rparr>"
  let ?d = "?r\<lparr>dns_storing := [], dns_cache := [(?key, ?kept)], dns_inflight := [],
    dns_answers := (?key, Ok demo_addrs) # dns_answers s\<rparr>"
  have "dns_step demo_dns_cfg s ?t" using dns_step.tick [of demo_dns_cfg s 89900000000] s(2) by simp
  moreover have "dns_step demo_dns_cfg ?t ?q"
    by (rule dns_step.resolve [of ?key _ DnsWait])
      (simp add: s resolve_begin_def dns_fresh_def demo_dns_entry_def NANOS_def)
  moreover have "dns_step demo_dns_cfg ?q ?b"
    using dns_step.acquire [of ?key ?q demo_dns_cfg] s
    by (simp add: dns_permits_def)
  moreover have "dns_step demo_dns_cfg ?b ?r"
    using dns_step.answer [of ?key ?b demo_dns_cfg ?err] s by simp
  moreover have "dns_step demo_dns_cfg ?r ?d"
  proof -
    have "dns_store demo_dns_cfg (dns_clock ?r) (dns_cache ?r) ?key ?err = (Ok demo_addrs, [(?key, ?kept)])"
      by (simp add: s dns_store_def dns_prune_def PRUNE_THRESHOLD_def dns_later_def demo_dns_cfg_def
          demo_dns_entry_def DNS_NEGATIVE_TTL_def NANOS_def)
    from dns_step.store [OF _ this] s show ?thesis by simp
  qed
  moreover have "dns_step demo_dns_cfg ?d (?d\<lparr>dns_clock := 90500000000\<rparr>)"
    using dns_step.tick [of demo_dns_cfg ?d 600000000] by simp
  ultimately have "dns_reachable demo_dns_cfg (?d\<lparr>dns_clock := 90500000000\<rparr>)"
    using s(1) by (meson rtranclp.rtrancl_into_rtrancl)
  then show ?thesis
    by (intro exI [of _ "?d\<lparr>dns_clock := 90500000000\<rparr>"] exI [of _ ?kept])
      (simp add: dns_fresh_def demo_dns_entry_def NANOS_def)
qed

section \<open>Properties\<close>

text \<open>C26 (dns\_single\_flight): in every run at most \<open>max_concurrent\<close> (at least one) blocking
resolutions hold a permit, no name and port is being resolved twice at once, and a
name is in flight exactly while its one lookup has not stored its answer.\<close>

theorem dns_single_flight:
  assumes "dns_reachable cfg s"
  shows "length (dns_blocking s) \<le> max (dns_max_concurrent cfg) 1 \<and>
    distinct (dns_queued s @ dns_blocking s @ map fst (dns_storing s)) \<and>
    set (dns_inflight s) = set (dns_queued s @ dns_blocking s @ map fst (dns_storing s))"
  using dns_flight_reachable [OF assms] by (simp add: dns_flight_ok_def dns_lookups_def dns_permits_def)

theorem dns_single_flight_witness:
  "set (dns_inflight (dns_init\<lparr>dns_inflight := [demo_dns_key], dns_queued := [demo_dns_key]\<rparr>)) = {demo_dns_key}"
  using dns_single_flight [OF demo_dns_started] by (simp add: dns_init_def)

text \<open>Every address list the resolver hands out from its cache is not
empty and is a rotation of the cached one, the next call starting one address later.\<close>

theorem dns_answers_usable:
  assumes "dns_reachable cfg s" "dns_clock s + DNS_NEGATIVE_TTL \<le> dns_instant_max cfg"
    and "resolve_begin key s = (DnsAnswer (Ok r), s')"
  shows "\<exists>e addrs. map_of (dns_cache s) key = Some e \<and> dns_addrs e = Some addrs \<and> addrs \<noteq> [] \<and>
    r = rotate (unat (dns_rotation s)) addrs \<and> hd r = addrs ! (unat (dns_rotation s) mod length addrs) \<and>
    dns_rotation s' = dns_rotation s + 1"
proof -
  from assms(3) obtain e addrs where e: "map_of (dns_cache s) key = Some e" "dns_addrs e = Some addrs"
    and r: "r = fst (dns_rotated (dns_rotation s) addrs)" "dns_rotation s' = dns_rotation s + 1"
    by (auto simp: resolve_begin_def dns_fresh_def dns_rotated_def Let_def
        split: option.splits result.splits if_splits)
  have "addrs \<noteq> []"
    using dns_data_reachable [OF assms(1,2)] dns_cache_okD [of "dns_cache s" key e] e
    by (simp add: dns_data_ok_def dns_entry_ok_def)
  with e r show ?thesis by (auto simp: dns_rotated_rotate hd_rotate)
qed

theorem dns_answers_usable_witness:
  "\<exists>s :: dns_sys. \<exists>r s'. resolve_begin demo_dns_key s = (DnsAnswer (Ok r), s') \<and>
     r = rotate (unat (dns_rotation s)) demo_addrs"
proof -
  obtain s where s: "dns_reachable demo_dns_cfg s" "dns_clock s = 0"
    "dns_cache s = [(demo_dns_key, demo_dns_entry)]"
    using demo_dns_stored by blast
  have "dns_clock s + DNS_NEGATIVE_TTL \<le> dns_instant_max demo_dns_cfg"
    by (simp add: s demo_dns_cfg_def DNS_NEGATIVE_TTL_def NANOS_def)
  moreover obtain r s' where r: "resolve_begin demo_dns_key s = (DnsAnswer (Ok r), s')"
    using s by (simp add: resolve_begin_def dns_fresh_def demo_dns_entry_def NANOS_def dns_rotated_def Let_def)
  ultimately have "r = rotate (unat (dns_rotation s)) demo_addrs"
    using dns_answers_usable [OF s(1) _ r] s(3) by (auto simp: demo_dns_entry_def)
  with r show ?thesis by blast
qed

text \<open>C27 (dns\_stale\_bound): a cached answer is served without a successful re-resolution for less
than \<open>NEGATIVE_TTL\<close> past its stale limit; the limit itself can be passed, when the last failed
re-resolution came just before it.\<close>

theorem dns_stale_bound:
  "(dns_reachable cfg s \<and> dns_clock s + DNS_NEGATIVE_TTL \<le> dns_instant_max cfg \<and>
    dns_fresh (dns_clock s) (dns_cache s) key = Some (Ok addrs) \<longrightarrow>
      (\<exists>e. map_of (dns_cache s) key = Some e \<and> dns_addrs e = Some addrs \<and>
         dns_clock s < dns_stale_until e + DNS_NEGATIVE_TTL)) \<and>
   (\<exists>cfg (s :: dns_sys) key addrs e. dns_reachable cfg s \<and> map_of (dns_cache s) key = Some e \<and>
      dns_fresh (dns_clock s) (dns_cache s) key = Some (Ok addrs) \<and> dns_stale_until e < dns_clock s)"
proof (intro conjI impI)
  assume "dns_reachable cfg s \<and> dns_clock s + DNS_NEGATIVE_TTL \<le> dns_instant_max cfg \<and>
    dns_fresh (dns_clock s) (dns_cache s) key = Some (Ok addrs)"
  then have reach: "dns_reachable cfg s" "dns_clock s + DNS_NEGATIVE_TTL \<le> dns_instant_max cfg"
    and fresh: "dns_fresh (dns_clock s) (dns_cache s) key = Some (Ok addrs)" by blast+
  from fresh obtain e where e: "map_of (dns_cache s) key = Some e" "dns_clock s < dns_fresh_until e"
    and ok: "ok_or (dns_addrs e)
      \<lparr>io_kind = IoNotFound, io_message = ''recent resolution of '' @ fst key @ '' failed''\<rparr> = Ok addrs"
    by (auto simp: dns_fresh_def split: option.splits if_splits)
  from ok have addrs: "dns_addrs e = Some addrs" by (cases "dns_addrs e") auto
  have "dns_entry_ok e"
    using dns_data_reachable [OF reach] dns_cache_okD [OF _ e(1)] by (simp add: dns_data_ok_def)
  with e addrs show "\<exists>e. map_of (dns_cache s) key = Some e \<and> dns_addrs e = Some addrs \<and>
      dns_clock s < dns_stale_until e + DNS_NEGATIVE_TTL"
    by (intro exI [of _ e]) (simp add: dns_entry_ok_def)
next
  show "\<exists>cfg (s :: dns_sys) key addrs e. dns_reachable cfg s \<and> map_of (dns_cache s) key = Some e \<and>
      dns_fresh (dns_clock s) (dns_cache s) key = Some (Ok addrs) \<and> dns_stale_until e < dns_clock s"
    using dns_overrun by blast
qed

theorem dns_stale_bound_witness:
  "\<exists>s :: dns_sys. dns_fresh (dns_clock s) (dns_cache s) demo_dns_key = Some (Ok demo_addrs) \<and>
     (\<exists>e. map_of (dns_cache s) demo_dns_key = Some e \<and> dns_clock s < dns_stale_until e + DNS_NEGATIVE_TTL)"
proof -
  obtain s where s: "dns_reachable demo_dns_cfg s" "dns_clock s = 0"
    "dns_cache s = [(demo_dns_key, demo_dns_entry)]"
    using demo_dns_stored by blast
  have "dns_clock s + DNS_NEGATIVE_TTL \<le> dns_instant_max demo_dns_cfg"
    by (simp add: s demo_dns_cfg_def DNS_NEGATIVE_TTL_def NANOS_def)
  moreover have fresh: "dns_fresh (dns_clock s) (dns_cache s) demo_dns_key = Some (Ok demo_addrs)"
    by (simp add: s dns_fresh_def demo_dns_entry_def NANOS_def)
  ultimately have "\<exists>e. map_of (dns_cache s) demo_dns_key = Some e \<and> dns_addrs e = Some demo_addrs \<and>
      dns_clock s < dns_stale_until e + DNS_NEGATIVE_TTL"
    using dns_stale_bound [of demo_dns_cfg s demo_dns_key demo_addrs] s(1) by blast
  with fresh show ?thesis by blast
qed

end
