(* ===== verification/App_Config.thy ===== *)
theory App_Config
  imports Client_Hello Routing Dns_Resolver
begin

text \<open>
  The router's limits (\<open>delivery/mod.rs\<close>) and the configuration file (\<open>config/mod.rs\<close>,
  \<open>config/routes.rs\<close>): defaults, validation and the table of routes. Durations are
  nanoseconds. The TOML reader and the file system are not part of the sources: they are
  arguments of \<open>from_toml_str\<close> and \<open>app_config_load\<close>. A \<open>u64\<close> or \<open>usize\<close> field is a \<open>nat\<close>; no
  arithmetic is done on the fields before they are range-checked.
\<close>

section \<open>Router limits\<close>

definition from_secs :: "nat \<Rightarrow> nat" where "from_secs n = n * NANOS"

definition from_millis :: "nat \<Rightarrow> nat" where "from_millis n = n * 1000000"

definition as_secs :: "nat \<Rightarrow> nat" where "as_secs d = d div NANOS"

definition as_millis :: "nat \<Rightarrow> nat" where "as_millis d = d div 1000000"

record router_config =
  rc_client_hello_timeout :: nat
  rc_lookup_timeout :: nat
  rc_upstream_timeout :: nat
  rc_idle_timeout :: "nat option"
  rc_hello_limits :: hello_limits
  rc_max_connections :: nat
  rc_shutdown_grace :: nat
  rc_dns_cache_ttl :: nat
  rc_max_concurrent_dns_lookups :: nat
  rc_copy_buffer_size :: nat

definition router_config_default :: router_config where
  "router_config_default =
     \<lparr>rc_client_hello_timeout = from_secs 5,
      rc_lookup_timeout = from_secs 2,
      rc_upstream_timeout = from_secs 5,
      rc_idle_timeout = Some (from_secs (30 * 60)),
      rc_hello_limits = hello_limits_default,
      rc_max_connections = 10000,
      rc_shutdown_grace = from_secs 30,
      rc_dns_cache_ttl = from_secs 30,
      rc_max_concurrent_dns_lookups = 64,
      rc_copy_buffer_size = 32 * 1024\<rparr>"

section \<open>Bounds and errors\<close>

definition MAX_CONNECTIONS :: nat where "MAX_CONNECTIONS = 1000000"

definition MAX_TIMEOUT_MS :: nat where "MAX_TIMEOUT_MS = 3600000"

definition MAX_IDLE_TIMEOUT_SECS :: nat where "MAX_IDLE_TIMEOUT_SECS = 30 * 24 * 3600"

definition MAX_SHUTDOWN_GRACE_SECS :: nat where "MAX_SHUTDOWN_GRACE_SECS = 3600"

definition MIN_CLIENT_HELLO_BYTES :: nat where "MIN_CLIENT_HELLO_BYTES = 1024"

definition MAX_CLIENT_HELLO_BYTES :: nat where "MAX_CLIENT_HELLO_BYTES = 65536"

definition MAX_HELLO_RECORDS :: nat where "MAX_HELLO_RECORDS = 256"

definition MAX_DNS_CACHE_TTL_SECS :: nat where "MAX_DNS_CACHE_TTL_SECS = 24 * 3600"

definition MAX_CONCURRENT_DNS_LOOKUPS :: nat where "MAX_CONCURRENT_DNS_LOOKUPS = 256"

definition MIN_COPY_BUFFER_BYTES :: nat where "MIN_COPY_BUFFER_BYTES = 1024"

definition MAX_COPY_BUFFER_BYTES :: nat where "MAX_COPY_BUFFER_BYTES = 1024 * 1024"

text \<open>\<open>'t\<close> is the TOML reader's error.\<close>

datatype 't config_error =
    ReadError string io_error
  | ParseError 't
  | NoListenAddresses
  | DuplicateListenAddress socket_addr
  | OutOfRange string nat nat
  | InvalidHealthPath string
  | InvalidRouteHostname nat string name_error
  | InvalidRouteBackend nat string name_error
  | DuplicateRoute string

definition in_range :: "nat \<Rightarrow> nat \<Rightarrow> nat \<Rightarrow> string \<Rightarrow> (nat, 't config_error) result" where
  "in_range v lo hi field = (if lo \<le> v \<and> v \<le> hi then Ok v else Err (OutOfRange field lo hi))"

definition U64_MAX :: nat where "U64_MAX = 2 ^ 64 - 1"

definition millis :: "nat \<Rightarrow> nat" where
  "millis d = (if as_millis d \<le> U64_MAX then as_millis d else U64_MAX)"

section \<open>The server section\<close>

record server_config =
  srv_listen :: "socket_addr list"
  srv_router :: router_config

record raw_server =
  raw_listen :: "socket_addr list"
  raw_max_connections :: nat
  raw_client_hello_timeout_ms :: nat
  raw_lookup_timeout_ms :: nat
  raw_upstream_timeout_ms :: nat
  raw_idle_timeout_secs :: nat
  raw_shutdown_grace_secs :: nat
  raw_max_client_hello_bytes :: nat
  raw_max_client_hello_records :: nat
  raw_dns_cache_ttl_secs :: nat
  raw_max_concurrent_dns_lookups :: nat
  raw_copy_buffer_bytes :: nat

definition raw_server_default :: raw_server where
  "raw_server_default =
     (let router = router_config_default
      in \<lparr>raw_listen = [(V4 [0, 0, 0, 0], 8080)],
          raw_max_connections = rc_max_connections router,
          raw_client_hello_timeout_ms = millis (rc_client_hello_timeout router),
          raw_lookup_timeout_ms = millis (rc_lookup_timeout router),
          raw_upstream_timeout_ms = millis (rc_upstream_timeout router),
          raw_idle_timeout_secs = (case rc_idle_timeout router of None \<Rightarrow> 0 | Some idle \<Rightarrow> as_secs idle),
          raw_shutdown_grace_secs = as_secs (rc_shutdown_grace router),
          raw_max_client_hello_bytes = max_handshake_bytes (rc_hello_limits router),
          raw_max_client_hello_records = max_records (rc_hello_limits router),
          raw_dns_cache_ttl_secs = as_secs (rc_dns_cache_ttl router),
          raw_max_concurrent_dns_lookups = rc_max_concurrent_dns_lookups router,
          raw_copy_buffer_bytes = rc_copy_buffer_size router\<rparr>)"

text \<open>\<open>listen.iter().find(|addr| !seen.insert(addr))\<close>.\<close>

fun first_duplicate :: "'a list \<Rightarrow> 'a list \<Rightarrow> 'a option" where
  "first_duplicate seen [] = None"
| "first_duplicate seen (x # xs) =
     (if x \<in> set seen then Some x else first_duplicate (x # seen) xs)"

definition timeout_ms :: "nat \<Rightarrow> string \<Rightarrow> (nat, 't config_error) result" where
  "timeout_ms v field = map_ok from_millis (in_range v 1 MAX_TIMEOUT_MS field)"

definition raw_server_validate :: "raw_server \<Rightarrow> (server_config, 't config_error) result" where
  "raw_server_validate raw =
     (if raw_listen raw = [] then Err NoListenAddresses
      else case first_duplicate [] (raw_listen raw) of
        Some duplicate \<Rightarrow> Err (DuplicateListenAddress duplicate)
      | None \<Rightarrow>
        bind_ok (in_range (raw_max_connections raw) 1 MAX_CONNECTIONS ''server.max_connections'')
          (\<lambda>max_connections.
        bind_ok (timeout_ms (raw_client_hello_timeout_ms raw) ''server.client_hello_timeout_ms'')
          (\<lambda>client_hello_timeout.
        bind_ok (timeout_ms (raw_lookup_timeout_ms raw) ''server.lookup_timeout_ms'')
          (\<lambda>lookup_timeout.
        bind_ok (timeout_ms (raw_upstream_timeout_ms raw) ''server.upstream_timeout_ms'')
          (\<lambda>upstream_timeout.
        bind_ok (in_range (raw_idle_timeout_secs raw) 0 MAX_IDLE_TIMEOUT_SECS
                   ''server.idle_timeout_secs'')
          (\<lambda>idle_timeout_secs.
        bind_ok (in_range (raw_shutdown_grace_secs raw) 0 MAX_SHUTDOWN_GRACE_SECS
                   ''server.shutdown_grace_secs'')
          (\<lambda>shutdown_grace_secs.
        bind_ok (in_range (raw_max_client_hello_bytes raw) MIN_CLIENT_HELLO_BYTES
                   MAX_CLIENT_HELLO_BYTES ''server.max_client_hello_bytes'')
          (\<lambda>max_client_hello_bytes.
        bind_ok (in_range (raw_max_client_hello_records raw) 1 MAX_HELLO_RECORDS
                   ''server.max_client_hello_records'')
          (\<lambda>max_client_hello_records.
        bind_ok (in_range (raw_dns_cache_ttl_secs raw) 0 MAX_DNS_CACHE_TTL_SECS
                   ''server.dns_cache_ttl_secs'')
          (\<lambda>dns_cache_ttl_secs.
        bind_ok (in_range (raw_max_concurrent_dns_lookups raw) 1 MAX_CONCURRENT_DNS_LOOKUPS
                   ''server.max_concurrent_dns_lookups'')
          (\<lambda>max_concurrent_dns_lookups.
        bind_ok (in_range (raw_copy_buffer_bytes raw) MIN_COPY_BUFFER_BYTES MAX_COPY_BUFFER_BYTES
                   ''server.copy_buffer_bytes'')
          (\<lambda>copy_buffer_bytes.
        Ok \<lparr>srv_listen = raw_listen raw,
            srv_router = router_config_default
              \<lparr>rc_client_hello_timeout := client_hello_timeout,
               rc_lookup_timeout := lookup_timeout,
               rc_upstream_timeout := upstream_timeout,
               rc_idle_timeout :=
                 (if idle_timeout_secs > 0 then Some (from_secs idle_timeout_secs) else None),
               rc_shutdown_grace := from_secs shutdown_grace_secs,
               rc_max_connections := max_connections,
               rc_hello_limits := \<lparr>max_handshake_bytes = max_client_hello_bytes,
                                   max_records = max_client_hello_records\<rparr>,
               rc_dns_cache_ttl := from_secs dns_cache_ttl_secs,
               rc_max_concurrent_dns_lookups := max_concurrent_dns_lookups,
               rc_copy_buffer_size := copy_buffer_bytes\<rparr>\<rparr>))))))))))))"

section \<open>The admin section\<close>

record admin_config =
  adm_listen :: socket_addr
  adm_health_path :: string

record raw_admin =
  raw_admin_listen :: socket_addr
  raw_health_path :: string

definition raw_admin_default :: raw_admin where
  "raw_admin_default = \<lparr>raw_admin_listen = (V4 [127, 0, 0, 1], 8081), raw_health_path = ''/health''\<rparr>"

text \<open>
  \<open>str::contains(char::is_whitespace)\<close> on UTF-8: the code points with the Unicode property
  \<open>White_Space\<close>, as the bytes that encode them.
\<close>

definition whitespace_prefix :: "nat list \<Rightarrow> bool" where
  "whitespace_prefix bs =
     (case bs of
        [] \<Rightarrow> False
      | b # rest \<Rightarrow>
          9 \<le> b \<and> b \<le> 13 \<or> b = 32 \<or>
          b = 0xC2 \<and> (take 1 rest = [0x85] \<or> take 1 rest = [0xA0]) \<or>
          b = 0xE1 \<and> take 2 rest = [0x9A, 0x80] \<or>
          b = 0xE2 \<and> (case rest of
              x # y # _ \<Rightarrow> x = 0x80 \<and> (0x80 \<le> y \<and> y \<le> 0x8A \<or> y = 0xA8 \<or> y = 0xA9 \<or> y = 0xAF) \<or>
                         x = 0x81 \<and> y = 0x9F
            | _ \<Rightarrow> False) \<or>
          b = 0xE3 \<and> take 2 rest = [0x80, 0x80])"

fun contains_whitespace :: "string \<Rightarrow> bool" where
  "contains_whitespace [] = False"
| "contains_whitespace (c # cs) =
     (whitespace_prefix (map of_char (c # cs)) \<or> contains_whitespace cs)"

definition raw_admin_validate :: "raw_admin \<Rightarrow> (admin_config, 't config_error) result" where
  "raw_admin_validate raw =
     (let path = raw_health_path raw
      in if strip_prefix ''/'' path = None \<or> path = ''/metrics'' \<or> contains_whitespace path
         then Err (InvalidHealthPath path)
         else Ok \<lparr>adm_listen = raw_admin_listen raw, adm_health_path = path\<rparr>)"

section \<open>The routes\<close>

record raw_route =
  raw_hostname :: string
  raw_backend :: string

text \<open>The loop of \<open>build_route_table\<close>, from route \<open>index\<close> on.\<close>

fun build_routes ::
    "nat \<Rightarrow> in_memory_lookup \<Rightarrow> raw_route list \<Rightarrow> (in_memory_lookup, 't config_error) result" where
  "build_routes index table [] = Ok table"
| "build_routes index table (route # routes) =
     bind_ok (map_err (InvalidRouteHostname index (raw_hostname route))
                (route_key_parse (raw_hostname route)))
       (\<lambda>key.
     bind_ok (map_err (InvalidRouteBackend index (raw_backend route))
                (backend_from_str (raw_backend route)))
       (\<lambda>b.
     let (previous, table') = mem_insert table key b
     in if previous \<noteq> None then Err (DuplicateRoute (key_text key))
        else build_routes (index + 1) table' routes))"

definition build_route_table :: "raw_route list \<Rightarrow> (in_memory_lookup, 't config_error) result" where
  "build_route_table routes = build_routes 0 mem_new routes"

section \<open>The whole file\<close>

record app_config =
  app_server :: server_config
  app_admin :: admin_config
  app_routes :: in_memory_lookup

record raw_config =
  raw_server :: raw_server
  raw_admin :: raw_admin
  raw_routes :: "raw_route list"

definition from_toml_str ::
    "(string \<Rightarrow> (raw_config, 't) result) \<Rightarrow> string \<Rightarrow> (app_config, 't config_error) result" where
  "from_toml_str toml source =
     bind_ok (map_err ParseError (toml source)) (\<lambda>raw.
     bind_ok (raw_server_validate (raw_server raw)) (\<lambda>server.
     bind_ok (raw_admin_validate (raw_admin raw)) (\<lambda>admin.
     bind_ok (build_route_table (raw_routes raw)) (\<lambda>routes.
     Ok \<lparr>app_server = server, app_admin = admin, app_routes = routes\<rparr>))))"

definition app_config_load ::
    "(string \<Rightarrow> (string, io_error) result) \<Rightarrow> (string \<Rightarrow> (raw_config, 't) result) \<Rightarrow> string \<Rightarrow>
     (app_config, 't config_error) result" where
  "app_config_load read_file toml path =
     bind_ok (map_err (ReadError path) (read_file path)) (from_toml_str toml)"

definition DEFAULT_CONFIG_PATH :: string where "DEFAULT_CONFIG_PATH = ''sni_router.toml''"

text \<open>The argument is the value of \<open>SNI_ROUTER_CONFIG\<close>.\<close>

definition config_path_from_env :: "string option \<Rightarrow> string" where
  "config_path_from_env var =
     (case var of
        Some v \<Rightarrow> if v = [] then DEFAULT_CONFIG_PATH else v
      | None \<Rightarrow> DEFAULT_CONFIG_PATH)"

section \<open>Facts about the checks\<close>

lemma first_duplicate_None: "first_duplicate seen xs = None \<longleftrightarrow> distinct xs \<and> set xs \<inter> set seen = {}"
  by (induction seen xs rule: first_duplicate.induct) auto

lemma first_duplicate_Some:
  "first_duplicate seen xs = Some a \<longleftrightarrow>
   (\<exists>before after. xs = before @ a # after \<and> distinct before \<and> set before \<inter> set seen = {} \<and>
      a \<in> set before \<union> set seen)"
proof (induction seen xs rule: first_duplicate.induct)
  case (2 seen x xs)
  show ?case
  proof (cases "x \<in> set seen")
    case True
    have "x = a \<longleftrightarrow> (\<exists>before after. x # xs = before @ a # after \<and> distinct before \<and>
        set before \<inter> set seen = {} \<and> a \<in> set before \<union> set seen)" (is "_ \<longleftrightarrow> ?r")
    proof
      assume "x = a"
      with True show ?r by (intro exI [of _ "[]"] exI [of _ xs]) simp
    next
      assume ?r
      with True show "x = a" by (auto simp: Cons_eq_append_conv)
    qed
    with True show ?thesis by simp
  next
    case False
    have "(\<exists>before after. xs = before @ a # after \<and> distinct before \<and>
          set before \<inter> set (x # seen) = {} \<and> a \<in> set before \<union> set (x # seen)) \<longleftrightarrow>
        (\<exists>before after. x # xs = before @ a # after \<and> distinct before \<and>
          set before \<inter> set seen = {} \<and> a \<in> set before \<union> set seen)" (is "?l \<longleftrightarrow> ?r")
    proof
      assume ?l
      then obtain before after where "xs = before @ a # after" "distinct before"
        "set before \<inter> set (x # seen) = {}" "a \<in> set before \<union> set (x # seen)" by blast
      with False show ?r by (intro exI [of _ "x # before"] exI [of _ after]) auto
    next
      assume ?r
      then obtain before after where r: "x # xs = before @ a # after" "distinct before"
        "set before \<inter> set seen = {}" "a \<in> set before \<union> set seen" by blast
      from r False obtain rest where "before = x # rest" by (cases before) auto
      with r show ?l by (intro exI [of _ rest] exI [of _ after]) auto
    qed
    with 2 False show ?thesis by simp
  qed
qed simp

text \<open>
  The reference the validator is measured against: the table of its range checks in the
  order of the fields, and the configuration a file within all ranges stands for.
\<close>

definition server_fields :: "raw_server \<Rightarrow> (string \<times> nat \<times> nat \<times> nat) list" where
  "server_fields raw =
     [(''server.max_connections'', raw_max_connections raw, 1, 1000000),
      (''server.client_hello_timeout_ms'', raw_client_hello_timeout_ms raw, 1, 3600000),
      (''server.lookup_timeout_ms'', raw_lookup_timeout_ms raw, 1, 3600000),
      (''server.upstream_timeout_ms'', raw_upstream_timeout_ms raw, 1, 3600000),
      (''server.idle_timeout_secs'', raw_idle_timeout_secs raw, 0, 2592000),
      (''server.shutdown_grace_secs'', raw_shutdown_grace_secs raw, 0, 3600),
      (''server.max_client_hello_bytes'', raw_max_client_hello_bytes raw, 1024, 65536),
      (''server.max_client_hello_records'', raw_max_client_hello_records raw, 1, 256),
      (''server.dns_cache_ttl_secs'', raw_dns_cache_ttl_secs raw, 0, 86400),
      (''server.max_concurrent_dns_lookups'', raw_max_concurrent_dns_lookups raw, 1, 256),
      (''server.copy_buffer_bytes'', raw_copy_buffer_bytes raw, 1024, 1048576)]"

fun field_ok :: "string \<times> nat \<times> nat \<times> nat \<Rightarrow> bool" where
  "field_ok (field, v, lo, hi) \<longleftrightarrow> lo \<le> v \<and> v \<le> hi"

fun field_error :: "string \<times> nat \<times> nat \<times> nat \<Rightarrow> 't config_error" where
  "field_error (field, v, lo, hi) = OutOfRange field lo hi"

definition server_of :: "raw_server \<Rightarrow> server_config" where
  "server_of raw =
     \<lparr>srv_listen = raw_listen raw,
      srv_router =
        \<lparr>rc_client_hello_timeout = from_millis (raw_client_hello_timeout_ms raw),
         rc_lookup_timeout = from_millis (raw_lookup_timeout_ms raw),
         rc_upstream_timeout = from_millis (raw_upstream_timeout_ms raw),
         rc_idle_timeout = (if raw_idle_timeout_secs raw = 0 then None
                            else Some (from_secs (raw_idle_timeout_secs raw))),
         rc_hello_limits = \<lparr>max_handshake_bytes = raw_max_client_hello_bytes raw,
                            max_records = raw_max_client_hello_records raw\<rparr>,
         rc_max_connections = raw_max_connections raw,
         rc_shutdown_grace = from_secs (raw_shutdown_grace_secs raw),
         rc_dns_cache_ttl = from_secs (raw_dns_cache_ttl_secs raw),
         rc_max_concurrent_dns_lookups = raw_max_concurrent_dns_lookups raw,
         rc_copy_buffer_size = raw_copy_buffer_bytes raw\<rparr>\<rparr>"

lemma bind_in_range:
  "bind_ok (in_range v lo hi field) k =
     (if field_ok (field, v, lo, hi) then k v else Err (field_error (field, v, lo, hi)))"
  by (simp add: in_range_def)

lemma bind_timeout_ms:
  "bind_ok (timeout_ms v field) k =
     (if field_ok (field, v, 1, 3600000) then k (from_millis v)
      else Err (field_error (field, v, 1, 3600000)))"
  by (simp add: timeout_ms_def in_range_def MAX_TIMEOUT_MS_def)

lemma config_bounds:
  "MAX_CONNECTIONS = 1000000" "MAX_IDLE_TIMEOUT_SECS = 2592000" "MAX_SHUTDOWN_GRACE_SECS = 3600"
  "MIN_CLIENT_HELLO_BYTES = 1024" "MAX_CLIENT_HELLO_BYTES = 65536" "MAX_HELLO_RECORDS = 256"
  "MAX_DNS_CACHE_TTL_SECS = 86400" "MAX_CONCURRENT_DNS_LOOKUPS = 256"
  "MIN_COPY_BUFFER_BYTES = 1024" "MAX_COPY_BUFFER_BYTES = 1048576"
  by (simp_all add: MAX_CONNECTIONS_def MAX_IDLE_TIMEOUT_SECS_def MAX_SHUTDOWN_GRACE_SECS_def
      MIN_CLIENT_HELLO_BYTES_def MAX_CLIENT_HELLO_BYTES_def MAX_HELLO_RECORDS_def
      MAX_DNS_CACHE_TTL_SECS_def MAX_CONCURRENT_DNS_LOOKUPS_def MIN_COPY_BUFFER_BYTES_def
      MAX_COPY_BUFFER_BYTES_def)

lemma find_field_Cons:
  "(case find (\<lambda>x. \<not> field_ok x) (x # xs) of Some y \<Rightarrow> Err (field_error y) | None \<Rightarrow> r) =
     (if field_ok x
      then case find (\<lambda>x. \<not> field_ok x) xs of Some y \<Rightarrow> Err (field_error y) | None \<Rightarrow> r
      else Err (field_error x))"
  by simp

lemma find_field_Nil:
  "(case find (\<lambda>x. \<not> field_ok x) [] of Some y \<Rightarrow> Err (field_error y) | None \<Rightarrow> r) = r"
  by simp

lemma server_of_update:
  "server_of raw =
     \<lparr>srv_listen = raw_listen raw,
      srv_router = router_config_default
        \<lparr>rc_client_hello_timeout := from_millis (raw_client_hello_timeout_ms raw),
         rc_lookup_timeout := from_millis (raw_lookup_timeout_ms raw),
         rc_upstream_timeout := from_millis (raw_upstream_timeout_ms raw),
         rc_idle_timeout := (if raw_idle_timeout_secs raw > 0
                             then Some (from_secs (raw_idle_timeout_secs raw)) else None),
         rc_shutdown_grace := from_secs (raw_shutdown_grace_secs raw),
         rc_max_connections := raw_max_connections raw,
         rc_hello_limits := \<lparr>max_handshake_bytes = raw_max_client_hello_bytes raw,
                             max_records = raw_max_client_hello_records raw\<rparr>,
         rc_dns_cache_ttl := from_secs (raw_dns_cache_ttl_secs raw),
         rc_max_concurrent_dns_lookups := raw_max_concurrent_dns_lookups raw,
         rc_copy_buffer_size := raw_copy_buffer_bytes raw\<rparr>\<rparr>"
  by (simp add: server_of_def router_config_default_def)

lemma raw_server_validate_reference:
  "raw_server_validate raw =
     (if raw_listen raw = [] then Err NoListenAddresses
      else case first_duplicate [] (raw_listen raw) of
        Some duplicate \<Rightarrow> Err (DuplicateListenAddress duplicate)
      | None \<Rightarrow>
          (case find (\<lambda>x. \<not> field_ok x) (server_fields raw) of
             Some x \<Rightarrow> Err (field_error x)
           | None \<Rightarrow> Ok (server_of raw)))"
  unfolding raw_server_validate_def bind_in_range bind_timeout_ms config_bounds server_fields_def
    find_field_Cons find_field_Nil server_of_update
  by (rule refl)

lemma raw_server_validate_Ok:
  "raw_server_validate raw = Ok cfg \<longleftrightarrow>
   raw_listen raw \<noteq> [] \<and> distinct (raw_listen raw) \<and> list_all field_ok (server_fields raw) \<and>
   cfg = server_of raw"
  by (auto simp: raw_server_validate_reference first_duplicate_None find_None_list_all
      first_duplicate_Some find_Some_split split: option.splits)

lemma raw_defaults_accepted:
  "raw_server_validate raw_server_default =
     Ok \<lparr>srv_listen = [(V4 [0, 0, 0, 0], 8080)], srv_router = router_config_default\<rparr> \<and>
   raw_admin_validate raw_admin_default =
     Ok \<lparr>adm_listen = (V4 [127, 0, 0, 1], 8081), adm_health_path = ''/health''\<rparr>"
proof
  have d: "as_millis (from_secs n) = 1000 * n" "as_secs (from_secs n) = n" for n
    by (simp_all add: as_millis_def as_secs_def from_secs_def NANOS_def)
  have m: "from_millis (1000 * n) = from_secs n" for n
    by (simp add: from_millis_def from_secs_def NANOS_def)
  show "raw_server_validate raw_server_default =
     Ok \<lparr>srv_listen = [(V4 [0, 0, 0, 0], 8080)], srv_router = router_config_default\<rparr>"
    using m [of 5] m [of 2]
    by (simp add: raw_server_validate_Ok raw_server_default_def server_fields_def server_of_def
        router_config_default_def hello_limits_default_def millis_def U64_MAX_def d)
  show "raw_admin_validate raw_admin_default =
     Ok \<lparr>adm_listen = (V4 [127, 0, 0, 1], 8081), adm_health_path = ''/health''\<rparr>"
  proof -
    have "\<not> contains_whitespace ''/health''" by code_simp
    then show ?thesis by (simp add: raw_admin_validate_def raw_admin_default_def)
  qed
qed

section \<open>The table a file stands for\<close>

text \<open>A route as the file means it: \<^term>\<open>None\<close> when its host name or backend does not parse.\<close>

definition parse_route :: "raw_route \<Rightarrow> (route_key \<times> backend) option" where
  "parse_route route =
     (case (route_key_parse (raw_hostname route), backend_from_str (raw_backend route)) of
        (Ok key, Ok b) \<Rightarrow> Some (key, b)
      | _ \<Rightarrow> None)"

lemma parse_route_Some:
  "parse_route route = Some (key, b) \<longleftrightarrow>
   route_key_parse (raw_hostname route) = Ok key \<and> backend_from_str (raw_backend route) = Ok b"
  by (auto simp: parse_route_def split: result.splits)

lemma mem_get_None: "mem_get table key = None \<longleftrightarrow> key \<notin> fst ` set (mem_routes table)"
  by (simp add: mem_get_def map_of_eq_None_iff)

lemma build_routes_step:
  assumes "parse_route route = Some (key, b)" "mem_get table key = None"
  shows "build_routes index table (route # routes) =
    build_routes (index + 1) (snd (mem_insert table key b)) routes"
  using assms by (simp add: parse_route_Some mem_insert_def mem_get_def)

lemma update_fresh: "k \<notin> fst ` set xs \<Longrightarrow> AList.update k v xs = xs @ [(k, v)]"
  by (induction xs) auto

lemma build_routes_Ok:
  "build_routes index table routes = Ok t \<longleftrightarrow>
   (\<exists>rows. map parse_route routes = map Some rows \<and>
      distinct (map fst rows) \<and> set (map fst rows) \<inter> fst ` set (mem_routes table) = {} \<and>
      t = table\<lparr>mem_routes := mem_routes table @ rows\<rparr>)"
proof (induction routes arbitrary: index table)
  case (Cons route routes)
  show ?case
  proof (cases "parse_route route")
    case None
    then have "\<not> is_ok (build_routes index table (route # routes) :: (in_memory_lookup, 'a config_error) result)"
      by (auto simp: parse_route_def split: result.splits)
    with None show ?thesis by (auto simp: is_ok_iff Cons_eq_map_conv)
  next
    case (Some row)
    obtain key b where row: "row = (key, b)" by (cases row)
    show ?thesis
    proof (cases "mem_get table key")
      case None
      note step = build_routes_step [OF Some [unfolded row] None, of index routes]
      from None have fresh: "key \<notin> fst ` set (mem_routes table)" by (simp add: mem_get_None)
      show ?thesis
        unfolding step Cons.IH
        using fresh Some row
        by (auto simp: Cons_eq_map_conv mem_insert_def update_fresh)
    next
      case (Some b')
      have "\<not> is_ok (build_routes index table (route # routes) :: (in_memory_lookup, 'a config_error) result)"
        using Some \<open>parse_route route = Some row\<close> row
        by (simp add: parse_route_Some mem_insert_def mem_get_def)
      moreover have "key \<in> fst ` set (mem_routes table)"
        using Some mem_get_None [of table key] by simp
      ultimately show ?thesis
        using \<open>parse_route route = Some row\<close> row by (auto simp: is_ok_iff Cons_eq_map_conv)
    qed
  qed
qed auto

lemma build_route_table_Ok:
  "build_route_table routes = Ok t \<longleftrightarrow>
   (\<exists>rows. map parse_route routes = map Some rows \<and> distinct (map fst rows) \<and>
      t = \<lparr>mem_routes = rows\<rparr>)"
  by (simp add: build_route_table_def build_routes_Ok mem_new_def)

text \<open>The first offending route decides which error is reported.\<close>

lemma build_routes_Err:
  "build_routes index table routes = Err e \<Longrightarrow>
   \<exists>before route after t. routes = before @ route # after \<and>
     build_routes index table before = (Ok t :: (in_memory_lookup, 't config_error) result) \<and>
     ((\<exists>x. route_key_parse (raw_hostname route) = Err x \<and>
        e = InvalidRouteHostname (index + length before) (raw_hostname route) x) \<or>
      (\<exists>key x. route_key_parse (raw_hostname route) = Ok key \<and>
        backend_from_str (raw_backend route) = Err x \<and>
        e = InvalidRouteBackend (index + length before) (raw_backend route) x) \<or>
      (\<exists>key b. parse_route route = Some (key, b) \<and> mem_get t key \<noteq> None \<and>
        e = DuplicateRoute (key_text key)))"
proof (induction routes arbitrary: index table)
  case (Cons route routes)
  show ?case
  proof (cases "\<exists>key b. parse_route route = Some (key, b) \<and> mem_get table key = None")
    case True
    then obtain key b where kb: "parse_route route = Some (key, b)" "mem_get table key = None" by blast
    note step = build_routes_step [OF kb]
    from Cons.prems have "build_routes (index + 1) (snd (mem_insert table key b)) routes = Err e"
      by (simp only: step)
    from Cons.IH [OF this] obtain before route' after t where
      r: "routes = before @ route' # after"
        "build_routes (index + 1) (snd (mem_insert table key b)) before =
           (Ok t :: (in_memory_lookup, 't config_error) result)"
        "(\<exists>x. route_key_parse (raw_hostname route') = Err x \<and>
            e = InvalidRouteHostname (index + 1 + length before) (raw_hostname route') x) \<or>
         (\<exists>key x. route_key_parse (raw_hostname route') = Ok key \<and>
            backend_from_str (raw_backend route') = Err x \<and>
            e = InvalidRouteBackend (index + 1 + length before) (raw_backend route') x) \<or>
         (\<exists>key b. parse_route route' = Some (key, b) \<and> mem_get t key \<noteq> None \<and>
            e = DuplicateRoute (key_text key))"
      by blast
    show ?thesis
      by (rule exI [of _ "route # before"], rule exI [of _ route'], rule exI [of _ after], rule exI [of _ t])
        (use r in \<open>simp add: step del: build_routes.simps\<close>)
  next
    case False
    with Cons.prems show ?thesis
      by (intro exI [of _ "[]"] exI [of _ route] exI [of _ routes] exI [of _ table])
        (auto simp: parse_route_def mem_insert_def mem_get_def Let_def split: result.splits if_splits)
  qed
qed simp

section \<open>Properties\<close>

text \<open>C30 (config\_server\_checked): the server section is accepted exactly when it has listen addresses,
none of them twice, and every number is within its range, and then it is carried over
unchanged; otherwise the error names the missing or the first repeated address, or the
first field out of range with its bounds.\<close>

theorem config_server_checked:
  "case (raw_server_validate raw :: (server_config, 't config_error) result) of
     Ok cfg \<Rightarrow>
       raw_listen raw \<noteq> [] \<and> distinct (raw_listen raw) \<and> list_all field_ok (server_fields raw) \<and>
       cfg = server_of raw
   | Err e \<Rightarrow>
       e = NoListenAddresses \<and> raw_listen raw = [] \<or>
       (\<exists>before a after. raw_listen raw = before @ a # after \<and> distinct before \<and> a \<in> set before \<and>
          e = DuplicateListenAddress a) \<or>
       (\<exists>before field v lo hi after. raw_listen raw \<noteq> [] \<and> distinct (raw_listen raw) \<and>
          server_fields raw = before @ (field, v, lo, hi) # after \<and> list_all field_ok before \<and>
          (v < lo \<or> hi < v) \<and> e = OutOfRange field lo hi)"
proof (cases "raw_server_validate raw :: (server_config, 't config_error) result")
  case (Ok cfg)
  with raw_server_validate_Ok [THEN iffD1, OF Ok] show ?thesis by simp
next
  case (Err e)
  show ?thesis
  proof (cases "raw_listen raw = []")
    case True
    with Err show ?thesis by (simp add: raw_server_validate_reference)
  next
    case listen: False
    show ?thesis
    proof (cases "first_duplicate [] (raw_listen raw)")
      case (Some a)
      with Err listen have "e = DuplicateListenAddress a" by (simp add: raw_server_validate_reference)
      with Err Some show ?thesis by (cases a) (fastforce simp: first_duplicate_Some)
    next
      case None
      with Err listen obtain x where
        "find (\<lambda>x. \<not> field_ok x) (server_fields raw) = Some x" "e = field_error x"
        by (auto simp: raw_server_validate_reference split: option.splits)
      with Err listen None show ?thesis
        by (cases x) (fastforce simp: find_Some_split first_duplicate_None not_le)
    qed
  qed
qed

text \<open>The defaults of the file are the defaults of the library: an empty
server section gives \<open>RouterConfig::default\<close>, and the default admin section is accepted.\<close>

theorem config_defaults_round_trip:
  "raw_server_validate raw_server_default =
     Ok \<lparr>srv_listen = [(V4 [0, 0, 0, 0], 8080)], srv_router = router_config_default\<rparr> \<and>
   raw_admin_validate raw_admin_default =
     Ok \<lparr>adm_listen = (V4 [127, 0, 0, 1], 8081), adm_health_path = ''/health''\<rparr>"
  by (fact raw_defaults_accepted)

text \<open>C38 (config\_limits\_sane): every accepted server section keeps the limits the delivery code relies on:
a slot to accept into, deadlines that are positive and at most an hour, an idle timeout that
is absent or positive, at least one DNS lookup, a copy buffer above the least the proxy uses,
and a hello buffer of at most 66820 bytes.\<close>

theorem config_limits_sane:
  assumes "raw_server_validate raw = Ok cfg"
  shows "1 \<le> rc_max_connections (srv_router cfg) \<and>
    list_all (\<lambda>d. 0 < d \<and> d \<le> from_secs 3600)
      [rc_client_hello_timeout (srv_router cfg), rc_lookup_timeout (srv_router cfg),
       rc_upstream_timeout (srv_router cfg)] \<and>
    rc_idle_timeout (srv_router cfg) \<noteq> Some 0 \<and>
    rc_shutdown_grace (srv_router cfg) \<le> from_secs 3600 \<and>
    1 \<le> rc_max_concurrent_dns_lookups (srv_router cfg) \<and>
    max (rc_copy_buffer_size (srv_router cfg)) 512 = rc_copy_buffer_size (srv_router cfg) \<and>
    max_wire_bytes (rc_hello_limits (srv_router cfg)) \<le> 66820"
  using assms
  by (auto simp: raw_server_validate_Ok server_fields_def server_of_def from_millis_def from_secs_def
      NANOS_def max_wire_bytes_def HANDSHAKE_HEADER_LEN_def RECORD_HEADER_LEN_def)

theorem config_limits_sane_witness:
  "1 \<le> rc_max_connections router_config_default \<and>
   max_wire_bytes (rc_hello_limits router_config_default) \<le> 66820"
proof -
  have "raw_server_validate (raw_server_default\<lparr>raw_client_hello_timeout_ms := 5000,
      raw_lookup_timeout_ms := 2000, raw_upstream_timeout_ms := 5000, raw_idle_timeout_secs := 1800,
      raw_shutdown_grace_secs := 30, raw_dns_cache_ttl_secs := 30\<rparr>) =
    Ok \<lparr>srv_listen = [(V4 [0, 0, 0, 0], 8080)], srv_router = router_config_default\<rparr>"
    by (simp add: raw_server_validate_Ok raw_server_default_def server_fields_def server_of_def
        router_config_default_def hello_limits_default_def from_millis_def from_secs_def NANOS_def Let_def)
  from config_limits_sane [OF this] show ?thesis by simp
qed

text \<open>C31 (config\_routes\_checked): the route table is built exactly when every host name and backend
parses and no two routes have the same key, and then it holds these routes and no others;
otherwise the error is that of the first offending route, with its index.\<close>

theorem config_routes_checked:
  "case (build_route_table routes :: (in_memory_lookup, 't config_error) result) of
     Ok t \<Rightarrow>
       (\<exists>rows. map parse_route routes = map Some rows \<and> distinct (map fst rows) \<and>
          (\<forall>key b. mem_get t key = Some b \<longleftrightarrow> (key, b) \<in> set rows))
   | Err e \<Rightarrow>
       (\<exists>before route after t. routes = before @ route # after \<and>
          build_route_table before = (Ok t :: (in_memory_lookup, 't config_error) result) \<and>
          ((\<exists>x. route_key_parse (raw_hostname route) = Err x \<and>
             e = InvalidRouteHostname (length before) (raw_hostname route) x) \<or>
           (\<exists>key x. route_key_parse (raw_hostname route) = Ok key \<and>
             backend_from_str (raw_backend route) = Err x \<and>
             e = InvalidRouteBackend (length before) (raw_backend route) x) \<or>
           (\<exists>key b previous. parse_route route = Some (key, b) \<and> mem_get t key = Some previous \<and>
             e = DuplicateRoute (key_text key))))"
proof (cases "build_route_table routes :: (in_memory_lookup, 't config_error) result")
  case (Ok t)
  from build_route_table_Ok [THEN iffD1, OF Ok] obtain rows where
    "map parse_route routes = map Some rows" "distinct (map fst rows)" "t = \<lparr>mem_routes = rows\<rparr>"
    by blast
  with Ok show ?thesis by (auto simp: mem_get_def)
next
  case (Err e)
  with build_routes_Err [of 0 mem_new routes e] show ?thesis
    by (simp add: build_route_table_def)
qed

end
