(* ===== verification/Route_File.thy ===== *)
theory Route_File
  imports App_Config
begin

text \<open>
  The swappable route table (\<open>FileRouteLookup\<close> of \<open>config/routes.rs\<close>) and its reload on SIGHUP
  (\<open>reload.rs\<close>). A lookup takes one snapshot under the read lock, so the state is the table
  behind the lock. The file system and the TOML reader are arguments, as in \<open>App_Config\<close>.
\<close>

section \<open>The swappable table\<close>

record file_route_lookup =
  fl_table :: in_memory_lookup

definition file_new :: "in_memory_lookup \<Rightarrow> file_route_lookup" where
  "file_new table = \<lparr>fl_table = table\<rparr>"

definition file_replace :: "file_route_lookup \<Rightarrow> in_memory_lookup \<Rightarrow> file_route_lookup" where
  "file_replace lookup table = lookup\<lparr>fl_table := table\<rparr>"

definition file_snapshot :: "file_route_lookup \<Rightarrow> in_memory_lookup" where
  "file_snapshot lookup = fl_table lookup"

definition file_len :: "file_route_lookup \<Rightarrow> nat" where
  "file_len lookup = mem_len (file_snapshot lookup)"

definition file_is_empty :: "file_route_lookup \<Rightarrow> bool" where
  "file_is_empty lookup \<longleftrightarrow> file_len lookup = 0"

definition file_lookup :: "file_route_lookup \<Rightarrow> route_candidates \<Rightarrow> load_result" where
  "file_lookup lookup candidates = Ok (mem_hits (file_snapshot lookup) candidates)"

section \<open>Reloading\<close>

record startup_settings =
  startup_server :: server_config
  startup_admin :: admin_config

record reload_outcome =
  reloaded_routes :: nat
  ignored_restart_only_changes :: bool

definition reload_from_path ::
    "(string \<Rightarrow> (string, io_error) result) \<Rightarrow> (string \<Rightarrow> (raw_config, 't) result) \<Rightarrow> string \<Rightarrow>
     startup_settings \<Rightarrow> file_route_lookup \<Rightarrow>
     (reload_outcome, 't config_error) result \<times> file_route_lookup" where
  "reload_from_path read_file toml path startup lookup =
     (case app_config_load read_file toml path of
        Err e \<Rightarrow> (Err e, lookup)
      | Ok config \<Rightarrow>
          (let ignored = (app_server config \<noteq> startup_server startup \<or>
                          app_admin config \<noteq> startup_admin startup);
               routes = mem_len (app_routes config)
           in (Ok \<lparr>reloaded_routes = routes, ignored_restart_only_changes = ignored\<rparr>,
               file_replace lookup (app_routes config))))"

text \<open>
  What the reload task waits for, in the order it happens: the shutdown token, the end of the
  signal stream, or a SIGHUP, with the file system as it is then; \<open>HangupFailed\<close> is a SIGHUP
  whose blocking task died before it reached the table.
\<close>

datatype hangup =
    ShutdownFired
  | StreamEnded
  | Hangup "string \<Rightarrow> (string, io_error) result"
  | HangupFailed

fun sighup_loop ::
    "(string \<Rightarrow> (raw_config, 't) result) \<Rightarrow> string \<Rightarrow> startup_settings \<Rightarrow> hangup list \<Rightarrow>
     file_route_lookup \<Rightarrow> file_route_lookup" where
  "sighup_loop toml path startup [] lookup = lookup"
| "sighup_loop toml path startup (ShutdownFired # _) lookup = lookup"
| "sighup_loop toml path startup (StreamEnded # _) lookup = lookup"
| "sighup_loop toml path startup (Hangup read_file # events) lookup =
     sighup_loop toml path startup events
       (snd (reload_from_path read_file toml path startup lookup))"
| "sighup_loop toml path startup (HangupFailed # events) lookup =
     sighup_loop toml path startup events lookup"

text \<open>\<open>installed\<close>: whether the SIGHUP handler could be installed.\<close>

definition spawn_sighup_reload ::
    "bool \<Rightarrow> (string \<Rightarrow> (raw_config, 't) result) \<Rightarrow> string \<Rightarrow> startup_settings \<Rightarrow> hangup list \<Rightarrow>
     file_route_lookup \<Rightarrow> file_route_lookup" where
  "spawn_sighup_reload installed toml path startup events lookup =
     (if installed then sighup_loop toml path startup events lookup else lookup)"

section \<open>The table as a route store\<close>

definition file_hits :: "file_route_lookup \<Rightarrow> route_candidates \<Rightarrow> route_hits" where
  "file_hits lookup = mem_hits (file_snapshot lookup)"

definition file_get :: "file_route_lookup \<Rightarrow> route_key \<Rightarrow> backend option" where
  "file_get lookup = mem_get (file_snapshot lookup)"

lemma file_lookup_hits: "file_lookup lookup c = Ok (file_hits lookup c)"
  by (simp add: file_lookup_def file_hits_def)

interpretation route_file: route_store file_hits file_get
  by unfold_locales
    (auto simp: file_hits_def file_get_def key_simps dest: mem_hits_candidates)

section \<open>What a loaded file means\<close>

text \<open>The routes of a configuration that was accepted, as pairs of key and backend.\<close>

lemma app_config_load_Ok:
  "app_config_load read_file toml path = Ok config \<longleftrightarrow>
   (\<exists>source raw rows.
      read_file path = Ok source \<and> toml source = Ok raw \<and>
      raw_server_validate (raw_server raw) = (Ok (app_server config) :: (_, 't config_error) result) \<and>
      raw_admin_validate (raw_admin raw) = (Ok (app_admin config) :: (_, 't config_error) result) \<and>
      map parse_route (raw_routes raw) = map Some rows \<and> distinct (map fst rows) \<and>
      app_routes config = \<lparr>mem_routes = rows\<rparr>)"
  for toml :: "string \<Rightarrow> (raw_config, 't) result"
  by (cases config) (auto simp: app_config_load_def from_toml_str_def bind_ok_eq_Ok build_route_table_Ok)

lemma parsed_rows:
  assumes "map parse_route routes = map Some rows" "distinct (map fst rows)"
  shows "map_of rows key = Some b \<longleftrightarrow> (\<exists>route \<in> set routes. parse_route route = Some (key, b))"
proof -
  have "map_of rows key = Some b \<longleftrightarrow> (key, b) \<in> set rows" using assms(2) by simp
  also have "\<dots> \<longleftrightarrow> Some (key, b) \<in> set (map Some rows)" by auto
  also have "\<dots> \<longleftrightarrow> (\<exists>route \<in> set routes. parse_route route = Some (key, b))"
    unfolding assms(1) [symmetric] by (auto intro: image_eqI [of _ parse_route, OF sym])
  finally show ?thesis .
qed

lemma file_get_new: "file_get (file_new table) = mem_get table"
  by (simp add: file_get_def file_new_def file_snapshot_def)

lemma loaded_lookup:
  assumes "app_config_load read_file toml path = Ok config"
  obtains source raw where "read_file path = Ok source" "toml source = Ok raw"
    "\<And>key b. file_get (file_new (app_routes config)) key = Some b \<longleftrightarrow>
       (\<exists>route \<in> set (raw_routes raw). parse_route route = Some (key, b))"
    "\<And>key b. file_get (file_new (app_routes config)) key = Some b \<Longrightarrow> valid_route_key key"
proof -
  from app_config_load_Ok [THEN iffD1, OF assms] obtain source raw rows where
    r: "read_file path = Ok source" "toml source = Ok raw" "map parse_route (raw_routes raw) = map Some rows"
      "distinct (map fst rows)" "app_routes config = \<lparr>mem_routes = rows\<rparr>" by auto
  have get: "file_get (file_new (app_routes config)) key = Some b \<longleftrightarrow>
      (\<exists>route \<in> set (raw_routes raw). parse_route route = Some (key, b))" for key b
    using parsed_rows [OF r(3,4), of key b] r(5) by (simp add: file_get_new mem_get_def)
  moreover have "valid_route_key key" if "file_get (file_new (app_routes config)) key = Some b" for key b
    using that unfolding get by (auto simp: parse_route_Some route_key_parse_Ok_iff)
  ultimately show thesis using that r(1,2) by blast
qed

section \<open>Properties\<close>

text \<open>C5 (configured\_routing): once a file has been loaded, routing a host name over its table finds a
backend exactly when some \<open>[[routes]]\<close> entry covers the name, and it is the backend that
such an entry names; otherwise the answer is that the host is unknown.\<close>

theorem configured_routing:
  assumes "app_config_load read_file toml path = Ok config"
    and "read_file path = Ok source" "toml source = Ok raw"
  shows "case resolve_route (\<lambda>c. Done (file_lookup (file_new (app_routes config)) c)) h of
      Ok m \<Rightarrow> (\<exists>route \<in> set (raw_routes raw).
        parse_route route = Some (match_key m, match_backend m) \<and> key_matches (match_key m) h)
    | Err e \<Rightarrow> e = NotFound \<and>
        \<not> (\<exists>route \<in> set (raw_routes raw). \<exists>k b. parse_route route = Some (k, b) \<and> key_matches k h)"
proof -
  let ?s = "file_new (app_routes config)"
  have get: "file_get ?s key = Some b \<longleftrightarrow> (\<exists>route \<in> set (raw_routes raw). parse_route route = Some (key, b))"
    and valid: "file_get ?s key = Some b \<Longrightarrow> valid_route_key key" for key b
  proof -
    obtain source' raw' where "read_file path = Ok source'" "toml source' = Ok raw'"
      and loaded: "\<And>key b. file_get ?s key = Some b \<longleftrightarrow> (\<exists>route \<in> set (raw_routes raw'). parse_route route = Some (key, b))"
        "\<And>key b. file_get ?s key = Some b \<Longrightarrow> valid_route_key key"
      by (rule loaded_lookup [OF assms(1)]) (rule that)
    moreover from this assms(2,3) have "raw' = raw" by simp
    ultimately show "file_get ?s key = Some b \<longleftrightarrow> (\<exists>route \<in> set (raw_routes raw). parse_route route = Some (key, b))"
      and "file_get ?s key = Some b \<Longrightarrow> valid_route_key key"
      using loaded [of key b] by auto
  qed
  show ?thesis
  proof (cases "resolve_route (\<lambda>c. Done (file_lookup ?s c)) h")
    case (Ok m)
    then have "resolve_route (\<lambda>c. Done (Ok (file_hits ?s c))) h = Ok m" by (simp add: file_lookup_hits)
    from route_file.resolve_sound [OF _ this] valid
    have "file_get ?s (match_key m) = Some (match_backend m)" "key_matches (match_key m) h" by auto
    with Ok get show ?thesis by auto
  next
    case (Err e)
    have "e = NotFound"
      using Err
      by (cases "sel_matched (select_route (candidates_for_hostname h)
          (file_hits ?s (candidates_for_hostname h)))")
        (simp_all add: resolve_route_def file_lookup_hits Let_def)
    moreover have "\<not> (\<exists>k b. file_get ?s k = Some b \<and> key_matches k h)"
    proof
      assume "\<exists>k b. file_get ?s k = Some b \<and> key_matches k h"
      then obtain k b where "file_get ?s k = Some b" "key_matches k h" by blast
      from route_file.resolve_complete [OF _ this] valid Err show False
        by (auto simp: file_lookup_hits)
    qed
    ultimately show ?thesis using Err get by auto
  qed
qed

definition web_backend :: backend where
  "web_backend = \<lparr>backend_host = Dns ''web'', backend_port = 443\<rparr>"

definition demo_raw :: raw_config where
  "demo_raw = \<lparr>raw_server = raw_server_default, raw_admin = raw_admin_default,
     raw_routes = [\<lparr>raw_hostname = ''*.x.y'', raw_backend = ''web:443''\<rparr>]\<rparr>"

definition demo_app :: app_config where
  "demo_app =
     \<lparr>app_server = \<lparr>srv_listen = [(V4 [0, 0, 0, 0], 8080)], srv_router = router_config_default\<rparr>,
      app_admin = \<lparr>adm_listen = (V4 [127, 0, 0, 1], 8081), adm_health_path = ''/health''\<rparr>,
      app_routes = \<lparr>mem_routes = [(demo_key, web_backend)]\<rparr>\<rparr>"

lemma demo_route_parses:
  "parse_route \<lparr>raw_hostname = ''*.x.y'', raw_backend = ''web:443''\<rparr> = Some (demo_key, web_backend)"
proof -
  have "backend_display web_backend = ''web:443''" by code_simp
  moreover have "dns_name ''web''" by code_simp
  moreover have "parse_ip_addr ''web'' = None" by (rule parse_ip_addr_None) code_simp+
  ultimately have "backend_from_str ''web:443'' = Ok web_backend"
    using backend_round_trip_dns [of "''web''" 443] by (simp add: web_backend_def)
  with route_key_parse_valid [OF demo_key_valid] show ?thesis
    by (simp add: parse_route_Some) (simp add: demo_key_def)
qed

lemma demo_app_loads: "app_config_load (\<lambda>_. Ok ''demo'') (\<lambda>_. Ok demo_raw) path = Ok demo_app"
  unfolding app_config_load_Ok
  by (rule exI [of _ "''demo''"], rule exI [of _ demo_raw], rule exI [of _ "[(demo_key, web_backend)]"])
    (simp add: demo_raw_def demo_app_def demo_route_parses raw_defaults_accepted)

theorem configured_routing_witness:
  "is_ok (resolve_route (\<lambda>c. Done (file_lookup (file_new (app_routes demo_app)) c)) (Hostname ''w.x.y''))"
proof -
  have "key_matches demo_key (Hostname ''w.x.y'')"
    by (simp add: key_matches_def demo_key_def exI [of _ "''w''"])
  with configured_routing [OF demo_app_loads refl refl, of "Hostname ''w.x.y''"]
  show ?thesis
    by (auto simp: demo_raw_def demo_route_parses split: result.splits)
qed

text \<open>A reload either succeeds, and then the new table is exactly the file's and the
reported count is its size, or it fails with the error of the load and the table in use is
untouched; settings other than routes are never applied, only reported as ignored.\<close>

theorem reload_atomic:
  "case app_config_load read_file toml path of
     Ok config \<Rightarrow>
       file_snapshot (snd (reload_from_path read_file toml path startup lookup)) = app_routes config \<and>
       fst (reload_from_path read_file toml path startup lookup) =
         Ok \<lparr>reloaded_routes = card (dom (mem_get (app_routes config))),
             ignored_restart_only_changes =
               (\<lparr>startup_server = app_server config, startup_admin = app_admin config\<rparr> \<noteq> startup)\<rparr>
   | Err e \<Rightarrow>
       reload_from_path read_file toml path startup lookup = (Err e, lookup)"
proof (cases "app_config_load read_file toml path")
  case (Ok config)
  from app_config_load_Ok [THEN iffD1, OF Ok] have "mem_wf (app_routes config)"
    by (auto simp: mem_wf_def)
  with Ok show ?thesis
    by (cases startup) (auto simp: reload_from_path_def file_replace_def file_snapshot_def mem_len_wf Let_def)
qed (simp add: reload_from_path_def)

text \<open>The routes of the files that loaded, among the signals before the task stops.\<close>

fun stops_reload :: "hangup \<Rightarrow> bool" where
  "stops_reload ShutdownFired = True"
| "stops_reload StreamEnded = True"
| "stops_reload _ = False"

definition loaded_tables ::
    "(string \<Rightarrow> (raw_config, 't) result) \<Rightarrow> string \<Rightarrow> hangup list \<Rightarrow> in_memory_lookup list" where
  "loaded_tables toml path events =
     List.map_filter
       (\<lambda>event. case event of
          Hangup read_file \<Rightarrow>
            (case app_config_load read_file toml path of Ok config \<Rightarrow> Some (app_routes config) | Err _ \<Rightarrow> None)
        | _ \<Rightarrow> None)
       (takeWhile (\<lambda>event. \<not> stops_reload event) events)"

text \<open>C18 (sighup\_last\_valid\_file): whatever signals arrive and whatever the file holds at each of them, the
table in use is that of the last valid file seen before the task stopped, or the one it
started with if there was none.\<close>

theorem sighup_last_valid_file:
  "file_snapshot (sighup_loop toml path startup events lookup) =
     last (file_snapshot lookup # loaded_tables toml path events)"
proof (induction toml path startup events lookup rule: sighup_loop.induct)
  case (4 toml path startup read_file events lookup)
  then show ?case
    by (cases "app_config_load read_file toml path")
      (simp_all add: loaded_tables_def reload_from_path_def file_replace_def file_snapshot_def
        List.map_filter_def Let_def)
qed (simp_all add: loaded_tables_def List.map_filter_def)

end
