(* ===== verification/Proxy_Gate.thy ===== *)
theory Proxy_Gate
  imports Prelude
begin

text \<open>
  The gate between handshaking and proxying (\<open>delivery/gate.rs\<close>). Its operations run under
  one mutex, so a run of the program is a sequence of them; the step relation adds the
  connections that call them. A connection's pass is dropped when it leaves.
\<close>

section \<open>The gate\<close>

record gate_state =
  gate_closed :: bool
  gate_proxying :: nat
  gate_cancelled :: bool

definition gate_new :: gate_state where
  "gate_new = \<lparr>gate_closed = False, gate_proxying = 0, gate_cancelled = False\<rparr>"

definition gate_enter :: "gate_state \<Rightarrow> bool \<times> gate_state" where
  "gate_enter g =
     (if gate_closed g then (False, g) else (True, g\<lparr>gate_proxying := gate_proxying g + 1\<rparr>))"

definition gate_close :: "gate_state \<Rightarrow> nat \<times> gate_state" where
  "gate_close g = (gate_proxying g, g\<lparr>gate_closed := True, gate_cancelled := True\<rparr>)"

text \<open>\<open>Drop for ProxyPass\<close>; \<^term>\<open>None\<close> is the underflow of the counter.\<close>

definition pass_drop :: "gate_state \<Rightarrow> gate_state option" where
  "pass_drop g =
     (if gate_proxying g = 0 then None else Some (g\<lparr>gate_proxying := gate_proxying g - 1\<rparr>))"

section \<open>Connections racing shutdown\<close>

datatype phase = Handshaking | Proxying | Left | Refused

record gate_sys =
  gs_gate :: gate_state
  gs_phase :: "nat \<Rightarrow> phase"
  gs_conns :: "nat list"
  gs_reported :: "nat option"

definition gate_init :: gate_sys where
  "gate_init = \<lparr>gs_gate = gate_new, gs_phase = (\<lambda>_. Left), gs_conns = [], gs_reported = None\<rparr>"

definition proxying_conns :: "gate_sys \<Rightarrow> nat list" where
  "proxying_conns s = filter (\<lambda>c. gs_phase s c = Proxying) (gs_conns s)"

inductive gate_step :: "gate_sys \<Rightarrow> gate_sys \<Rightarrow> bool" where
  accept:
    "c \<notin> set (gs_conns s) \<Longrightarrow>
     gate_step s (s\<lparr>gs_conns := c # gs_conns s, gs_phase := (gs_phase s)(c := Handshaking)\<rparr>)"
| enter:
    "c \<in> set (gs_conns s) \<Longrightarrow> gs_phase s c = Handshaking \<Longrightarrow> gate_enter (gs_gate s) = (ok, g) \<Longrightarrow>
     gate_step s (s\<lparr>gs_gate := g, gs_phase := (gs_phase s)(c := if ok then Proxying else Refused)\<rparr>)"
| cancel:
    "c \<in> set (gs_conns s) \<Longrightarrow> gs_phase s c = Handshaking \<Longrightarrow>
     gate_step s (s\<lparr>gs_phase := (gs_phase s)(c := Refused)\<rparr>)"
| leave:
    "c \<in> set (gs_conns s) \<Longrightarrow> gs_phase s c = Proxying \<Longrightarrow> pass_drop (gs_gate s) = Some g \<Longrightarrow>
     gate_step s (s\<lparr>gs_gate := g, gs_phase := (gs_phase s)(c := Left)\<rparr>)"
| close:
    "gate_close (gs_gate s) = (n, g) \<Longrightarrow>
     gate_step s (s\<lparr>gs_gate := g,
       gs_reported := (case gs_reported s of None \<Rightarrow> Some n | Some m \<Rightarrow> Some m)\<rparr>)"

abbreviation gate_reachable :: "gate_sys \<Rightarrow> bool" where
  "gate_reachable \<equiv> gate_step\<^sup>*\<^sup>* gate_init"

definition gate_ok :: "gate_sys \<Rightarrow> bool" where
  "gate_ok s \<longleftrightarrow>
     distinct (gs_conns s) \<and> gate_proxying (gs_gate s) = length (proxying_conns s) \<and>
     gate_cancelled (gs_gate s) = gate_closed (gs_gate s) \<and>
     (gate_closed (gs_gate s) \<longleftrightarrow> gs_reported s \<noteq> None) \<and>
     (\<forall>n. gs_reported s = Some n \<longrightarrow> length (proxying_conns s) \<le> n)"

lemma length_filter_enter:
  assumes "distinct cs" "c \<in> set cs" "f c \<noteq> q"
  shows "length (filter (\<lambda>x. (f(c := q)) x = q) cs) = Suc (length (filter (\<lambda>x. f x = q) cs))"
  using assms
proof (induction cs)
  case (Cons x cs)
  show ?case
  proof (cases "x = c")
    case True
    with Cons.prems have "filter (\<lambda>y. (f(c := q)) y = q) cs = filter (\<lambda>y. f y = q) cs"
      by (auto intro: filter_cong)
    with True Cons.prems show ?thesis by simp
  qed (use Cons in auto)
qed simp

lemma length_filter_leave:
  assumes "distinct cs" "c \<in> set cs" "f c = q" "p \<noteq> q"
  shows "length (filter (\<lambda>x. f x = q) cs) = Suc (length (filter (\<lambda>x. (f(c := p)) x = q) cs))"
proof -
  have "(f(c := p))(c := q) = f" using assms(3) by auto
  then show ?thesis using length_filter_enter [of cs c "f(c := p)" q] assms by (simp del: fun_upd_apply)
      (simp add: assms(4))
qed

lemma filter_phase_other:
  assumes "f c \<noteq> q" "p \<noteq> q"
  shows "filter (\<lambda>x. (f(c := p)) x = q) cs = filter (\<lambda>x. f x = q) cs"
  using assms by (auto intro: filter_cong)

lemma gate_step_ok: "gate_step s s' \<Longrightarrow> gate_ok s \<Longrightarrow> gate_ok s'"
proof (induction rule: gate_step.induct)
  case (accept c s)
  then have "filter (\<lambda>x. ((gs_phase s)(c := Handshaking)) x = Proxying) (gs_conns s) =
      filter (\<lambda>x. gs_phase s x = Proxying) (gs_conns s)" by (auto intro: filter_cong)
  with accept show ?case by (simp add: gate_ok_def proxying_conns_def)
next
  case (enter c s ok g)
  show ?case
  proof (cases ok)
    case True
    with enter have "\<not> gate_closed (gs_gate s)" "g = (gs_gate s)\<lparr>gate_proxying := gate_proxying (gs_gate s) + 1\<rparr>"
      by (auto simp: gate_enter_def split: if_splits)
    with True enter length_filter_enter [of "gs_conns s" c "gs_phase s" Proxying] show ?thesis
      by (simp add: gate_ok_def proxying_conns_def)
  next
    case False
    with enter have "g = gs_gate s" by (auto simp: gate_enter_def split: if_splits)
    with False enter filter_phase_other [of "gs_phase s" c Proxying Refused "gs_conns s"] show ?thesis
      by (simp add: gate_ok_def proxying_conns_def)
  qed
next
  case (cancel c s)
  with filter_phase_other [of "gs_phase s" c Proxying Refused "gs_conns s"] show ?case
    by (simp add: gate_ok_def proxying_conns_def)
next
  case (leave c s g)
  then have "g = (gs_gate s)\<lparr>gate_proxying := gate_proxying (gs_gate s) - 1\<rparr>"
    by (auto simp: pass_drop_def split: if_splits)
  with leave length_filter_leave [of "gs_conns s" c "gs_phase s" Proxying Left] show ?case
    by (auto simp: gate_ok_def proxying_conns_def simp del: fun_upd_apply)
next
  case (close s n g)
  then show ?case
    by (auto simp: gate_ok_def proxying_conns_def gate_close_def split: option.splits)
qed

lemma gate_ok_init: "gate_ok gate_init"
  by (simp add: gate_ok_def gate_init_def gate_new_def proxying_conns_def)

lemma gate_reachable_ok: "gate_reachable s \<Longrightarrow> gate_ok s"
  by (induction rule: rtranclp_induct) (auto intro: gate_ok_init gate_step_ok)

lemma gate_step_closed:
  assumes "gate_step s s'" "gate_closed (gs_gate s)"
  shows "gate_closed (gs_gate s') \<and> set (proxying_conns s') \<subseteq> set (proxying_conns s)"
  using assms
  by (cases rule: gate_step.cases)
    (auto simp: proxying_conns_def gate_enter_def pass_drop_def gate_close_def split: if_splits)

lemma gate_steps_closed:
  "gate_step\<^sup>*\<^sup>* s s' \<Longrightarrow> gate_closed (gs_gate s) \<Longrightarrow>
   gate_closed (gs_gate s') \<and> set (proxying_conns s') \<subseteq> set (proxying_conns s)"
  by (induction rule: rtranclp_induct) (use gate_step_closed in \<open>blast+\<close>)

section \<open>Properties\<close>

text \<open>In every run the gate's counter is the number of connections that
are proxying, dropping a pass never underflows it, and handshakes are cancelled exactly
when the gate is closed.\<close>

theorem gate_counts_passes:
  assumes "gate_reachable s"
  shows "gate_proxying (gs_gate s) = length (proxying_conns s) \<and>
    (proxying_conns s \<noteq> [] \<longrightarrow> pass_drop (gs_gate s) \<noteq> None) \<and>
    gate_cancelled (gs_gate s) = gate_closed (gs_gate s)"
  using gate_reachable_ok [OF assms] by (simp add: gate_ok_def pass_drop_def)

definition demo_gate :: gate_sys where
  "demo_gate = gate_init\<lparr>gs_conns := [7], gs_phase := (\<lambda>_. Left)(7 := Proxying),
     gs_gate := \<lparr>gate_closed = False, gate_proxying = 1, gate_cancelled = False\<rparr>\<rparr>"

lemma demo_gate_reachable: "gate_reachable demo_gate"
proof -
  let ?s = "gate_init\<lparr>gs_conns := [7], gs_phase := (\<lambda>_. Left)(7 := Handshaking)\<rparr>"
  have "gate_step gate_init ?s"
    using gate_step.accept [of 7 gate_init] by (simp add: gate_init_def)
  moreover have "gate_step ?s demo_gate"
  proof -
    have "gate_enter (gs_gate ?s) = (True, \<lparr>gate_closed = False, gate_proxying = 1, gate_cancelled = False\<rparr>)"
      by (simp add: gate_enter_def gate_init_def gate_new_def)
    from gate_step.enter [OF _ _ this, of 7] show ?thesis by (simp add: demo_gate_def gate_init_def)
  qed
  ultimately show ?thesis by (meson rtranclp.rtrancl_into_rtrancl rtranclp.rtrancl_refl)
qed

theorem gate_counts_passes_witness:
  "gate_proxying (gs_gate demo_gate) = 1 \<and> proxying_conns demo_gate \<noteq> [] \<and>
   pass_drop (gs_gate demo_gate) \<noteq> None"
proof -
  have "proxying_conns demo_gate = [7]" by (simp add: demo_gate_def proxying_conns_def)
  with gate_counts_passes [OF demo_gate_reachable] show ?thesis by simp
qed

text \<open>C21 (gate\_one\_side): a connection that races shutdown lands on exactly one side. Once the
gate is closed no connection starts proxying any more, and the connections still
proxying are among those the first \<open>close\<close> counted.\<close>

theorem gate_one_side:
  assumes "gate_reachable s" "gate_closed (gs_gate s)" "gate_step\<^sup>*\<^sup>* s s'"
  shows "fst (gate_enter (gs_gate s')) = False \<and>
    set (proxying_conns s') \<subseteq> set (proxying_conns s) \<and>
    (\<exists>n. gs_reported s' = Some n \<and> length (proxying_conns s') \<le> n)"
proof -
  have closed: "gate_closed (gs_gate s')" "set (proxying_conns s') \<subseteq> set (proxying_conns s)"
    using gate_steps_closed [OF assms(3,2)] by simp_all
  have "gate_ok s'" using assms(1,3) by (intro gate_reachable_ok) (rule rtranclp_trans)
  with closed show ?thesis by (auto simp: gate_ok_def gate_enter_def)
qed

theorem gate_one_side_witness:
  "\<exists>s :: gate_sys. gate_closed (gs_gate s) \<and> fst (gate_enter (gs_gate s)) = False \<and>
     (\<exists>n. gs_reported s = Some n \<and> length (proxying_conns s) \<le> n)"
proof -
  let ?s = "demo_gate\<lparr>gs_gate := (gs_gate demo_gate)\<lparr>gate_closed := True, gate_cancelled := True\<rparr>,
    gs_reported := Some 1\<rparr>"
  have "gate_step demo_gate ?s"
    using gate_step.close [of demo_gate 1 "(gs_gate demo_gate)\<lparr>gate_closed := True, gate_cancelled := True\<rparr>"]
    by (simp add: gate_close_def) (simp add: demo_gate_def gate_init_def)
  then have "gate_reachable ?s" using demo_gate_reachable by (rule rtranclp.rtrancl_into_rtrancl [rotated])
  moreover have "gate_closed (gs_gate ?s)" by simp
  ultimately have "fst (gate_enter (gs_gate ?s)) = False \<and>
      (\<exists>n. gs_reported ?s = Some n \<and> length (proxying_conns ?s) \<le> n)"
    using gate_one_side [of ?s ?s] by blast
  with \<open>gate_closed (gs_gate ?s)\<close> show ?thesis by blast
qed

end
