(* ===== verification/Server.thy ===== *)
theory Server
  imports Proxy_Gate
begin

text \<open>
  The accept loop and the shutdown of \<open>Router::serve\<close> (\<open>delivery/server.rs\<close>). The program's
  tasks (the accept loop, one task per connection, \<open>serve\<close> itself) interleave as the steps of
  \<open>server_step\<close>; a connection is the two phases shutdown distinguishes, handshaking and
  proxying. The steps the program takes on its own, by its code, its timers and the tokens it
  cancels, are \<open>server_own_step\<close>: in these a handshaking connection ends because the gate
  has cancelled it and a proxied one because \<open>serve\<close> has forced it. That peers connect, close or
  fail is left to the other steps of \<open>server_step\<close>, on which no promise may rest. Listeners are
  indices; which of them have a connection waiting is an argument of the step that polls them.
\<close>

section \<open>Accepting from any listener\<close>

fun accept_scan ::
    "nat \<Rightarrow> (nat \<Rightarrow> 'r option) \<Rightarrow> nat \<Rightarrow> nat list \<Rightarrow> (nat \<times> 'r \<times> nat) option" where
  "accept_scan count poll_accept next_index [] = None"
| "accept_scan count poll_accept next_index (offset # offsets) =
     (let index = (next_index + offset) mod count
      in case poll_accept index of
           Some accepted \<Rightarrow> Some (index, accepted, (index + 1) mod count)
         | None \<Rightarrow> accept_scan count poll_accept next_index offsets)"

text \<open>The index that was accepted from, the outcome, and where the next poll starts; \<^term>\<open>None\<close> is pending.\<close>

definition accept_any :: "nat \<Rightarrow> (nat \<Rightarrow> 'r option) \<Rightarrow> nat \<Rightarrow> (nat \<times> 'r \<times> nat) option" where
  "accept_any count poll_accept next_index = accept_scan count poll_accept next_index [0..<count]"

text \<open>The listeners successive accepts take from, each with its own readiness.\<close>

fun accept_run :: "nat \<Rightarrow> (nat \<Rightarrow> 'r option) list \<Rightarrow> nat \<Rightarrow> nat list" where
  "accept_run count [] next_index = []"
| "accept_run count (poll_accept # polls) next_index =
     (case accept_any count poll_accept next_index of
        None \<Rightarrow> accept_run count polls next_index
      | Some (index, _, next_index') \<Rightarrow> index # accept_run count polls next_index')"

section \<open>The server as a transition system\<close>

datatype loop_pc = WantSlot | HasSlot | BackingOff | LoopEnded

datatype serve_pc = ServeAccepting | ServeDraining | ServeForcing | ServeReturned

text \<open>A task is a connection with a flag: whether it holds a pass of the gate.\<close>

record server_sys =
  sv_free :: nat
  sv_loop :: loop_pc
  sv_next :: nat
  sv_tasks :: "(nat \<times> bool) list"
  sv_spawned :: nat
  sv_gate :: gate_state
  sv_shutdown :: bool
  sv_forced :: bool
  sv_serve :: serve_pc

definition serve_init :: "nat \<Rightarrow> server_sys" where
  "serve_init max_connections =
     \<lparr>sv_free = max_connections, sv_loop = WantSlot, sv_next = 0, sv_tasks = [], sv_spawned = 0,
      sv_gate = gate_new, sv_shutdown = False, sv_forced = False, sv_serve = ServeAccepting\<rparr>"

inductive server_own_step :: "server_sys \<Rightarrow> server_sys \<Rightarrow> bool" where
  backoff_over:
    "sv_loop s = BackingOff \<Longrightarrow> server_own_step s (s\<lparr>sv_loop := WantSlot\<rparr>)"
| loop_stops:
    "sv_shutdown s \<Longrightarrow> sv_loop s \<noteq> LoopEnded \<Longrightarrow>
     server_own_step s
       (s\<lparr>sv_free := sv_free s + (if sv_loop s = HasSlot then 1 else 0), sv_loop := LoopEnded\<rparr>)"
| close:
    "sv_serve s = ServeAccepting \<Longrightarrow> sv_shutdown s \<Longrightarrow> sv_loop s = LoopEnded \<Longrightarrow>
     gate_close (sv_gate s) = (proxying, g) \<Longrightarrow>
     server_own_step s (s\<lparr>sv_gate := g, sv_serve := ServeDraining\<rparr>)"
| handshake_cancelled:
    "(c, False) \<in> set (sv_tasks s) \<Longrightarrow> gate_cancelled (sv_gate s) \<Longrightarrow>
     server_own_step s
       (s\<lparr>sv_free := sv_free s + 1, sv_tasks := remove1 (c, False) (sv_tasks s)\<rparr>)"
| grace_over:
    "sv_serve s = ServeDraining \<Longrightarrow> sv_tasks s \<noteq> [] \<Longrightarrow>
     server_own_step s (s\<lparr>sv_forced := True, sv_serve := ServeForcing\<rparr>)"
| proxy_forced:
    "(c, True) \<in> set (sv_tasks s) \<Longrightarrow> sv_forced s \<Longrightarrow> pass_drop (sv_gate s) = Some g \<Longrightarrow>
     server_own_step s
       (s\<lparr>sv_gate := g, sv_free := sv_free s + 1, sv_tasks := remove1 (c, True) (sv_tasks s)\<rparr>)"
| returns:
    "sv_serve s \<in> {ServeDraining, ServeForcing} \<Longrightarrow> sv_tasks s = [] \<Longrightarrow>
     server_own_step s (s\<lparr>sv_serve := ServeReturned\<rparr>)"

text \<open>Everything that happens: the program's own steps, and what its peers and the signal bring.\<close>

inductive server_step :: "nat \<Rightarrow> server_sys \<Rightarrow> server_sys \<Rightarrow> bool" for listeners :: nat where
  own: "server_own_step s s' \<Longrightarrow> server_step listeners s s'"
| shutdown: "server_step listeners s (s\<lparr>sv_shutdown := True\<rparr>)"
| acquire:
    "sv_loop s = WantSlot \<Longrightarrow> \<not> sv_shutdown s \<Longrightarrow> 0 < sv_free s \<Longrightarrow>
     server_step listeners s (s\<lparr>sv_free := sv_free s - 1, sv_loop := HasSlot\<rparr>)"
| accept:
    "sv_loop s = HasSlot \<Longrightarrow> \<not> sv_shutdown s \<Longrightarrow>
     accept_any listeners poll_accept (sv_next s) = Some (index, True, next_index) \<Longrightarrow>
     server_step listeners s
       (s\<lparr>sv_next := next_index, sv_tasks := (sv_spawned s, False) # sv_tasks s,
          sv_spawned := sv_spawned s + 1, sv_loop := WantSlot\<rparr>)"
| accept_failed:
    "sv_loop s = HasSlot \<Longrightarrow> \<not> sv_shutdown s \<Longrightarrow>
     accept_any listeners poll_accept (sv_next s) = Some (index, False, next_index) \<Longrightarrow>
     server_step listeners s
       (s\<lparr>sv_next := next_index, sv_free := sv_free s + 1, sv_loop := BackingOff\<rparr>)"
| enter:
    "(c, False) \<in> set (sv_tasks s) \<Longrightarrow> gate_enter (sv_gate s) = (True, g) \<Longrightarrow>
     server_step listeners s
       (s\<lparr>sv_gate := g, sv_tasks := (c, True) # remove1 (c, False) (sv_tasks s)\<rparr>)"
| handshake_ends:
    "(c, False) \<in> set (sv_tasks s) \<Longrightarrow>
     server_step listeners s
       (s\<lparr>sv_free := sv_free s + 1, sv_tasks := remove1 (c, False) (sv_tasks s)\<rparr>)"
| proxy_ends:
    "(c, True) \<in> set (sv_tasks s) \<Longrightarrow> pass_drop (sv_gate s) = Some g \<Longrightarrow>
     server_step listeners s
       (s\<lparr>sv_gate := g, sv_free := sv_free s + 1, sv_tasks := remove1 (c, True) (sv_tasks s)\<rparr>)"

abbreviation server_reachable :: "nat \<Rightarrow> nat \<Rightarrow> server_sys \<Rightarrow> bool" where
  "server_reachable listeners max_connections \<equiv> (server_step listeners)\<^sup>*\<^sup>* (serve_init max_connections)"

section \<open>Fairness of accepting\<close>

lemma accept_scan_Some:
  assumes "accept_scan count poll_accept start offsets = Some (index, accepted, start')"
  shows "\<exists>before offset after. offsets = before @ offset # after \<and> index = (start + offset) mod count \<and>
    start' = (index + 1) mod count \<and> poll_accept index = Some accepted \<and>
    (\<forall>x \<in> set before. poll_accept ((start + x) mod count) = None)"
  using assms
proof (induction offsets)
  case (Cons x xs)
  show ?case
  proof (cases "poll_accept ((start + x) mod count)")
    case None
    with Cons obtain before offset after where "xs = before @ offset # after"
      "index = (start + offset) mod count" "start' = (index + 1) mod count" "poll_accept index = Some accepted"
      "\<forall>x \<in> set before. poll_accept ((start + x) mod count) = None" by (auto simp: Let_def)
    with None show ?thesis by (intro exI [of _ "x # before"]) auto
  next
    case (Some r)
    with Cons.prems show ?thesis by (intro exI [of _ "[]"]) (auto simp: Let_def)
  qed
qed simp

lemma accept_scan_None:
  "accept_scan count poll_accept start offsets = None \<longleftrightarrow>
   (\<forall>x \<in> set offsets. poll_accept ((start + x) mod count) = None)"
  by (induction offsets) (auto simp: Let_def split: option.splits)

lemma upt_split_nth: "[0..<n] = before @ x # after \<Longrightarrow> before = [0..<x] \<and> x < n"
proof -
  assume split: "[0..<n] = before @ x # after"
  from arg_cong [OF split, of length] have n: "length before < n" by simp
  from arg_cong [OF split, of "\<lambda>xs. xs ! length before"] n have x: "x = length before" by simp
  have "before = take (length before) [0..<n]" unfolding split by simp
  also have "\<dots> = [0..<x]" unfolding x using n by (simp add: take_upt)
  finally show ?thesis using n unfolding x [symmetric] by (rule conjI)
qed

text \<open>A ready listener \<open>i\<close> at distance \<open>k\<close> is taken, or the distance shrinks.\<close>

lemma accept_any_distance:
  assumes "start < count" "k < count" "i = (start + k) mod count" "poll_accept i \<noteq> None"
  shows "\<exists>index accepted start'. accept_any count poll_accept start = Some (index, accepted, start') \<and>
    start' < count \<and> (index = i \<or> (\<exists>k' < k. i = (start' + k') mod count))"
proof -
  have "accept_any count poll_accept start \<noteq> None"
    using assms by (auto simp: accept_any_def accept_scan_None)
  then obtain index accepted start' where some: "accept_any count poll_accept start = Some (index, accepted, start')"
    by auto
  from accept_scan_Some [OF some [unfolded accept_any_def]] obtain before offset after where
    split: "[0..<count] = before @ offset # after" "index = (start + offset) mod count"
      "start' = (index + 1) mod count" "\<forall>x \<in> set before. poll_accept ((start + x) mod count) = None"
    by blast
  have "\<not> k < offset"
  proof
    assume "k < offset"
    with upt_split_nth [OF split(1)] have "k \<in> set before" by simp
    with split(4) assms(3,4) show False by simp
  qed
  then have "offset \<le> k" by simp
  have "start' < count" using assms(1) split(3) by simp
  moreover have "index = i \<or> (\<exists>k' < k. i = (start' + k') mod count)"
  proof (cases "offset = k")
    case False
    with \<open>offset \<le> k\<close> have "k - offset - 1 < k" by linarith
    moreover have "(start' + (k - offset - 1)) mod count = (start + k) mod count"
    proof -
      have "(start' + (k - offset - 1)) mod count = ((start + offset) + 1 + (k - offset - 1)) mod count"
        unfolding split(2,3) by (simp add: mod_simps)
      also have "(start + offset) + 1 + (k - offset - 1) = start + k" using \<open>offset \<le> k\<close> False by simp
      finally show ?thesis .
    qed
    ultimately show ?thesis using assms(3) by metis
  qed (use assms(3) split(2) in simp)
  ultimately show ?thesis using some by blast
qed

lemma accept_run_fair:
  assumes "list_all (\<lambda>poll_accept. poll_accept i \<noteq> None) polls" "k < length polls" "k < count"
    "start < count" "i = (start + k) mod count"
  shows "i \<in> set (accept_run count polls start)"
  using assms
proof (induction polls arbitrary: start k)
  case (Cons p polls)
  from accept_any_distance [OF Cons.prems(4,3,5), of p] Cons.prems(1) obtain index accepted start' where
    a: "accept_any count p start = Some (index, accepted, start')" "start' < count"
      "index = i \<or> (\<exists>k' < k. i = (start' + k') mod count)" by auto
  show ?case
  proof (cases "index = i")
    case False
    with a(3) obtain k' where "k' < k" "i = (start' + k') mod count" by blast
    with Cons.IH [of k' start'] Cons.prems a(1,2) show ?thesis by simp
  qed (use a(1) in simp)
qed simp

section \<open>The invariant\<close>

definition held_by_loop :: "server_sys \<Rightarrow> nat" where
  "held_by_loop s = (if sv_loop s = HasSlot then 1 else 0)"

lemma server_own_slots:
  assumes "server_own_step s s'"
  shows "sv_free s' + held_by_loop s' + length (sv_tasks s') =
    sv_free s + held_by_loop s + length (sv_tasks s)"
  using assms
proof cases
  case (handshake_cancelled c)
  with length_remove1_mem [OF handshake_cancelled(2)] show ?thesis by (simp add: held_by_loop_def)
next
  case (proxy_forced c g)
  with length_remove1_mem [OF proxy_forced(2)] show ?thesis by (simp add: held_by_loop_def)
qed (simp_all add: held_by_loop_def)

lemma server_step_slots:
  assumes "server_step listeners s s'"
  shows "sv_free s' + held_by_loop s' + length (sv_tasks s') =
    sv_free s + held_by_loop s + length (sv_tasks s)"
  using assms
proof cases
  case own
  then show ?thesis by (rule server_own_slots)
next
  case (enter c g)
  with length_remove1_mem [OF enter(2)] show ?thesis by (simp add: held_by_loop_def)
next
  case (handshake_ends c)
  with length_remove1_mem [OF handshake_ends(2)] show ?thesis by (simp add: held_by_loop_def)
next
  case (proxy_ends c g)
  with length_remove1_mem [OF proxy_ends(2)] show ?thesis by (simp add: held_by_loop_def)
qed (simp_all add: held_by_loop_def)

interpretation serve_pool: slot_pool "server_step listeners" sv_free held_by_loop "length \<circ> sv_tasks"
  for listeners
  by unfold_locales (simp add: server_step_slots)

definition server_ok :: "server_sys \<Rightarrow> bool" where
  "server_ok s \<longleftrightarrow>
     gate_proxying (sv_gate s) = length (filter snd (sv_tasks s)) \<and>
     (gate_closed (sv_gate s) \<longleftrightarrow> sv_serve s \<noteq> ServeAccepting) \<and>
     (gate_cancelled (sv_gate s) \<longleftrightarrow> gate_closed (sv_gate s)) \<and>
     (sv_loop s = LoopEnded \<longrightarrow> sv_shutdown s) \<and>
     (sv_serve s \<noteq> ServeAccepting \<longrightarrow> sv_loop s = LoopEnded) \<and>
     (sv_serve s \<in> {ServeAccepting, ServeDraining} \<longrightarrow> \<not> sv_forced s) \<and>
     (sv_serve s = ServeForcing \<longrightarrow> sv_forced s) \<and>
     (sv_serve s = ServeReturned \<longrightarrow> sv_tasks s = [])"

lemma server_ok_init: "server_ok (serve_init max_connections)"
  by (simp add: server_ok_def serve_init_def gate_new_def)

lemma server_own_ok:
  assumes "server_own_step s s'" "server_ok s"
  shows "server_ok s'"
  using assms(1)
proof cases
  case (handshake_cancelled c)
  with assms(2) length_filter_remove1 [OF handshake_cancelled(2), of snd] length_remove1_mem [OF handshake_cancelled(2)]
  show ?thesis by (auto simp: server_ok_def)
next
  case (proxy_forced c g)
  with assms(2) length_filter_remove1 [OF proxy_forced(2), of snd] length_remove1_mem [OF proxy_forced(2)]
  show ?thesis by (auto simp: server_ok_def pass_drop_def split: if_splits)
qed (use assms(2) in \<open>auto simp: server_ok_def gate_close_def\<close>)

lemma server_step_ok:
  assumes "server_step listeners s s'" "server_ok s"
  shows "server_ok s'"
  using assms(1)
proof cases
  case own
  from server_own_ok [OF this assms(2)] show ?thesis .
next
  case (enter c g)
  with assms(2) length_filter_remove1 [OF enter(2), of snd] length_remove1_mem [OF enter(2)] show ?thesis
    by (auto simp: server_ok_def gate_enter_def split: if_splits)
next
  case (handshake_ends c)
  with assms(2) length_filter_remove1 [OF handshake_ends(2), of snd] length_remove1_mem [OF handshake_ends(2)]
  show ?thesis by (auto simp: server_ok_def)
next
  case (proxy_ends c g)
  with assms(2) length_filter_remove1 [OF proxy_ends(2), of snd] length_remove1_mem [OF proxy_ends(2)]
  show ?thesis by (auto simp: server_ok_def pass_drop_def split: if_splits)
qed (use assms(2) in \<open>auto simp: server_ok_def gate_close_def\<close>)

lemma server_own_run_ok: "server_own_step\<^sup>*\<^sup>* s s' \<Longrightarrow> server_ok s \<Longrightarrow> server_ok s'"
  by (induction rule: rtranclp_induct) (auto intro: server_own_ok)

lemma server_reachable_ok: "server_reachable listeners max_connections s \<Longrightarrow> server_ok s"
  by (induction rule: rtranclp_induct) (auto intro: server_ok_init server_step_ok)

section \<open>Shutdown\<close>

text \<open>How much is left to do before \<open>serve\<close> returns.\<close>

definition loop_work :: "loop_pc \<Rightarrow> nat" where
  "loop_work pc = (case pc of BackingOff \<Rightarrow> 2 | WantSlot \<Rightarrow> 1 | HasSlot \<Rightarrow> 1 | LoopEnded \<Rightarrow> 0)"

definition serve_work :: "serve_pc \<Rightarrow> nat" where
  "serve_work pc = (case pc of ServeAccepting \<Rightarrow> 3 | ServeDraining \<Rightarrow> 2 | ServeForcing \<Rightarrow> 1 | ServeReturned \<Rightarrow> 0)"

definition shutdown_work :: "server_sys \<Rightarrow> nat" where
  "shutdown_work s =
     loop_work (sv_loop s) + serve_work (sv_serve s) + length (sv_tasks s) +
     length (filter (\<lambda>t. \<not> snd t) (sv_tasks s))"

lemma shutdown_own_step:
  assumes "server_own_step s s'" "sv_shutdown s"
  shows "sv_shutdown s' \<and> shutdown_work s' < shutdown_work s"
  using assms(1)
proof cases
  case (handshake_cancelled c)
  with assms(2) length_filter_remove1 [OF handshake_cancelled(2), of "\<lambda>t. \<not> snd t"]
    length_remove1_mem [OF handshake_cancelled(2)]
  show ?thesis by (simp add: shutdown_work_def)
next
  case (proxy_forced c g)
  with assms(2) length_filter_remove1 [OF proxy_forced(2), of "\<lambda>t. \<not> snd t"]
    length_remove1_mem [OF proxy_forced(2)]
  show ?thesis by (simp add: shutdown_work_def)
qed (use assms(2) in \<open>auto simp: shutdown_work_def loop_work_def serve_work_def split: loop_pc.splits\<close>)

lemma shutdown_step:
  assumes "server_step listeners s s'" "sv_shutdown s" "s' \<noteq> s"
  shows "sv_shutdown s' \<and> shutdown_work s' < shutdown_work s"
  using assms(1)
proof cases
  case own
  from shutdown_own_step [OF this assms(2)] show ?thesis .
next
  case shutdown
  with assms(2,3) show ?thesis by simp
next
  case (enter c g)
  with assms(2) length_filter_remove1 [OF enter(2), of "\<lambda>t. \<not> snd t"] length_remove1_mem [OF enter(2)]
  show ?thesis by (simp add: shutdown_work_def)
next
  case (handshake_ends c)
  with assms(2) length_filter_remove1 [OF handshake_ends(2), of "\<lambda>t. \<not> snd t"]
    length_remove1_mem [OF handshake_ends(2)]
  show ?thesis by (simp add: shutdown_work_def)
next
  case (proxy_ends c g)
  with assms(2) length_filter_remove1 [OF proxy_ends(2), of "\<lambda>t. \<not> snd t"]
    length_remove1_mem [OF proxy_ends(2)]
  show ?thesis by (simp add: shutdown_work_def)
qed (use assms(2) in \<open>auto simp: shutdown_work_def loop_work_def serve_work_def split: loop_pc.splits\<close>)

text \<open>The connections left after the gate is closed: cancelled, drained for the grace period, forced.\<close>

lemma connections_end:
  assumes "server_ok s" "sv_serve s \<in> {ServeDraining, ServeForcing}"
  shows "\<exists>s'. server_own_step s s'"
proof (cases "sv_tasks s")
  case Nil
  from server_own_step.returns [OF assms(2) this] show ?thesis by blast
next
  case (Cons t ts)
  obtain c p where t: "t = (c, p)" by (cases t)
  consider (cancelled) "\<not> p" | (grace) "p" "sv_serve s = ServeDraining" | (forced) "p" "sv_serve s = ServeForcing"
    using assms(2) by auto
  then show ?thesis
  proof cases
    case cancelled
    with Cons t have "(c, False) \<in> set (sv_tasks s)" by simp
    moreover from assms have "gate_cancelled (sv_gate s)" by (auto simp: server_ok_def)
    ultimately show ?thesis by (blast intro: server_own_step.handshake_cancelled)
  next
    case grace
    from Cons have "sv_tasks s \<noteq> []" by simp
    with grace(2) show ?thesis by (blast intro: server_own_step.grace_over)
  next
    case forced
    with Cons t assms(1) have "(c, True) \<in> set (sv_tasks s)" "sv_forced s" "gate_proxying (sv_gate s) \<noteq> 0"
      by (auto simp: server_ok_def)
    moreover from this(3) obtain g where "pass_drop (sv_gate s) = Some g" by (simp add: pass_drop_def)
    ultimately show ?thesis by (blast intro: server_own_step.proxy_forced)
  qed
qed

lemma shutdown_not_stuck:
  assumes "server_ok s" "sv_shutdown s" "sv_serve s \<noteq> ServeReturned"
  shows "\<exists>s'. server_own_step s s'"
proof (cases "sv_serve s = ServeAccepting")
  case True
  show ?thesis
  proof (cases "sv_loop s = LoopEnded")
    case ended: True
    obtain n g where "gate_close (sv_gate s) = (n, g)" by fastforce
    from server_own_step.close [OF True assms(2) ended this] show ?thesis by blast
  qed (use assms(2) in \<open>blast intro: server_own_step.loop_stops\<close>)
next
  case False
  with assms(3) have "sv_serve s \<in> {ServeDraining, ServeForcing}" by (cases "sv_serve s") auto
  from connections_end [OF assms(1) this] show ?thesis .
qed

text \<open>So the server alone brings itself to the return of \<open>serve\<close>, whatever its peers do not do.\<close>

lemma shutdown_unaided:
  assumes "server_ok s" "sv_shutdown s"
  shows "\<exists>s'. server_own_step\<^sup>*\<^sup>* s s' \<and> sv_serve s' = ServeReturned"
  using assms
proof (induction "shutdown_work s" arbitrary: s rule: less_induct)
  case less
  show ?case
  proof (cases "sv_serve s = ServeReturned")
    case False
    from shutdown_not_stuck [OF less.prems False] obtain m where m: "server_own_step s m" by blast
    from shutdown_own_step [OF m less.prems(2)] less.hyps [of m] server_own_ok [OF m less.prems(1)]
    obtain s' where "server_own_step\<^sup>*\<^sup>* m s'" "sv_serve s' = ServeReturned" by blast
    with m show ?thesis by (blast intro: converse_rtranclp_into_rtranclp)
  qed blast
qed

definition effective_step :: "nat \<Rightarrow> server_sys \<Rightarrow> server_sys \<Rightarrow> bool" where
  "effective_step listeners s s' \<longleftrightarrow> server_step listeners s s' \<and> s' \<noteq> s"

lemma shutdown_run:
  "(effective_step listeners ^^ n) s s' \<Longrightarrow> sv_shutdown s \<Longrightarrow>
   sv_shutdown s' \<and> (server_step listeners)\<^sup>*\<^sup>* s s' \<and> n + shutdown_work s' \<le> shutdown_work s"
proof (induction n arbitrary: s')
  case (Suc n)
  then obtain m where m: "(effective_step listeners ^^ n) s m" "effective_step listeners m s'" by auto
  with Suc have "sv_shutdown m" "(server_step listeners)\<^sup>*\<^sup>* s m" "n + shutdown_work m \<le> shutdown_work s" by auto
  moreover from m(2) have "server_step listeners m s'" "s' \<noteq> m" by (auto simp: effective_step_def)
  ultimately show ?case using shutdown_step [of listeners m s'] by (auto intro: rtranclp.rtrancl_into_rtrancl)
qed auto

lemma server_tasks_bounded:
  "server_reachable listeners max_connections s \<Longrightarrow> length (sv_tasks s) \<le> max_connections"
  using serve_pool.bounded [of listeners "serve_init max_connections" s]
  by (simp add: serve_init_def held_by_loop_def)

lemma shutdown_work_bound:
  "server_reachable listeners max_connections s \<Longrightarrow> shutdown_work s \<le> 2 * max_connections + 5"
proof -
  assume "server_reachable listeners max_connections s"
  then have "length (sv_tasks s) \<le> max_connections" by (rule server_tasks_bounded)
  moreover have "length (filter (\<lambda>t. \<not> snd t) (sv_tasks s)) \<le> length (sv_tasks s)" by simp
  moreover have "loop_work (sv_loop s) \<le> 2" "serve_work (sv_serve s) \<le> 3"
    by (simp_all add: loop_work_def serve_work_def split: loop_pc.splits serve_pc.splits)
  ultimately show ?thesis unfolding shutdown_work_def by linarith
qed

section \<open>Properties\<close>

text \<open>C16 (server\_slots): in every reachable state the free slots, the slot the accept loop may hold and the
open connections add up to \<open>max_connections\<close>: no more connections are ever open, and no slot
is lost by a failed accept, by shutdown or by a connection that ends.\<close>

theorem server_slots:
  assumes "server_reachable listeners max_connections s"
  shows "length (sv_tasks s) \<le> max_connections \<and>
    sv_free s + (if sv_loop s = HasSlot then 1 else 0) + length (sv_tasks s) = max_connections"
  using serve_pool.conserved [OF assms] server_tasks_bounded [OF assms]
  by (simp add: serve_init_def held_by_loop_def)

definition demo_server :: server_sys where
  "demo_server = (serve_init 1)\<lparr>sv_free := 0, sv_next := 0, sv_tasks := [(0, False)], sv_spawned := 1\<rparr>"

lemma demo_server_reachable: "server_reachable 1 1 demo_server"
proof -
  have "server_step 1 (serve_init 1) ((serve_init 1)\<lparr>sv_free := sv_free (serve_init 1) - 1, sv_loop := HasSlot\<rparr>)"
    by (rule server_step.acquire) (simp_all add: serve_init_def)
  moreover have "server_step 1 ((serve_init 1)\<lparr>sv_free := 0, sv_loop := HasSlot\<rparr>) demo_server"
    using server_step.accept [of "(serve_init 1)\<lparr>sv_free := 0, sv_loop := HasSlot\<rparr>" 1 "\<lambda>_. Some True" 0 0]
    by (simp add: serve_init_def demo_server_def accept_any_def)
  ultimately show ?thesis
    by (auto simp: serve_init_def intro: rtranclp.rtrancl_into_rtrancl converse_rtranclp_into_rtranclp)
qed

theorem server_slots_witness: "sv_free demo_server + length (sv_tasks demo_server) = 1"
  using server_slots [OF demo_server_reachable] by (simp add: demo_server_def serve_init_def)

text \<open>C32 (shutdown\_in\_order): \<open>serve\<close> closes the gate only after the accept loop has ended, force-closes only after
that, and returns only when no connection is left; once the gate is closed no connection is
accepted any more and none that was still handshaking starts to proxy.\<close>

theorem shutdown_in_order:
  assumes "server_reachable listeners max_connections s"
  shows "(gate_closed (sv_gate s) \<longrightarrow> sv_shutdown s \<and> sv_loop s = LoopEnded) \<and>
    (sv_forced s \<longrightarrow> gate_closed (sv_gate s)) \<and>
    (sv_serve s = ServeReturned \<longrightarrow> sv_tasks s = [] \<and> gate_proxying (sv_gate s) = 0) \<and>
    (\<forall>s'. server_step listeners s s' \<longrightarrow> gate_closed (sv_gate s) \<longrightarrow>
       gate_closed (sv_gate s') \<and> set (sv_tasks s') \<subseteq> set (sv_tasks s))"
proof -
  note ok = server_reachable_ok [OF assms]
  have "gate_closed (sv_gate s') \<and> set (sv_tasks s') \<subseteq> set (sv_tasks s)"
    if step: "server_step listeners s s'" and closed: "gate_closed (sv_gate s)" for s'
    using step
  proof cases
    case own
    then show ?thesis
      by cases (use ok closed set_remove1_subset [of _ "sv_tasks s"] in
        \<open>auto simp: server_ok_def gate_close_def pass_drop_def split: if_splits\<close>)
  next
    case (accept p i n)
    with ok closed show ?thesis by (auto simp: server_ok_def)
  qed (use ok closed set_remove1_subset [of _ "sv_tasks s"] in
      \<open>auto simp: server_ok_def gate_enter_def gate_close_def pass_drop_def split: if_splits\<close>)
  with ok show ?thesis by (auto simp: server_ok_def)
qed

definition demo_closed :: server_sys where
  "demo_closed = demo_server\<lparr>sv_shutdown := True, sv_loop := LoopEnded,
     sv_gate := snd (gate_close (sv_gate demo_server)), sv_serve := ServeDraining\<rparr>"

lemma demo_closed_reachable: "server_reachable 1 1 demo_closed"
proof -
  let ?a = "demo_server\<lparr>sv_shutdown := True\<rparr>"
  let ?b = "?a\<lparr>sv_free := sv_free ?a + (if sv_loop ?a = HasSlot then 1 else 0), sv_loop := LoopEnded\<rparr>"
  have "server_step 1 demo_server ?a" by (rule server_step.shutdown)
  moreover have "server_step 1 ?a ?b"
    by (rule server_step.own, rule server_own_step.loop_stops) (simp_all add: demo_server_def serve_init_def)
  moreover have "server_step 1 ?b demo_closed"
    using server_step.own [OF server_own_step.close [of ?b 0 "snd (gate_close (sv_gate demo_server))"], of 1]
    by (simp add: demo_closed_def demo_server_def serve_init_def gate_close_def gate_new_def)
  ultimately show ?thesis using demo_server_reachable by (meson rtranclp.rtrancl_into_rtrancl)
qed

theorem shutdown_in_order_witness:
  "gate_closed (sv_gate demo_closed) \<and> sv_shutdown demo_closed \<and> sv_loop demo_closed = LoopEnded"
  using shutdown_in_order [OF demo_closed_reachable] by (simp add: demo_closed_def gate_close_def)

text \<open>C10 (shutdown\_completes): after shutdown was requested the server cannot run for ever and never waits for
a peer: whatever order its tasks run in, at most twice \<open>max_connections\<close> and five further steps
change anything; until \<open>serve\<close> has returned there is always one the server takes on its own; and
from wherever it is its own steps alone (the loop stopping, the gate closing and cancelling
handshakes, the grace period running out, the forced end of what still proxies) lead to the return,
with no connection left, although no peer ever closes.\<close>

theorem shutdown_completes:
  assumes "server_reachable listeners max_connections s" "sv_shutdown s"
    and "(effective_step listeners ^^ n) s s'"
  shows "n \<le> 2 * max_connections + 5 \<and>
    (sv_serve s' = ServeReturned \<or> (\<exists>s''. server_own_step s' s'' \<and> effective_step listeners s' s'')) \<and>
    (\<exists>s''. server_own_step\<^sup>*\<^sup>* s' s'' \<and> sv_serve s'' = ServeReturned \<and> sv_tasks s'' = [])"
proof -
  from shutdown_run [OF assms(3,2)] have run: "sv_shutdown s'" "(server_step listeners)\<^sup>*\<^sup>* s s'"
    "n + shutdown_work s' \<le> shutdown_work s" by auto
  from assms(1) run(2) have "server_reachable listeners max_connections s'" by simp
  note ok' = server_reachable_ok [OF this]
  from run(3) shutdown_work_bound [OF assms(1)]
  have "n \<le> 2 * max_connections + 5" by linarith
  moreover have "server_own_step s' s'' \<Longrightarrow> effective_step listeners s' s''" for s''
    using shutdown_own_step [of s' s''] run(1) by (auto simp: effective_step_def intro: server_step.own)
  then have "sv_serve s' = ServeReturned \<or> (\<exists>s''. server_own_step s' s'' \<and> effective_step listeners s' s'')"
    using shutdown_not_stuck [OF ok' run(1)] by blast
  moreover obtain s'' where s'': "server_own_step\<^sup>*\<^sup>* s' s''" "sv_serve s'' = ServeReturned"
    using shutdown_unaided [OF ok' run(1)] by blast
  moreover from server_own_run_ok [OF s''(1) ok'] s''(2) have "sv_tasks s'' = []" by (simp add: server_ok_def)
  ultimately show ?thesis by blast
qed

text \<open>Two connections, one handshaking and one proxying, neither of which ever ends by itself.\<close>

definition demo_busy :: server_sys where
  "demo_busy = (serve_init 2)\<lparr>sv_free := 0, sv_tasks := [(1, False), (0, True)], sv_spawned := Suc 1,
     sv_gate := gate_new\<lparr>gate_proxying := 1\<rparr>, sv_shutdown := True\<rparr>"

lemma demo_busy_reachable: "server_reachable 1 2 demo_busy"
proof -
  let ?a = "(serve_init 2)\<lparr>sv_free := 1, sv_loop := HasSlot\<rparr>"
  let ?b = "(serve_init 2)\<lparr>sv_free := 1, sv_tasks := [(0, False)], sv_spawned := 1\<rparr>"
  let ?c = "?b\<lparr>sv_tasks := [(0, True)], sv_gate := gate_new\<lparr>gate_proxying := 1\<rparr>\<rparr>"
  let ?d = "?c\<lparr>sv_free := 0, sv_loop := HasSlot\<rparr>"
  let ?e = "?c\<lparr>sv_free := 0, sv_tasks := [(1, False), (0, True)], sv_spawned := Suc 1\<rparr>"
  have "server_step 1 (serve_init 2) ?a"
    using server_step.acquire [of "serve_init 2" 1] by (simp add: serve_init_def)
  moreover have "server_step 1 ?a ?b"
    using server_step.accept [of ?a 1 "\<lambda>_. Some True" 0 0] by (simp add: serve_init_def accept_any_def)
  moreover have "server_step 1 ?b ?c"
    using server_step.enter [of 0 ?b "gate_new\<lparr>gate_proxying := 1\<rparr>" 1]
    by (simp add: serve_init_def gate_enter_def gate_new_def)
  moreover have "server_step 1 ?c ?d"
    using server_step.acquire [of ?c 1] by (simp add: serve_init_def)
  moreover have "server_step 1 ?d ?e"
    using server_step.accept [of ?d 1 "\<lambda>_. Some True" 0 0] by (simp add: serve_init_def accept_any_def)
  moreover have "server_step 1 ?e demo_busy"
    using server_step.shutdown [of 1 ?e] by (simp add: demo_busy_def serve_init_def)
  ultimately show ?thesis by (meson rtranclp.rtrancl_into_rtrancl rtranclp.rtrancl_refl)
qed

theorem shutdown_completes_witness:
  "\<exists>s''. server_own_step\<^sup>*\<^sup>* demo_busy s'' \<and> sv_serve s'' = ServeReturned \<and> sv_tasks s'' = []"
  using shutdown_completes [OF demo_busy_reachable, of 0] by (simp add: demo_busy_def)

text \<open>C33 (accept\_fair): a listener that always has a connection waiting is accepted from at least once in
any as many consecutive accepts as there are listeners, however busy the others are.\<close>

theorem accept_fair:
  assumes "start < count" "i < count" "length polls = count"
    and "list_all (\<lambda>poll_accept. poll_accept i \<noteq> None) polls"
  shows "i \<in> set (accept_run count polls start)"
proof -
  let ?k = "(i + count - start) mod count"
  have "(start + ?k) mod count = (start + (i + count - start)) mod count" by (simp add: mod_simps)
  also have "\<dots> = i" using assms(1,2) by simp
  finally have "i = (start + ?k) mod count" by simp
  moreover have "?k < count" using assms(1) by simp
  ultimately show ?thesis using accept_run_fair [OF assms(4), of ?k count start] assms(1,3) by simp
qed

theorem accept_fair_witness:
  "2 \<in> set (accept_run 3 (replicate 3 (\<lambda>_. Some True)) 0)"
  by (rule accept_fair) (auto simp: list_all_iff)

end
