(* ===== verification/Float64.thy ===== *)
theory Float64
  imports Complex_Main "HOL-Library.Word"
begin

text \<open>
  What the cache uses of \<open>f64\<close> and of \<open>Duration\<close>'s conversions: IEEE 754 binary64 with rounding to
  nearest, ties to even, over the rationals. A finite double is its value, so the two zeros are one
  number; nothing here tells them apart.
\<close>

section \<open>Rounding\<close>

text \<open>To the nearest integer, a tie to the even one.\<close>

definition round_even :: "rat \<Rightarrow> int" where
  "round_even x =
     (let n = \<lfloor>x\<rfloor>; d = x - of_int n
      in if d < 1 / 2 then n else if 1 / 2 < d then n + 1 else if even n then n else n + 1)"

lemma round_even_near: "\<bar>of_int (round_even x) - x\<bar> \<le> 1 / 2"
proof -
  have "of_int \<lfloor>x\<rfloor> \<le> x" "x < of_int \<lfloor>x\<rfloor> + 1" by linarith+
  then show ?thesis by (auto simp: round_even_def Let_def)
qed

lemma round_even_int [simp]: "round_even (of_int n) = n"
  by (simp add: round_even_def)

lemma round_even_nonneg: "0 \<le> x \<Longrightarrow> 0 \<le> round_even x"
  using round_even_near [of x] by linarith

lemma two_powi_less: "(2 :: rat) powi a < 2 powi b \<longleftrightarrow> a < b"
  using power_int_strict_increasing [of a b "2 :: rat"] power_int_strict_increasing [of b a "2 :: rat"]
  by (cases a b rule: linorder_cases) auto

lemma powi_split: "(2 :: rat) powi (a + b) = 2 powi a * 2 powi b"
  by (simp add: power_int_add)

text \<open>The position of the leading bit.\<close>

fun bit_length :: "nat \<Rightarrow> nat" where
  "bit_length n = (if n = 0 then 0 else Suc (bit_length (n div 2)))"

declare bit_length.simps [simp del]

lemma bit_length_bounds: "0 < n \<Longrightarrow> 2 ^ (bit_length n - 1) \<le> n \<and> n < 2 ^ bit_length n"
proof (induction n rule: bit_length.induct)
  case (1 n)
  show ?case
  proof (cases "n div 2 = 0")
    case True
    with 1(2) have "n = 1" by simp
    then show ?thesis by (simp add: bit_length.simps)
  next
    case False
    with 1 have IH: "2 ^ (bit_length (n div 2) - 1) \<le> n div 2" "n div 2 < 2 ^ bit_length (n div 2)" by simp_all
    from False have "0 < bit_length (n div 2)" by (simp add: bit_length.simps)
    then obtain k where k: "bit_length (n div 2) = Suc k" by (cases "bit_length (n div 2)") auto
    have "bit_length n = Suc (Suc k)" using 1(2) k by (simp add: bit_length.simps [of n])
    moreover have "2 ^ Suc k \<le> n" "n < 2 ^ Suc (Suc k)" using IH k by auto
    ultimately show ?thesis by simp
  qed
qed

definition f64_exponent :: "rat \<Rightarrow> int" where
  "f64_exponent x =
     (let (a, b) = quotient_of \<bar>x\<bar>; e = int (bit_length (nat a)) - int (bit_length (nat b))
      in if \<bar>x\<bar> < 2 powi e then e - 1 else e)"

lemma f64_exponent_bounds:
  assumes "x \<noteq> 0"
  shows "2 powi f64_exponent x \<le> \<bar>x\<bar> \<and> \<bar>x\<bar> < 2 powi (f64_exponent x + 1)"
proof -
  obtain a b where ab: "quotient_of \<bar>x\<bar> = (a, b)" by fastforce
  have b: "0 < b" using quotient_of_denom_pos [OF ab] .
  have x: "\<bar>x\<bar> = of_int a / of_int b" using quotient_of_div [OF ab] .
  with assms b have a: "0 < a" by (metis div_0 of_int_0 zero_less_abs_iff zero_less_divide_iff of_int_0_less_iff not_less_iff_gr_or_eq)
  define n m where "n = bit_length (nat a)" and "m = bit_length (nat b)"
  have na: "2 ^ (n - 1) \<le> nat a \<and> nat a < 2 ^ n" and mb: "2 ^ (m - 1) \<le> nat b \<and> nat b < 2 ^ m"
    using bit_length_bounds [of "nat a"] bit_length_bounds [of "nat b"] a b by (simp_all add: n_def m_def)
  have pos: "1 \<le> n" using na a by (cases n) auto
  have pos': "1 \<le> m" using mb b by (cases m) auto
  have an: "(2 :: rat) powi (int n - 1) \<le> of_int a" "of_int a < (2 :: rat) powi int n"
    and bm: "(2 :: rat) powi (int m - 1) \<le> of_int b" "of_int b < (2 :: rat) powi int m"
  proof -
    have p: "(2 :: rat) powi (int k - 1) = of_nat (2 ^ (k - 1))" "(2 :: rat) powi int k = of_nat (2 ^ k)" if "1 \<le> k" for k
      using that by (simp_all add: power_int_def nat_diff_distrib)
    have "rat_of_int a = of_nat (nat a)" "rat_of_int b = of_nat (nat b)" using a b by simp_all
    with p [OF pos] p [OF pos'] na mb show "(2 :: rat) powi (int n - 1) \<le> of_int a" "of_int a < (2 :: rat) powi int n"
      "(2 :: rat) powi (int m - 1) \<le> of_int b" "of_int b < (2 :: rat) powi int m"
      by (simp_all only: of_nat_le_iff of_nat_less_iff)
  qed
  define e where "e = int n - int m"
  have b': "(0 :: rat) < of_int b" using b by simp
  have "(2 :: rat) powi (e - 1) * of_int b \<le> 2 powi (e - 1) * 2 powi int m" using bm(2) by simp
  also have "\<dots> = 2 powi (int n - 1)" by (simp only: powi_split [symmetric] e_def) (simp add: algebra_simps)
  finally have low: "2 powi (e - 1) \<le> \<bar>x\<bar>" using an(1) b' unfolding x by (simp add: pos_le_divide_eq)
  have "(2 :: rat) powi int n = 2 powi (e + 1) * 2 powi (int m - 1)" by (simp only: powi_split [symmetric] e_def) (simp add: algebra_simps)
  also have "\<dots> \<le> 2 powi (e + 1) * of_int b" using bm(1) by simp
  finally have "of_int a < (2 :: rat) powi (e + 1) * of_int b" by (rule less_le_trans [OF an(2)])
  then have high: "\<bar>x\<bar> < 2 powi (e + 1)" using b' unfolding x by (simp add: pos_divide_less_eq)
  have "f64_exponent x = (if \<bar>x\<bar> < 2 powi e then e - 1 else e)"
    by (simp add: f64_exponent_def ab n_def m_def e_def Let_def)
  with low high show ?thesis by (auto split: if_splits)
qed

text \<open>The least exponent of a last bit, the place of the last of the 53 bits, and the rounded value.\<close>

definition MIN_EXPONENT :: int where "MIN_EXPONENT = -1074"

definition f64_ulp :: "rat \<Rightarrow> rat" where
  "f64_ulp x = 2 powi (max (f64_exponent x - 52) MIN_EXPONENT)"

definition f64_round :: "rat \<Rightarrow> rat" where
  "f64_round x = (if x = 0 then 0 else of_int (round_even (x / f64_ulp x)) * f64_ulp x)"

lemma f64_ulp_pos: "0 < f64_ulp x" by (simp add: f64_ulp_def)

text \<open>The relative error, and half of the least positive double.\<close>

definition f64_eps :: rat where "f64_eps = 1 / 2 ^ 53"
definition f64_tiny :: rat where "f64_tiny = 2 powi (MIN_EXPONENT - 1)"

lemma f64_round_error: "\<bar>f64_round x - x\<bar> \<le> f64_eps * \<bar>x\<bar> + f64_tiny"
proof (cases "x = 0")
  case False
  let ?u = "f64_ulp x"
  have "f64_round x - x = (of_int (round_even (x / ?u)) - x / ?u) * ?u"
    using False f64_ulp_pos [of x] by (simp add: f64_round_def algebra_simps)
  then have "\<bar>f64_round x - x\<bar> \<le> 1 / 2 * ?u"
    using mult_right_mono [OF round_even_near [of "x / ?u"], of ?u] f64_ulp_pos [of x] by (simp add: abs_mult)
  also have "?u \<le> 2 powi (f64_exponent x - 52) + 2 powi MIN_EXPONENT"
    by (simp add: f64_ulp_def max_def)
  also have "(2 :: rat) powi (f64_exponent x - 52) \<le> \<bar>x\<bar> / 2 ^ 52"
  proof -
    have "(2 :: rat) powi (f64_exponent x - 52) = 2 powi f64_exponent x / 2 ^ 52" by (simp add: power_int_diff)
    with f64_exponent_bounds [OF False] show ?thesis by (simp add: divide_right_mono)
  qed
  finally have "\<bar>f64_round x - x\<bar> \<le> 1 / 2 * (\<bar>x\<bar> / 2 ^ 52 + 2 powi MIN_EXPONENT)" by simp
  also have "\<dots> = f64_eps * \<bar>x\<bar> + f64_tiny"
  proof -
    have "(2 :: rat) powi MIN_EXPONENT = 2 * 2 powi (MIN_EXPONENT - 1)"
      using powi_split [of 1 "MIN_EXPONENT - 1"] by simp
    then show ?thesis by (simp add: f64_eps_def f64_tiny_def)
  qed
  finally show ?thesis .
qed (simp add: f64_round_def f64_tiny_def)

lemma f64_round_exact_less:
  assumes "x = of_int k * 2 powi q" "\<bar>k\<bar> < 2 ^ 53" "MIN_EXPONENT \<le> q"
  shows "f64_round x = x"
proof (cases "x = 0")
  case False
  have "\<bar>x\<bar> = of_int \<bar>k\<bar> * 2 powi q" using assms(1) by (simp add: abs_mult)
  also have "\<dots> < 2 ^ 53 * 2 powi q"
    using assms(2) of_int_less_iff [of "\<bar>k\<bar>" "2 ^ 53", where ?'a = rat] by simp
  also have "\<dots> = 2 powi (53 + q)" by (simp add: powi_split)
  finally have "(2 :: rat) powi f64_exponent x < 2 powi (53 + q)" using f64_exponent_bounds [OF False] by linarith
  then have "f64_exponent x < 53 + q" by (simp only: two_powi_less)
  with assms(3) have le: "max (f64_exponent x - 52) MIN_EXPONENT \<le> q" by simp
  define d where "d = nat (q - max (f64_exponent x - 52) MIN_EXPONENT)"
  with le have d: "q = max (f64_exponent x - 52) MIN_EXPONENT + int d" by simp
  have "x = of_int (k * 2 ^ d) * f64_ulp x"
    unfolding assms(1) f64_ulp_def by (subst (1) d) (simp add: powi_split assms(1) [symmetric])
  then have "x / f64_ulp x = of_int (k * 2 ^ d)" using f64_ulp_pos [of x] by (simp add: field_simps)
  with False show ?thesis using f64_ulp_pos [of x] by (simp only: f64_round_def round_even_int if_False) (metis \<open>x = of_int (k * 2 ^ d) * f64_ulp x\<close>)
qed (simp add: f64_round_def)

lemma f64_round_exact:
  assumes "x = of_int k * 2 powi q" "\<bar>k\<bar> \<le> 2 ^ 53" "MIN_EXPONENT \<le> q"
  shows "f64_round x = x"
proof (cases "\<bar>k\<bar> = 2 ^ 53")
  case True
  have "x = of_int (sgn k) * 2 powi (q + 53)"
  proof -
    have "k = sgn k * \<bar>k\<bar>" by (simp add: sgn_mult_abs)
    with True have "k = sgn k * 2 ^ 53" by simp
    then have "rat_of_int k = of_int (sgn k) * 2 ^ 53" by (metis of_int_mult of_int_numeral of_int_power)
    with assms(1) show ?thesis by (simp add: powi_split)
  qed
  from f64_round_exact_less [OF this] assms(3) show ?thesis by (simp add: sgn_if)
next
  case False
  with assms show ?thesis by (intro f64_round_exact_less) auto
qed

lemma f64_round_nat: "n \<le> 2 ^ 53 \<Longrightarrow> f64_round (of_nat n) = of_nat n"
proof (rule f64_round_exact [of _ "int n" 0])
  assume "n \<le> 2 ^ 53"
  then have "int n \<le> int (2 ^ 53)" by (simp only: of_nat_le_iff)
  then show "\<bar>int n\<bar> \<le> 2 ^ 53" by simp
qed (simp_all add: MIN_EXPONENT_def)

section \<open>Doubles\<close>

text \<open>The flag of an infinity says whether it is negative.\<close>

datatype f64 = Finite rat | Infinite bool | NaN

definition f64_norm :: "rat \<Rightarrow> f64" where
  "f64_norm x = (let r = f64_round x in if \<bar>r\<bar> < 2 ^ 1024 then Finite r else Infinite (r < 0))"

definition f64_of_nat :: "nat \<Rightarrow> f64" where
  "f64_of_nat n = f64_norm (of_nat n)"

fun f64_add :: "f64 \<Rightarrow> f64 \<Rightarrow> f64" where
  "f64_add (Finite a) (Finite b) = f64_norm (a + b)"
| "f64_add (Infinite s) (Infinite t) = (if s = t then Infinite s else NaN)"
| "f64_add (Infinite s) (Finite _) = Infinite s"
| "f64_add (Finite _) (Infinite s) = Infinite s"
| "f64_add _ _ = NaN"

fun f64_neg :: "f64 \<Rightarrow> f64" where
  "f64_neg (Finite a) = Finite (- a)"
| "f64_neg (Infinite s) = Infinite (\<not> s)"
| "f64_neg NaN = NaN"

definition f64_sub :: "f64 \<Rightarrow> f64 \<Rightarrow> f64" where
  "f64_sub x y = f64_add x (f64_neg y)"

fun f64_mul :: "f64 \<Rightarrow> f64 \<Rightarrow> f64" where
  "f64_mul (Finite a) (Finite b) = f64_norm (a * b)"
| "f64_mul (Infinite s) (Infinite t) = Infinite (s \<noteq> t)"
| "f64_mul (Infinite s) (Finite b) = (if b = 0 then NaN else Infinite (s \<noteq> (b < 0)))"
| "f64_mul (Finite a) (Infinite t) = (if a = 0 then NaN else Infinite ((a < 0) \<noteq> t))"
| "f64_mul _ _ = NaN"

text \<open>Division by a positive constant.\<close>

fun f64_div :: "f64 \<Rightarrow> rat \<Rightarrow> f64" where
  "f64_div (Finite a) d = f64_norm (a / d)"
| "f64_div (Infinite s) d = Infinite s"
| "f64_div NaN d = NaN"

text \<open>\<open>f64::clamp(0.0, 1.0)\<close>.\<close>

fun f64_clamp01 :: "f64 \<Rightarrow> f64" where
  "f64_clamp01 (Finite a) = Finite (if a < 0 then 0 else if 1 < a then 1 else a)"
| "f64_clamp01 (Infinite s) = Finite (if s then 0 else 1)"
| "f64_clamp01 NaN = NaN"

section \<open>Durations\<close>

text \<open>\<open>Duration::as_secs_f64\<close>; a duration is its number of nanoseconds, at most \<open>DURATION_MAX\<close>.\<close>

definition DURATION_END :: nat where "DURATION_END = 2 ^ 64 * 10 ^ 9"

definition as_secs_f64 :: "nat \<Rightarrow> f64" where
  "as_secs_f64 d = f64_add (f64_of_nat (d div 10 ^ 9)) (f64_div (f64_of_nat (d mod 10 ^ 9)) (10 ^ 9))"

text \<open>\<open>Duration::try_from_secs_f64\<close>; \<^term>\<open>None\<close> is its error.\<close>

fun try_from_secs_f64 :: "f64 \<Rightarrow> nat option" where
  "try_from_secs_f64 (Finite v) =
     (if v < 0 \<or> 2 ^ 64 \<le> v then None else Some (nat (round_even (v * 10 ^ 9))))"
| "try_from_secs_f64 _ = None"

section \<open>Error bounds\<close>

lemma f64_round_nonneg: "0 \<le> x \<Longrightarrow> 0 \<le> f64_round x"
  using f64_ulp_pos [of x] round_even_nonneg [of "x / f64_ulp x"] by (simp add: f64_round_def)

lemma f64_eps_values: "0 < f64_eps" "f64_eps \<le> 1 / 1000" "0 < f64_tiny" "f64_tiny \<le> f64_eps / 10 ^ 12"
proof -
  have "f64_tiny < 2 powi (-100)" unfolding f64_tiny_def MIN_EXPONENT_def two_powi_less by simp
  also have "(2 :: rat) powi (-100) \<le> f64_eps / 10 ^ 12" by (simp add: f64_eps_def power_int_def power_divide)
  finally show "f64_tiny \<le> f64_eps / 10 ^ 12" by simp
qed (simp_all add: f64_eps_def f64_tiny_def)

lemma f64_norm_finite:
  assumes "\<bar>x\<bar> \<le> 2 ^ 100"
  shows "f64_norm x = Finite (f64_round x)"
proof -
  have "f64_eps * \<bar>x\<bar> \<le> 1 * \<bar>x\<bar>" using f64_eps_values by (intro mult_right_mono) auto
  moreover have "f64_tiny \<le> 1" using f64_eps_values by simp
  ultimately have "\<bar>f64_round x\<bar> \<le> 2 * \<bar>x\<bar> + 1" using f64_round_error [of x] by linarith
  also have "\<dots> \<le> 2 * 2 ^ 100 + 1" using assms by simp
  also have "\<dots> < (2 :: rat) ^ 102" by simp
  also have "\<dots> \<le> (2 :: rat) ^ 1024" by (rule power_increasing) simp_all
  finally show ?thesis by (simp only: f64_norm_def Let_def if_True)
qed

lemma f64_of_nat_exact:
  assumes "n \<le> 2 ^ 53"
  shows "f64_of_nat n = Finite (of_nat n)"
proof -
  from assms have "rat_of_nat n \<le> of_nat (2 ^ 53)" by (simp only: of_nat_le_iff)
  then have "\<bar>rat_of_nat n\<bar> \<le> 2 ^ 100" by simp
  from f64_norm_finite [OF this] f64_round_nat [OF assms] show ?thesis by (simp only: f64_of_nat_def)
qed

lemma f64_norm_exact:
  assumes "x = of_int k * 2 powi q" "\<bar>k\<bar> \<le> 2 ^ 53" "MIN_EXPONENT \<le> q" "\<bar>x\<bar> \<le> 2 ^ 100"
  shows "f64_norm x = Finite x"
  using f64_norm_finite [OF assms(4)] f64_round_exact [OF assms(1-3)] by simp

end
