(* ===== verification/Jitter.thy ===== *)
theory Jitter
  imports Float64
begin

text \<open>
  How long a found route is cached (\<open>CacheState::jittered\<close> in \<open>cache.rs\<close>): the TTL scaled by a factor
  in \<open>1 \<plusminus> jitter\<close> that depends on the entry's id. The keyed hash behind it (\<open>RandomState\<close>) is an
  argument.
\<close>

definition jittered :: "(nat \<Rightarrow> 64 word) \<Rightarrow> nat \<Rightarrow> f64 \<Rightarrow> nat \<Rightarrow> nat" where
  "jittered hash_one ttl jitter lid =
     (let j = f64_clamp01 jitter;
          unit = f64_div (f64_of_nat (unat (drop_bit 11 (hash_one lid)))) (2 ^ 53);
          scaled = f64_mul (as_secs_f64 ttl)
            (f64_add (Finite 1) (f64_mul j (f64_sub (f64_mul (Finite 2) unit) (Finite 1))))
      in case try_from_secs_f64 scaled of Some d \<Rightarrow> d | None \<Rightarrow> ttl)"

lemma jittered_NaN: "jittered hash_one ttl NaN lid = ttl"
proof -
  have "f64_add (Finite 1) (f64_mul NaN x) = NaN" for x by simp
  moreover have "f64_mul x NaN = NaN" for x by (cases x) simp_all
  ultimately show ?thesis by (simp add: jittered_def Let_def)
qed

lemma round_mono_abs: "\<bar>x\<bar> \<le> c \<Longrightarrow> 0 < c \<Longrightarrow> \<bar>f64_round x - x\<bar> \<le> f64_eps * c + f64_tiny"
  using f64_round_error [of x] f64_eps_values mult_left_mono [of "\<bar>x\<bar>" c f64_eps] by linarith

text \<open>\<open>as_secs_f64\<close> is within three roundings of the duration.\<close>

lemma as_secs_f64_near:
  assumes "ttl < DURATION_END"
  obtains t where "as_secs_f64 ttl = Finite t" "\<bar>t - of_nat ttl / 10 ^ 9\<bar> \<le> 3 * f64_eps * (of_nat ttl / 10 ^ 9) + 5 * f64_tiny"
    "0 \<le> t"
proof -
  define S N where "S = rat_of_nat (ttl div 10 ^ 9)" and "N = rat_of_nat (ttl mod 10 ^ 9) / 10 ^ 9"
  have "rat_of_nat ttl = rat_of_nat (10 ^ 9 * (ttl div 10 ^ 9) + ttl mod 10 ^ 9)" by simp
  then have T: "of_nat ttl / 10 ^ 9 = S + N" by (simp only: of_nat_add of_nat_mult S_def N_def) (simp add: add_divide_distrib)
  have "ttl div 10 ^ 9 < 2 ^ 64" using assms by (simp add: DURATION_END_def less_mult_imp_div_less)
  then have S: "0 \<le> S" "S \<le> 2 ^ 64" using of_nat_less_iff [of "ttl div 10 ^ 9" "2 ^ 64", where ?'a = rat] by (simp_all add: S_def)
  have "ttl mod 10 ^ 9 < 10 ^ 9" by simp
  then have m: "rat_of_nat (ttl mod 10 ^ 9) < 10 ^ 9" using of_nat_less_iff [of "ttl mod 10 ^ 9" "10 ^ 9", where ?'a = rat] by simp
  then have N: "0 \<le> N" "N \<le> 1" by (simp_all add: N_def)
  have nanos: "f64_of_nat (ttl mod 10 ^ 9) = Finite (of_nat (ttl mod 10 ^ 9))"
    using \<open>ttl mod 10 ^ 9 < 10 ^ 9\<close> by (intro f64_of_nat_exact) simp
  let ?s = "f64_round S" and ?n = "f64_round N"
  have nn: "0 \<le> ?s" "0 \<le> ?n" using S N by (simp_all add: f64_round_nonneg)
  define X where "X = S + N"
  define E where "E = f64_eps * X"
  have X: "0 \<le> X" "X \<le> 2 ^ 64 + 1" using S N by (simp_all add: X_def)
  have E: "0 \<le> E" "E \<le> X / 1000" using f64_eps_values X mult_right_mono [of f64_eps "1 / 1000" X] by (simp_all add: E_def)
  have s: "\<bar>?s - S\<bar> \<le> f64_eps * S + f64_tiny" using f64_round_error [of S] S by simp
  have n: "\<bar>?n - N\<bar> \<le> f64_eps * N + f64_tiny" using f64_round_error [of N] N by simp
  have split: "f64_eps * S + f64_eps * N = E" by (simp add: E_def X_def distrib_left)
  have sum: "\<bar>(?s + ?n) - X\<bar> \<le> E + 2 * f64_tiny" using s n split unfolding X_def by linarith
  have t1: "f64_tiny \<le> 1" using f64_eps_values by simp
  have up: "?s + ?n \<le> 2 * X + 2 * f64_tiny" using sum E X by linarith
  have abs: "\<bar>?s + ?n\<bar> \<le> 2 ^ 100" using up nn X t1 by simp
  have fin: "f64_norm S = Finite ?s" "f64_norm N = Finite ?n" "f64_norm (?s + ?n) = Finite (f64_round (?s + ?n))"
    using f64_norm_finite [of S] f64_norm_finite [of N] f64_norm_finite [OF abs] S N by simp_all
  then have val: "as_secs_f64 ttl = Finite (f64_round (?s + ?n))"
    by (simp only: as_secs_f64_def nanos f64_div.simps N_def [symmetric] f64_of_nat_def [of "ttl div 10 ^ 9"]
        S_def [symmetric] f64_add.simps)
  have "f64_eps * (?s + ?n) \<le> f64_eps * (2 * X + 2 * f64_tiny)" using up f64_eps_values by (intro mult_left_mono) auto
  also have "\<dots> = 2 * E + 2 * (f64_eps * f64_tiny)" by (simp add: E_def algebra_simps)
  also have "f64_eps * f64_tiny \<le> 1 * f64_tiny" using f64_eps_values by (intro mult_right_mono) auto
  finally have "f64_eps * \<bar>?s + ?n\<bar> \<le> 2 * E + 2 * f64_tiny" using nn by simp
  with f64_round_error [of "?s + ?n"] sum have "\<bar>f64_round (?s + ?n) - X\<bar> \<le> 3 * E + 5 * f64_tiny" by linarith
  moreover have "0 \<le> f64_round (?s + ?n)" using nn by (simp add: f64_round_nonneg)
  ultimately show thesis using that [OF val, unfolded T] by (simp add: X_def E_def mult.assoc)
qed

text \<open>The factor is within five roundings of \<open>1 + j (2 u - 1)\<close>, and \<open>2 u - 1\<close> is exact.\<close>

lemma unit_exact:
  assumes "h < 2 ^ 53"
  shows "f64_sub (f64_mul (Finite 2) (f64_div (f64_of_nat h) (2 ^ 53))) (Finite 1) =
    Finite (of_nat h / 2 ^ 52 - 1)"
proof -
  have h: "rat_of_nat h \<le> 2 ^ 53" using assms of_nat_le_iff [of h "2 ^ 53", where ?'a = rat] by simp
  have "f64_norm (of_nat h / 2 ^ 53) = Finite (of_nat h / 2 ^ 53)"
    by (rule f64_norm_exact [of _ "int h" "-53"])
      (use assms h in \<open>simp_all add: MIN_EXPONENT_def power_int_def power_divide\<close>)
  moreover have "f64_norm (of_nat h / 2 ^ 52) = Finite (of_nat h / 2 ^ 52)"
    by (rule f64_norm_exact [of _ "int h" "-52"])
      (use assms h in \<open>simp_all add: MIN_EXPONENT_def power_int_def power_divide\<close>)
  moreover have "f64_norm (of_nat h / 2 ^ 52 - 1) = Finite (of_nat h / 2 ^ 52 - 1)"
    by (rule f64_norm_exact [of _ "int h - 2 ^ 52" "-52"])
      (use assms h in \<open>simp_all add: MIN_EXPONENT_def power_int_def power_divide field_simps abs_le_iff\<close>)
  ultimately show ?thesis using assms by (simp add: f64_of_nat_exact f64_sub_def)
qed

lemma factor_near:
  assumes "0 \<le> j" "j \<le> 1" "\<bar>p\<bar> \<le> 1"
  obtains f where "f64_add (Finite 1) (f64_mul (Finite j) (Finite p)) = Finite f" "\<bar>f - (1 + j * p)\<bar> \<le> 5 * f64_eps"
proof -
  have "\<bar>j * p\<bar> \<le> 1" using assms mult_mono [of j 1 "\<bar>p\<bar>" 1] by (simp add: abs_mult)
  then have q: "\<bar>f64_round (j * p) - j * p\<bar> \<le> f64_eps + f64_tiny"
    using f64_round_error [of "j * p"] mult_left_mono [of "\<bar>j * p\<bar>" 1 f64_eps] f64_eps_values by linarith
  have fin: "f64_norm (j * p) = Finite (f64_round (j * p))"
    using \<open>\<bar>j * p\<bar> \<le> 1\<close> by (intro f64_norm_finite) simp
  let ?y = "1 + f64_round (j * p)"
  have y: "\<bar>?y\<bar> \<le> 3" using q \<open>\<bar>j * p\<bar> \<le> 1\<close> f64_eps_values by simp
  then have r: "\<bar>f64_round ?y - ?y\<bar> \<le> 3 * f64_eps + f64_tiny"
    using f64_round_error [of ?y] mult_left_mono [OF y, of f64_eps] f64_eps_values by linarith
  have "f64_norm ?y = Finite (f64_round ?y)" using y by (intro f64_norm_finite) simp
  moreover have "\<bar>f64_round ?y - (1 + j * p)\<bar> \<le> 5 * f64_eps" using q r f64_eps_values by simp
  ultimately show thesis using that fin by simp
qed

lemma hash_bits: "unat (drop_bit 11 (h :: 64 word)) < 2 ^ 53"
proof -
  have "unat h < 2 ^ 64" using unsigned_less [of h] by simp
  moreover from this have "unat (drop_bit 11 h) = drop_bit 11 (unat h)"
    by (simp add: unsigned_drop_bit_eq take_bit_eq_mod)
  ultimately show ?thesis by (simp add: drop_bit_eq_div less_mult_imp_div_less)
qed

lemma hash_unit: "\<bar>rat_of_nat (unat (drop_bit 11 (h :: 64 word))) / 2 ^ 52 - 1\<bar> \<le> 1"
proof -
  have "\<bar>rat_of_nat n / 2 ^ 52 - 1\<bar> \<le> 1" if "n < 2 ^ 53" for n
  proof -
    from that have "rat_of_nat n \<le> of_nat (2 ^ 53)" by (simp only: of_nat_le_iff)
    then have "rat_of_nat n \<le> 2 ^ 53" by simp
    then show ?thesis by (simp add: abs_le_iff field_simps)
  qed
  from this [OF hash_bits] show ?thesis .
qed

lemma jittered_near:
  assumes "ttl < DURATION_END" "f64_clamp01 jitter = Finite j"
    and "p = of_nat (unat (drop_bit 11 (hash_one lid))) / 2 ^ 52 - 1"
  shows "jittered hash_one ttl jitter lid = ttl \<or>
    \<bar>of_nat (jittered hash_one ttl jitter lid) - of_nat ttl * (1 + j * p)\<bar> \<le> of_nat ttl / 2 ^ 48 + 1"
proof -
  let ?h = "unat (drop_bit 11 (hash_one lid))"
  have "?h < 2 ^ 53" by (rule hash_bits)
  note unit = unit_exact [OF this, folded assms(3)]
  have j: "0 \<le> j" "j \<le> 1" using assms(2) by (cases jitter; auto split: if_splits)+
  have p: "\<bar>p\<bar> \<le> 1" unfolding assms(3) by (rule hash_unit)
  obtain f where f: "f64_add (Finite 1) (f64_mul (Finite j) (Finite p)) = Finite f" "\<bar>f - (1 + j * p)\<bar> \<le> 5 * f64_eps"
    by (rule factor_near [OF j p])
  obtain t where t: "as_secs_f64 ttl = Finite t"
    "\<bar>t - of_nat ttl / 10 ^ 9\<bar> \<le> 3 * f64_eps * (of_nat ttl / 10 ^ 9) + 5 * f64_tiny" "0 \<le> t"
    by (rule as_secs_f64_near [OF assms(1)])
  define T where "T = rat_of_nat ttl / 10 ^ 9"
  have "rat_of_nat ttl < of_nat DURATION_END" using assms(1) by (simp only: of_nat_less_iff)
  then have T: "0 \<le> T" "T \<le> 2 ^ 64" by (simp_all add: T_def DURATION_END_def)
  define D where "D = f64_eps * T"
  have D: "0 \<le> D" "D \<le> T / 1000" using f64_eps_values T mult_right_mono [of f64_eps "1 / 1000" T] by (simp_all add: D_def)
  have t': "\<bar>t - T\<bar> \<le> 3 * D + 5 * f64_tiny" using t(2) by (simp only: T_def D_def mult.assoc)
  have "\<bar>j * p\<bar> \<le> 1" using j p mult_mono [of j 1 "\<bar>p\<bar>" 1] by (simp add: abs_mult)
  then have f': "\<bar>f\<bar> \<le> 3" using f(2) f64_eps_values by simp
  let ?y = "t * f"
  have "?y - T * (1 + j * p) = (t - T) * f + T * (f - (1 + j * p))" by (simp add: algebra_simps)
  then have "\<bar>?y - T * (1 + j * p)\<bar> \<le> \<bar>t - T\<bar> * \<bar>f\<bar> + T * \<bar>f - (1 + j * p)\<bar>"
    using T abs_triangle_ineq [of "(t - T) * f" "T * (f - (1 + j * p))"] by (simp add: abs_mult)
  also have "\<bar>t - T\<bar> * \<bar>f\<bar> \<le> (3 * D + 5 * f64_tiny) * 3" using t' f' D f64_eps_values by (intro mult_mono) auto
  also have "T * \<bar>f - (1 + j * p)\<bar> \<le> T * (5 * f64_eps)" using f(2) T by (intro mult_left_mono) auto
  also have "T * (5 * f64_eps) = 5 * D" by (simp add: D_def)
  finally have y: "\<bar>?y - T * (1 + j * p)\<bar> \<le> 14 * D + 15 * f64_tiny" by simp
  have "\<bar>t\<bar> \<le> 2 * T + 5 * f64_tiny" using t' t(3) D T by simp
  then have "\<bar>?y\<bar> \<le> (2 * T + 5 * f64_tiny) * 3" unfolding abs_mult using f' T f64_eps_values by (intro mult_mono) auto
  then have y': "\<bar>?y\<bar> \<le> 6 * T + 15 * f64_tiny" by simp
  moreover have "f64_tiny \<le> 1" using f64_eps_values by simp
  ultimately have "f64_norm ?y = Finite (f64_round ?y)" using T by (intro f64_norm_finite) simp
  then have val: "f64_mul (as_secs_f64 ttl) (Finite f) = Finite (f64_round ?y)" using t(1) by simp
  have "f64_eps * \<bar>?y\<bar> \<le> f64_eps * (6 * T + 15 * f64_tiny)" using y' f64_eps_values by (intro mult_left_mono) auto
  also have "\<dots> = 6 * D + 15 * (f64_eps * f64_tiny)" by (simp add: D_def algebra_simps)
  also have "f64_eps * f64_tiny \<le> 1 * f64_tiny" using f64_eps_values by (intro mult_right_mono) auto
  finally have "f64_eps * \<bar>?y\<bar> \<le> 6 * D + 15 * f64_tiny" by simp
  with f64_round_error [of ?y] y have v: "\<bar>f64_round ?y - T * (1 + j * p)\<bar> \<le> 20 * D + 31 * f64_tiny" by linarith
  show ?thesis
  proof (cases "try_from_secs_f64 (Finite (f64_round ?y))")
    case None
    then have "jittered hash_one ttl jitter lid = ttl"
      by (simp only: jittered_def Let_def assms(2) unit f(1) val option.case)
    then show ?thesis ..
  next
    case (Some d)
    then have "d = nat (round_even (f64_round ?y * 10 ^ 9))" "0 \<le> f64_round ?y"
      by (auto split: if_splits)
    then have "int d = round_even (f64_round ?y * 10 ^ 9)"
      using round_even_nonneg [of "f64_round ?y * 10 ^ 9"] by simp
    then have d: "rat_of_nat d = of_int (round_even (f64_round ?y * 10 ^ 9))" by (metis of_int_of_nat_eq)
    have "\<bar>of_nat d - f64_round ?y * 10 ^ 9\<bar> \<le> 1 / 2" unfolding d by (rule round_even_near)
    moreover have "\<bar>f64_round ?y * 10 ^ 9 - T * (1 + j * p) * 10 ^ 9\<bar> \<le> (20 * D + 31 * f64_tiny) * 10 ^ 9"
    proof -
      have "\<bar>a * 10 ^ 9 - b * 10 ^ 9\<bar> = \<bar>a - b\<bar> * 10 ^ 9" for a b :: rat
        by (simp only: left_diff_distrib [symmetric] abs_mult) simp
      then show ?thesis using mult_right_mono [OF v, of "10 ^ 9"] by simp
    qed
    moreover have "T * (1 + j * p) * 10 ^ 9 = of_nat ttl * (1 + j * p)" by (simp add: T_def)
    moreover have "(20 * D + 31 * f64_tiny) * 10 ^ 9 \<le> of_nat ttl / 2 ^ 48 + 1 / 2"
    proof -
      have "20 * D * 10 ^ 9 = 20 * f64_eps * of_nat ttl" by (simp add: D_def T_def)
      moreover have "20 * f64_eps \<le> 1 / 2 ^ 48" by (simp add: f64_eps_def)
      then have "20 * f64_eps * of_nat ttl \<le> 1 / 2 ^ 48 * of_nat ttl" by (rule mult_right_mono) simp
      moreover have "31 * f64_tiny * 10 ^ 9 \<le> 1 / 2" using f64_eps_values by simp
      ultimately show ?thesis by (simp add: distrib_right)
    qed
    ultimately have "\<bar>of_nat d - of_nat ttl * (1 + j * p)\<bar> \<le> of_nat ttl / 2 ^ 48 + 1" by linarith
    moreover have "jittered hash_one ttl jitter lid = d"
      by (simp only: jittered_def Let_def assms(2) unit f(1) val Some option.case)
    ultimately show ?thesis by simp
  qed
qed

text \<open>Without jitter a TTL of whole seconds is kept as it is.\<close>

lemma jittered_none:
  assumes "n \<le> 2 ^ 53"
  shows "jittered hash_one (n * 10 ^ 9) (Finite 0) lid = n * 10 ^ 9"
proof -
  have zero: "f64_norm 0 = Finite 0" by (simp add: f64_norm_def f64_round_def)
  have one: "f64_norm 1 = Finite 1" using f64_of_nat_exact [of 1] by (simp add: f64_of_nat_def)
  have nat: "f64_norm (of_nat n) = Finite (of_nat n)" using f64_of_nat_exact [OF assms] by (simp only: f64_of_nat_def)
  have "(n * 10 ^ 9) div 10 ^ 9 = n" "(n * 10 ^ 9) mod 10 ^ 9 = 0" by (simp_all del: power_numeral_even)
  moreover have "f64_of_nat 0 = Finite 0" using zero by (simp add: f64_of_nat_def)
  moreover have "f64_of_nat n = Finite (of_nat n)" using nat by (simp add: f64_of_nat_def)
  ultimately have t: "as_secs_f64 (n * 10 ^ 9) = Finite (of_nat n)" using zero nat by (simp add: as_secs_f64_def)
  have unit: "f64_sub (f64_mul (Finite 2) (f64_div (f64_of_nat (unat (drop_bit 11 (hash_one lid)))) (2 ^ 53))) (Finite 1) =
      Finite (of_nat (unat (drop_bit 11 (hash_one lid))) / 2 ^ 52 - 1)"
    by (rule unit_exact [OF hash_bits])
  have "rat_of_nat n \<le> of_nat (2 ^ 53)" using assms by (simp only: of_nat_le_iff)
  then have "rat_of_nat n \<le> 2 ^ 53" by simp
  then have "rat_of_nat n < 2 ^ 64" by (rule le_less_trans) simp
  moreover have "rat_of_nat n * 10 ^ 9 = of_int (int (n * 10 ^ 9))" by simp
  then have "round_even (rat_of_nat n * 10 ^ 9) = int (n * 10 ^ 9)" by (simp only: round_even_int)
  ultimately have "try_from_secs_f64 (Finite (of_nat n)) = Some (n * 10 ^ 9)" by (simp only: try_from_secs_f64.simps) simp
  then show ?thesis
    by (simp only: jittered_def Let_def f64_clamp01.simps unit t f64_mul.simps f64_add.simps mult_zero_left zero one nat
        add_0_right mult_1_right less_irrefl if_False zero_less_one [THEN less_not_sym] option.case)
qed

lemma jittered_within:
  assumes "ttl < DURATION_END" "f64_clamp01 jitter = Finite j"
  shows "(1 - j) * of_nat ttl - (of_nat ttl / 2 ^ 48 + 1) \<le> of_nat (jittered hash_one ttl jitter lid) \<and>
    of_nat (jittered hash_one ttl jitter lid) \<le> (1 + j) * of_nat ttl + (of_nat ttl / 2 ^ 48 + 1)"
proof -
  define p where "p = rat_of_nat (unat (drop_bit 11 (hash_one lid))) / 2 ^ 52 - 1"
  let ?d = "rat_of_nat (jittered hash_one ttl jitter lid)"
  have j: "0 \<le> j" using assms(2) by (cases jitter) (auto split: if_splits)
  have "\<bar>p\<bar> \<le> 1" unfolding p_def by (rule hash_unit)
  with j have "\<bar>j * p\<bar> \<le> j" using mult_left_mono [of "\<bar>p\<bar>" 1 j] by (simp add: abs_mult)
  then have "- (j * of_nat ttl) \<le> j * p * of_nat ttl" "j * p * of_nat ttl \<le> j * of_nat ttl"
    by (auto simp flip: mult_minus_left intro: mult_right_mono)
  then have "(1 - j) * of_nat ttl \<le> of_nat ttl * (1 + j * p)" "of_nat ttl * (1 + j * p) \<le> (1 + j) * of_nat ttl"
    by (simp_all add: algebra_simps)
  moreover have "0 \<le> rat_of_nat ttl / 2 ^ 48 + 1" "(1 - j) * of_nat ttl \<le> rat_of_nat ttl" "rat_of_nat ttl \<le> (1 + j) * of_nat ttl"
    using j by (simp_all add: algebra_simps)
  moreover have "?d = of_nat ttl \<or> \<bar>?d - of_nat ttl * (1 + j * p)\<bar> \<le> of_nat ttl / 2 ^ 48 + 1"
    using jittered_near [OF assms, of p hash_one lid] p_def by (metis (no_types))
  ultimately show ?thesis by (auto simp: abs_le_iff)
qed

section \<open>Properties\<close>

text \<open>C28 (jitter\_bounded): for every hash, id and jitter that is a number, the lifetime of a cached route is
within \<open>1 \<plusminus> jitter\<close> of the TTL, the jitter clamped to the unit interval, up to one part in \<open>2^48\<close> and
a nanosecond of rounding, also where the product cannot be a duration and the TTL is kept.\<close>

theorem jitter_bounded:
  assumes "ttl < DURATION_END" "f64_clamp01 jitter = Finite j"
  shows "(1 - j) * of_nat ttl - (of_nat ttl / 2 ^ 48 + 1) \<le> of_nat (jittered hash_one ttl jitter lid) \<and>
    of_nat (jittered hash_one ttl jitter lid) \<le> (1 + j) * of_nat ttl + (of_nat ttl / 2 ^ 48 + 1)"
  using assms by (rule jittered_within)

theorem jitter_bounded_witness: "jittered (\<lambda>_. 0) 10000000000 (Finite 0) 0 \<le> 10000000002"
proof -
  have "10000000000 < DURATION_END" by (simp add: DURATION_END_def)
  from jitter_bounded [OF this, of "Finite 0" 0 "\<lambda>_. 0" 0]
  have "rat_of_nat (jittered (\<lambda>_. 0) 10000000000 (Finite 0) 0) < of_nat 10000000003" by simp
  then show ?thesis unfolding of_nat_less_iff by simp
qed

end
