(* ===== verification/Route_Cache.thy ===== *)
theory Route_Cache
  imports Routing Jitter
begin

text \<open>
  The caching lookup (\<open>cache.rs\<close>): entries with expiry, the key index, the eviction order,
  single-flight loads and invalidation. Hash maps are association lists with distinct keys,
  hash sets are lists without repetition. Instants and durations are nanoseconds; the
  largest instant the platform can represent and the keyed hash behind the jitter (\<open>Jitter\<close>) are
  parameters (\<open>cache_env\<close>). A load and its watch channel are named by the load's id.
\<close>

section \<open>State\<close>

record cache_config =
  cfg_ttl :: nat
  cfg_negative_ttl :: nat
  cfg_jitter :: f64
  cfg_max_entries :: nat
  cfg_stale_if_error :: "nat option"
  cfg_load_timeout :: nat
  cfg_max_inflight_loads :: nat

record cache_env =
  env_instant_max :: nat
  env_hash :: "nat \<Rightarrow> 64 word"

definition cache_secs :: "nat \<Rightarrow> nat" where "cache_secs n = n * 1000000000"

text \<open>The literal \<open>0.1\<close> is the double closest to one tenth.\<close>

definition cache_config_default :: cache_config where
  "cache_config_default = \<lparr>cfg_ttl = cache_secs 30, cfg_negative_ttl = cache_secs 5,
     cfg_jitter = f64_norm (1 / 10), cfg_max_entries = 100000,
     cfg_stale_if_error = None, cfg_load_timeout = cache_secs 10, cfg_max_inflight_loads = 1024\<rparr>"

record cache_entry =
  ent_hits :: route_hits
  ent_expires :: nat
  ent_stale_until :: nat
  ent_id :: nat

record cache_state =
  cs_entries :: "(route_candidates \<times> cache_entry) list"
  cs_index :: "(route_key \<times> route_candidates list) list"
  cs_order :: "(route_candidates \<times> nat) list"
  cs_inflight :: "(route_candidates \<times> nat) list"
  cs_next_id :: nat
  cs_running_loads :: nat
  cs_last_purge :: "nat option"

datatype cache_event = Hit | NegativeHit | Miss | Coalesced | StaleServed | LoadErrorEvent | Shed

definition cache_new :: cache_state where
  "cache_new = \<lparr>cs_entries = [], cs_index = [], cs_order = [], cs_inflight = [], cs_next_id = 0,
     cs_running_loads = 0, cs_last_purge = None\<rparr>"

definition HUNDRED_YEARS :: nat where
  "HUNDRED_YEARS = 100 * 365 * 24 * 3600 * 1000000000"

definition later :: "cache_env \<Rightarrow> nat \<Rightarrow> nat \<Rightarrow> nat" where
  "later env t d = (if t + d \<le> env_instant_max env then t + d else t + HUNDRED_YEARS)"

definition load_aborted :: lookup_error where
  "load_aborted = LookupError ''route load aborted before completing''"

section \<open>The index\<close>

definition index_get :: "(route_key \<times> route_candidates list) list \<Rightarrow> route_key \<Rightarrow> route_candidates list" where
  "index_get idx key = (case map_of idx key of None \<Rightarrow> [] | Some cs \<Rightarrow> cs)"

definition index_add ::
    "route_candidates \<Rightarrow> route_key \<Rightarrow> (route_key \<times> route_candidates list) list \<Rightarrow>
     (route_key \<times> route_candidates list) list" where
  "index_add candidates key idx = AList.update key (List.insert candidates (index_get idx key)) idx"

definition index_remove ::
    "route_candidates \<Rightarrow> route_key \<Rightarrow> (route_key \<times> route_candidates list) list \<Rightarrow>
     (route_key \<times> route_candidates list) list" where
  "index_remove candidates key idx =
     (case map_of idx key of
        None \<Rightarrow> idx
      | Some indexed \<Rightarrow>
          (let indexed' = removeAll candidates indexed
           in if indexed' = [] then AList.delete key idx else AList.update key indexed' idx))"

section \<open>Operations on the state\<close>

definition take_id :: "cache_state \<Rightarrow> nat \<times> cache_state" where
  "take_id st = (cs_next_id st, st\<lparr>cs_next_id := cs_next_id st + 1\<rparr>)"

definition remove_entry :: "route_candidates \<Rightarrow> cache_state \<Rightarrow> cache_state" where
  "remove_entry candidates st =
     (if map_of (cs_entries st) candidates = None then st
      else st\<lparr>cs_entries := AList.delete candidates (cs_entries st),
              cs_index := fold (index_remove candidates) (cand_keys candidates) (cs_index st)\<rparr>)"

definition is_live :: "cache_state \<Rightarrow> route_candidates \<times> nat \<Rightarrow> bool" where
  "is_live st r = (case map_of (cs_entries st) (fst r) of None \<Rightarrow> False | Some e \<Rightarrow> ent_id e = snd r)"

function evict_loop :: "cache_config \<Rightarrow> cache_state \<Rightarrow> cache_state" where
  "evict_loop cfg st =
     (if length (cs_entries st) \<ge> cfg_max_entries cfg
      then case cs_order st of
             [] \<Rightarrow> st
           | r # rest \<Rightarrow>
               (let st' = st\<lparr>cs_order := rest\<rparr>
                in evict_loop cfg (if is_live st' r then remove_entry (fst r) st' else st'))
      else st)"
  by pat_completeness auto
termination
  by (relation "measure (\<lambda>(cfg, st). length (cs_order st))") (auto simp: remove_entry_def)

declare evict_loop.simps [simp del]

definition dead_entries :: "nat \<Rightarrow> cache_state \<Rightarrow> route_candidates list" where
  "dead_entries now st = map fst (filter (\<lambda>(_, e). now \<ge> ent_stale_until e) (cs_entries st))"

definition make_room :: "cache_config \<Rightarrow> nat \<Rightarrow> cache_state \<Rightarrow> cache_state" where
  "make_room cfg now st =
     (if length (cs_entries st) < cfg_max_entries cfg then st
      else
        let purge_due = (case cs_last_purge st of
                           None \<Rightarrow> True
                         | Some purged \<Rightarrow> now - purged \<ge> cfg_negative_ttl cfg);
            st' = (if purge_due
                   then (fold remove_entry (dead_entries now st) st)\<lparr>cs_last_purge := Some now\<rparr>
                   else st)
        in evict_loop cfg st')"

definition cache_insert ::
    "cache_env \<Rightarrow> cache_config \<Rightarrow> nat \<Rightarrow> route_candidates \<Rightarrow> route_hits \<Rightarrow> cache_state \<Rightarrow> cache_state" where
  "cache_insert env cfg now candidates hits st =
     (if cfg_max_entries cfg = 0 then st
      else
        let (lid, st1) = take_id st;
            ttl = (if hits = [] then cfg_negative_ttl cfg else jittered (env_hash env) (cfg_ttl cfg) (cfg_jitter cfg) lid);
            expires = later env now ttl;
            stale_until = later env expires (case cfg_stale_if_error cfg of None \<Rightarrow> 0 | Some d \<Rightarrow> d);
            st2 = (if map_of (cs_entries st1) candidates = None
                   then let st' = make_room cfg now st1
                        in st'\<lparr>cs_index := fold (index_add candidates) (cand_keys candidates) (cs_index st')\<rparr>
                   else st1);
            st3 = st2\<lparr>cs_entries := AList.update candidates
                         \<lparr>ent_hits = hits, ent_expires = expires, ent_stale_until = stale_until, ent_id = lid\<rparr>
                         (cs_entries st2),
                       cs_order := cs_order st2 @ [(candidates, lid)]\<rparr>
        in if length (cs_order st3) > cfg_max_entries cfg * 2
           then st3\<lparr>cs_order := filter (is_live st3) (cs_order st3)\<rparr>
           else st3)"

definition start_load :: "route_candidates \<Rightarrow> cache_state \<Rightarrow> nat \<times> cache_state" where
  "start_load candidates st =
     (let (lid, st1) = take_id st
      in (lid, st1\<lparr>cs_running_loads := cs_running_loads st1 + 1,
                  cs_inflight := AList.update candidates lid (cs_inflight st1)\<rparr>))"

text \<open>\<open>LoadGuard::finish\<close>; \<^term>\<open>None\<close> would be the underflow of \<open>running_loads\<close>.\<close>

definition finish_load ::
    "cache_env \<Rightarrow> cache_config \<Rightarrow> nat \<Rightarrow> route_candidates \<Rightarrow> nat \<Rightarrow> load_result \<Rightarrow> cache_state \<Rightarrow>
     (cache_state \<times> cache_event list) option" where
  "finish_load env cfg now candidates lid res st =
     (if cs_running_loads st = 0 then None
      else
        let st1 = st\<lparr>cs_running_loads := cs_running_loads st - 1\<rparr>;
            owns_slot = (map_of (cs_inflight st1) candidates = Some lid);
            st2 = (if owns_slot then st1\<lparr>cs_inflight := AList.delete candidates (cs_inflight st1)\<rparr> else st1);
            st3 = (case res of
                     Ok hits \<Rightarrow> if owns_slot then cache_insert env cfg now candidates hits st2 else st2
                   | Err _ \<Rightarrow>
                       (case map_of (cs_entries st2) candidates of
                          None \<Rightarrow> st2
                        | Some e \<Rightarrow> if now \<ge> ent_stale_until e then remove_entry candidates st2 else st2))
        in Some (st3, case res of Ok _ \<Rightarrow> [] | Err _ \<Rightarrow> [LoadErrorEvent]))"

definition cache_invalidate :: "route_key \<Rightarrow> cache_state \<Rightarrow> cache_state" where
  "cache_invalidate key st =
     (let indexed = index_get (cs_index st) key;
          st1 = fold remove_entry indexed (st\<lparr>cs_index := AList.delete key (cs_index st)\<rparr>)
      in st1\<lparr>cs_inflight := filter (\<lambda>(c, _). \<not> cand_contains c key) (cs_inflight st1)\<rparr>)"

definition cache_clear :: "cache_state \<Rightarrow> cache_state" where
  "cache_clear st = st\<lparr>cs_entries := [], cs_index := [], cs_order := [], cs_inflight := []\<rparr>"

definition cache_len :: "cache_state \<Rightarrow> nat" where
  "cache_len st = length (cs_entries st)"

definition cache_is_empty :: "cache_state \<Rightarrow> bool" where
  "cache_is_empty st \<longleftrightarrow> cache_len st = 0"

section \<open>A lookup\<close>

text \<open>
  What a lookup does under the lock: an answer, or the load it waits for and the stale hits
  it may fall back on. \<open>Miss\<close> says that this lookup started the load, \<open>Coalesced\<close> that it joined.
\<close>

datatype lookup_step =
    Answered load_result "cache_event list"
  | Waiting nat "route_hits option" cache_event

definition shed :: "route_hits option \<Rightarrow> load_result \<times> cache_event list" where
  "shed stale =
     (case stale of
        Some hits \<Rightarrow> (Ok hits, [Shed, StaleServed])
      | None \<Rightarrow> (Err (LookupError ''too many route loads in flight''), [Shed]))"

definition join_or_load ::
    "cache_config \<Rightarrow> route_candidates \<Rightarrow> route_hits option \<Rightarrow> cache_state \<Rightarrow>
     lookup_step \<times> cache_state" where
  "join_or_load cfg candidates stale st =
     (case map_of (cs_inflight st) candidates of
        Some lid \<Rightarrow> (Waiting lid stale Coalesced, st)
      | None \<Rightarrow>
          if cs_running_loads st \<ge> cfg_max_inflight_loads cfg
          then (Answered (fst (shed stale)) (snd (shed stale)), st)
          else let (lid, st') = start_load candidates st in (Waiting lid stale Miss, st'))"

definition cached_lookup_begin ::
    "cache_config \<Rightarrow> nat \<Rightarrow> route_candidates \<Rightarrow> cache_state \<Rightarrow> lookup_step \<times> cache_state" where
  "cached_lookup_begin cfg now candidates st =
     (let entry = map_of (cs_entries st) candidates;
          stale = (case entry of
                     None \<Rightarrow> None
                   | Some e \<Rightarrow> if now < ent_stale_until e then Some (ent_hits e) else None)
      in case entry of
           Some e \<Rightarrow>
             if now < ent_expires e
             then (Answered (Ok (ent_hits e)) [if ent_hits e = [] then NegativeHit else Hit], st)
             else join_or_load cfg candidates stale st
         | None \<Rightarrow> join_or_load cfg candidates stale st)"

text \<open>The rest of the lookup, once the channel has a value or its sender is gone (\<^term>\<open>None\<close>).\<close>

definition cached_lookup_end ::
    "load_result option \<Rightarrow> route_hits option \<Rightarrow> load_result \<times> cache_event list" where
  "cached_lookup_end sent stale =
     (let loaded = (case sent of Some r \<Rightarrow> r | None \<Rightarrow> Err load_aborted)
      in case (loaded, stale) of
           (Ok hits, _) \<Rightarrow> (Ok hits, [])
         | (Err _, Some hits) \<Rightarrow> (Ok hits, [StaleServed])
         | (Err error, None) \<Rightarrow> (Err error, []))"

text \<open>
  The whole of \<open>cached_lookup\<close>: its answer and the events it records, \<open>sent\<close> being what the channel had
  if it waited.
\<close>

definition lookup_answer :: "lookup_step \<Rightarrow> load_result option \<Rightarrow> load_result \<times> cache_event list" where
  "lookup_answer step sent =
     (case step of
        Answered res events \<Rightarrow> (res, events)
      | Waiting lid stale event \<Rightarrow>
          (case cached_lookup_end sent stale of (res, events) \<Rightarrow> (res, event # events)))"

text \<open>What the spawned load hands to its guard; a load that panics or is dropped aborts.\<close>

definition load_outcome :: "load_result timed option \<Rightarrow> load_result" where
  "load_outcome r =
     (case r of
        None \<Rightarrow> Err load_aborted
      | Some (Done res) \<Rightarrow> res
      | Some Elapsed \<Rightarrow> Err (LookupError ''route load timed out''))"

section \<open>The cache and its loads as a transition system\<close>

text \<open>
  \<open>sys_guards\<close> are the loads whose task has not finished; \<open>sys_sent\<close> records what finished
  loads sent to their waiters, for which candidates and when.
\<close>

record cache_sys =
  sys_state :: cache_state
  sys_guards :: "(nat \<times> route_candidates) list"
  sys_sent :: "(nat \<times> route_candidates \<times> load_result \<times> nat) list"
  sys_clock :: nat

definition sys_init :: cache_sys where
  "sys_init = \<lparr>sys_state = cache_new, sys_guards = [], sys_sent = [], sys_clock = 0\<rparr>"

inductive cache_step :: "cache_env \<Rightarrow> cache_config \<Rightarrow> cache_sys \<Rightarrow> cache_sys \<Rightarrow> bool"
  for env :: cache_env and cfg :: cache_config where
  lookup:
    "cached_lookup_begin cfg (sys_clock s) c (sys_state s) = (r, st) \<Longrightarrow>
     cache_step env cfg s
       (s\<lparr>sys_state := st,
          sys_guards := (case r of Waiting lid _ Miss \<Rightarrow> (lid, c) # sys_guards s | _ \<Rightarrow> sys_guards s)\<rparr>)"
| finish:
    "(lid, c) \<in> set (sys_guards s) \<Longrightarrow>
     finish_load env cfg (sys_clock s) c lid (load_outcome out) (sys_state s) = Some (st, ev) \<Longrightarrow>
     cache_step env cfg s
       (s\<lparr>sys_state := st, sys_guards := remove1 (lid, c) (sys_guards s),
          sys_sent := (lid, c, load_outcome out, sys_clock s) # sys_sent s\<rparr>)"
| invalidate: "cache_step env cfg s (s\<lparr>sys_state := cache_invalidate k (sys_state s)\<rparr>)"
| clear: "cache_step env cfg s (s\<lparr>sys_state := cache_clear (sys_state s)\<rparr>)"
| tick: "cache_step env cfg s (s\<lparr>sys_clock := sys_clock s + d\<rparr>)"

inductive_cases cache_stepE: "cache_step env cfg s s'"

abbreviation cache_reachable :: "cache_env \<Rightarrow> cache_config \<Rightarrow> cache_sys \<Rightarrow> bool" where
  "cache_reachable env cfg \<equiv> (cache_step env cfg)\<^sup>*\<^sup>* sys_init"

end
