(* ===== verification/Metrics.thy ===== *)
theory Metrics
  imports Route_Cache Dns_Resolver
begin

text \<open>
  The metric events (\<open>metrics.rs\<close>) and their labels. Durations carried by events are not
  modelled. The cache events are those of \<open>Route_Cache\<close>.
\<close>

record listener_info =
  li_network :: string
  li_address :: socket_addr
  li_name :: "string option"

definition listener_tcp :: "socket_addr \<Rightarrow> listener_info" where
  "listener_tcp address = \<lparr>li_network = ''tcp'', li_address = address, li_name = None\<rparr>"

definition listener_with_name :: "listener_info \<Rightarrow> string \<Rightarrow> listener_info" where
  "listener_with_name li name = li\<lparr>li_name := Some name\<rparr>"

datatype connection_outcome =
    Proxied | ProxyError | ClientClosed | HelloTimeout | InvalidHello | MissingSni | UnknownHost
  | LookupFailed | LookupTimeout | UpstreamConnectFailed | UpstreamTimeout | IdleTimeout
  | ShutdownCancelled | ShutdownForced | Aborted

fun connection_outcome_as_str :: "connection_outcome \<Rightarrow> string" where
  "connection_outcome_as_str Proxied = ''proxied''"
| "connection_outcome_as_str ProxyError = ''proxy_error''"
| "connection_outcome_as_str ClientClosed = ''client_closed''"
| "connection_outcome_as_str HelloTimeout = ''hello_timeout''"
| "connection_outcome_as_str InvalidHello = ''invalid_hello''"
| "connection_outcome_as_str MissingSni = ''missing_sni''"
| "connection_outcome_as_str UnknownHost = ''unknown_host''"
| "connection_outcome_as_str LookupFailed = ''lookup_failed''"
| "connection_outcome_as_str LookupTimeout = ''lookup_timeout''"
| "connection_outcome_as_str UpstreamConnectFailed = ''upstream_connect_failed''"
| "connection_outcome_as_str UpstreamTimeout = ''upstream_timeout''"
| "connection_outcome_as_str IdleTimeout = ''idle_timeout''"
| "connection_outcome_as_str ShutdownCancelled = ''shutdown_cancelled''"
| "connection_outcome_as_str ShutdownForced = ''shutdown_forced''"
| "connection_outcome_as_str Aborted = ''aborted''"

datatype lookup_outcome = LookupFound | LookupNotFound | LookupErrored | LookupTimedOut

fun lookup_outcome_as_str :: "lookup_outcome \<Rightarrow> string" where
  "lookup_outcome_as_str LookupFound = ''found''"
| "lookup_outcome_as_str LookupNotFound = ''not_found''"
| "lookup_outcome_as_str LookupErrored = ''error''"
| "lookup_outcome_as_str LookupTimedOut = ''timeout''"

fun cache_event_as_str :: "cache_event \<Rightarrow> string" where
  "cache_event_as_str Hit = ''hit''"
| "cache_event_as_str NegativeHit = ''negative_hit''"
| "cache_event_as_str Miss = ''miss''"
| "cache_event_as_str Coalesced = ''coalesced''"
| "cache_event_as_str StaleServed = ''stale_served''"
| "cache_event_as_str LoadErrorEvent = ''load_error''"
| "cache_event_as_str Shed = ''shed''"

datatype metric_event =
    ConnectionOpened listener_info
  | ConnectionClosed listener_info connection_outcome
  | BytesRead listener_info nat
  | BytesWritten listener_info nat
  | RouteLookup listener_info lookup_outcome
  | UpstreamConnect listener_info bool
  | CacheMetric cache_event

section \<open>Labels are distinct\<close>

text \<open>
  No two connection outcomes, lookup outcomes or cache events share a label, so no two of
  them are merged into one series.
\<close>

lemma outcome_str_inj: "inj connection_outcome_as_str"
proof (rule injI)
  fix x y assume "connection_outcome_as_str x = connection_outcome_as_str y"
  then show "x = y" by (cases x; cases y) simp_all
qed

lemma lookup_str_inj: "inj lookup_outcome_as_str"
proof (rule injI)
  fix x y assume "lookup_outcome_as_str x = lookup_outcome_as_str y"
  then show "x = y" by (cases x; cases y) simp_all
qed

lemma cache_event_str_inj: "inj cache_event_as_str"
proof (rule injI)
  fix x y assume "cache_event_as_str x = cache_event_as_str y"
  then show "x = y" by (cases x; cases y) simp_all
qed

end
