(* ===== verification/Otel.thy ===== *)
theory Otel
  imports Metrics "HOL-Library.AList"
begin

text \<open>
  The Prometheus sink (\<open>otel_metrics.rs\<close>): which instrument each metric event feeds, with
  which labels, and the cache of a listener's labels. The OpenTelemetry SDK is not part of the
  sources: the model is the sequence of calls made to its instruments, and a series' value is
  the sum of what was added to it. Durations are not modelled, only that one was recorded.
\<close>

section \<open>The sink\<close>

type_synonym labels = "(string \<times> string) list"

datatype instrument =
    ConnectionsOpened | ConnectionsClosed | OpenConnections | BytesReadTotal | BytesWrittenTotal
  | ConnectionDuration | RouteLookupDuration | UpstreamConnectDuration | CacheEvents

fun instrument_name :: "instrument \<Rightarrow> string" where
  "instrument_name ConnectionsOpened = ''snirouter_connections_opened_total''"
| "instrument_name ConnectionsClosed = ''snirouter_connections_closed_total''"
| "instrument_name OpenConnections = ''snirouter_open_connections''"
| "instrument_name BytesReadTotal = ''snirouter_bytes_read_total''"
| "instrument_name BytesWrittenTotal = ''snirouter_bytes_written_total''"
| "instrument_name ConnectionDuration = ''snirouter_connection_duration_seconds''"
| "instrument_name RouteLookupDuration = ''snirouter_route_lookup_duration_seconds''"
| "instrument_name UpstreamConnectDuration = ''snirouter_upstream_connect_duration_seconds''"
| "instrument_name CacheEvents = ''snirouter_cache_events_total''"

text \<open>A call to an instrument: \<open>add\<close> with its amount, or \<open>record\<close> of a histogram.\<close>

datatype call = Added instrument labels int | Recorded instrument labels

record otel_metrics =
  om_listener_labels :: "(socket_addr \<times> labels) list"
  om_calls :: "call list"

definition otel_new :: otel_metrics where
  "otel_new = \<lparr>om_listener_labels = [], om_calls = []\<rparr>"

definition otel_labels :: "listener_info \<Rightarrow> otel_metrics \<Rightarrow> labels \<times> otel_metrics" where
  "otel_labels li st =
     (let address = li_address li
      in case map_of (om_listener_labels st) address of
           Some labels \<Rightarrow> (labels, st)
         | None \<Rightarrow>
             (let labels = [(''network'', li_network li), (''address'', show_socket_addr address)]
              in (labels, st\<lparr>om_listener_labels := AList.update address labels (om_listener_labels st)\<rparr>)))"

definition otel_labels_with ::
    "listener_info \<Rightarrow> string \<Rightarrow> string \<Rightarrow> otel_metrics \<Rightarrow> labels \<times> otel_metrics" where
  "otel_labels_with li key v st =
     (let (labels, st') = otel_labels li st in (labels @ [(key, v)], st'))"

definition instrument_call :: "call \<Rightarrow> otel_metrics \<Rightarrow> otel_metrics" where
  "instrument_call c st = st\<lparr>om_calls := om_calls st @ [c]\<rparr>"

fun otel_record :: "metric_event \<Rightarrow> otel_metrics \<Rightarrow> otel_metrics" where
  "otel_record (ConnectionOpened li) st =
     (let (labels, st) = otel_labels li st
      in instrument_call (Added OpenConnections labels 1)
           (instrument_call (Added ConnectionsOpened labels 1) st))"
| "otel_record (ConnectionClosed li outcome) st =
     (let (labels, st) = otel_labels li st;
          st = instrument_call (Added OpenConnections labels (- 1)) st;
          st = instrument_call (Recorded ConnectionDuration labels) st;
          (labels, st) = otel_labels_with li ''outcome'' (connection_outcome_as_str outcome) st
      in instrument_call (Added ConnectionsClosed labels 1) st)"
| "otel_record (BytesRead li bytes) st =
     (let (labels, st) = otel_labels li st
      in instrument_call (Added BytesReadTotal labels (int bytes)) st)"
| "otel_record (BytesWritten li bytes) st =
     (let (labels, st) = otel_labels li st
      in instrument_call (Added BytesWrittenTotal labels (int bytes)) st)"
| "otel_record (RouteLookup li outcome) st =
     (let (labels, st) = otel_labels_with li ''outcome'' (lookup_outcome_as_str outcome) st
      in instrument_call (Recorded RouteLookupDuration labels) st)"
| "otel_record (UpstreamConnect li ok) st =
     (let (labels, st) = otel_labels_with li ''result'' (if ok then ''ok'' else ''error'') st
      in instrument_call (Recorded UpstreamConnectDuration labels) st)"
| "otel_record (CacheMetric event) st =
     instrument_call (Added CacheEvents [(''event'', cache_event_as_str event)] 1) st"

section \<open>The value of a series\<close>

fun call_value :: "instrument \<Rightarrow> labels \<Rightarrow> call \<Rightarrow> int" where
  "call_value i labels (Added j labels' n) = (if i = j \<and> labels = labels' then n else 0)"
| "call_value i labels (Recorded j labels') = (if i = j \<and> labels = labels' then 1 else 0)"

definition series :: "instrument \<Rightarrow> labels \<Rightarrow> otel_metrics \<Rightarrow> int" where
  "series i labels st = sum_list (map (call_value i labels) (om_calls st))"

text \<open>The labels of a listener made by \<open>ListenerInfo::tcp\<close>.\<close>

definition tcp_labels :: "listener_info \<Rightarrow> labels" where
  "tcp_labels li = [(''network'', ''tcp''), (''address'', show_socket_addr (li_address li))]"

definition event_listener :: "metric_event \<Rightarrow> listener_info option" where
  "event_listener event =
     (case event of
        ConnectionOpened li \<Rightarrow> Some li | ConnectionClosed li _ \<Rightarrow> Some li | BytesRead li _ \<Rightarrow> Some li
      | BytesWritten li _ \<Rightarrow> Some li | RouteLookup li _ \<Rightarrow> Some li | UpstreamConnect li _ \<Rightarrow> Some li
      | CacheMetric _ \<Rightarrow> None)"

definition tcp_event :: "metric_event \<Rightarrow> bool" where
  "tcp_event event = (case event_listener event of None \<Rightarrow> True | Some li \<Rightarrow> li_network li = ''tcp'')"

definition labels_ok :: "otel_metrics \<Rightarrow> bool" where
  "labels_ok st \<longleftrightarrow>
     (\<forall>address labels. map_of (om_listener_labels st) address = Some labels \<longrightarrow>
        labels = [(''network'', ''tcp''), (''address'', show_socket_addr address)])"

lemma otel_labels_tcp:
  assumes "labels_ok st" "li_network li = ''tcp''"
  shows "\<exists>st'. otel_labels li st = (tcp_labels li, st') \<and> labels_ok st' \<and> om_calls st' = om_calls st"
proof (cases "map_of (om_listener_labels st) (li_address li)")
  case None
  with assms show ?thesis
    by (auto simp: otel_labels_def tcp_labels_def labels_ok_def update_conv Let_def)
next
  case (Some labels)
  with assms have "labels = tcp_labels li" unfolding labels_ok_def tcp_labels_def by blast
  with Some assms show ?thesis by (simp add: otel_labels_def)
qed

text \<open>What one event adds to a series, whatever was cached before.\<close>

fun event_value :: "instrument \<Rightarrow> labels \<Rightarrow> metric_event \<Rightarrow> int" where
  "event_value i labels (ConnectionOpened li) =
     (if i \<in> {ConnectionsOpened, OpenConnections} \<and> labels = tcp_labels li then 1 else 0)"
| "event_value i labels (ConnectionClosed li outcome) =
     (if i = OpenConnections \<and> labels = tcp_labels li then - 1
      else if i = ConnectionDuration \<and> labels = tcp_labels li then 1
      else if i = ConnectionsClosed \<and>
        labels = tcp_labels li @ [(''outcome'', connection_outcome_as_str outcome)] then 1
      else 0)"
| "event_value i labels (BytesRead li bytes) =
     (if i = BytesReadTotal \<and> labels = tcp_labels li then int bytes else 0)"
| "event_value i labels (BytesWritten li bytes) =
     (if i = BytesWrittenTotal \<and> labels = tcp_labels li then int bytes else 0)"
| "event_value i labels (RouteLookup li outcome) =
     (if i = RouteLookupDuration \<and>
        labels = tcp_labels li @ [(''outcome'', lookup_outcome_as_str outcome)] then 1 else 0)"
| "event_value i labels (UpstreamConnect li ok) =
     (if i = UpstreamConnectDuration \<and>
        labels = tcp_labels li @ [(''result'', if ok then ''ok'' else ''error'')] then 1 else 0)"
| "event_value i labels (CacheMetric event) =
     (if i = CacheEvents \<and> labels = [(''event'', cache_event_as_str event)] then 1 else 0)"

lemma series_call: "series i labels (instrument_call c st) = series i labels st + call_value i labels c"
  by (simp add: series_def instrument_call_def)

lemma labels_ok_call [simp]: "labels_ok (instrument_call c st) = labels_ok st"
  by (simp add: labels_ok_def instrument_call_def)

lemma series_same: "om_calls st' = om_calls st \<Longrightarrow> series i labels st' = series i labels st"
  by (simp add: series_def)

text \<open>The events other than a close ask for their labels once.\<close>

lemma one_label_event:
  assumes "labels_ok st" "li_network li = ''tcp''"
  obtains st1 where "otel_labels li st = (tcp_labels li, st1)" "labels_ok st1"
    "\<And>i labels. series i labels st1 = series i labels st"
  using otel_labels_tcp [OF assms] series_same by metis

lemma otel_record_closed:
  assumes "labels_ok st" "li_network li = ''tcp''"
  shows "labels_ok (otel_record (ConnectionClosed li outcome) st) \<and>
    series i labels (otel_record (ConnectionClosed li outcome) st) =
      series i labels st + event_value i labels (ConnectionClosed li outcome)"
proof -
  from assms obtain st1 where
    st1: "otel_labels li st = (tcp_labels li, st1)" "labels_ok st1" "\<And>i l. series i l st1 = series i l st"
    by (rule one_label_event) blast
  define st2 where "st2 = instrument_call (Recorded ConnectionDuration (tcp_labels li))
    (instrument_call (Added OpenConnections (tcp_labels li) (- 1)) st1)"
  have "labels_ok st2" using st1(2) by (simp add: st2_def)
  from this assms(2) obtain st3 where
    st3: "otel_labels li st2 = (tcp_labels li, st3)" "labels_ok st3" "\<And>i l. series i l st3 = series i l st2"
    by (rule one_label_event) blast
  have "otel_record (ConnectionClosed li outcome) st = instrument_call
      (Added ConnectionsClosed (tcp_labels li @ [(''outcome'', connection_outcome_as_str outcome)]) 1) st3"
    by (simp add: st1(1) otel_labels_with_def st3(1) st2_def [symmetric])
  with st3(2) show ?thesis
    by (simp add: series_call st3(3)) (simp add: st2_def series_call st1(3))
qed

lemma otel_record_series:
  assumes "labels_ok st" "tcp_event event"
  shows "labels_ok (otel_record event st) \<and>
    series i labels (otel_record event st) = series i labels st + event_value i labels event"
proof (cases "event_listener event")
  case None
  with assms(1) show ?thesis by (cases event) (simp_all add: event_listener_def series_call)
next
  case (Some li)
  with assms(2) have tcp: "li_network li = ''tcp''" by (simp add: tcp_event_def)
  from assms(1) tcp obtain st1 where
    "otel_labels li st = (tcp_labels li, st1)" "labels_ok st1" "\<And>i l. series i l st1 = series i l st"
    by (rule one_label_event) blast
  with Some show ?thesis
    using otel_record_closed [OF assms(1) tcp]
    by (cases event) (auto simp: event_listener_def otel_labels_with_def series_call)
qed

lemma otel_fold_series:
  assumes "labels_ok st" "list_all tcp_event events"
  shows "series i labels (fold otel_record events st) =
    series i labels st + sum_list (map (event_value i labels) events)"
  using assms
proof (induction events arbitrary: st)
  case (Cons event events)
  with otel_record_series [of st event i labels] show ?case by simp
qed simp

lemma labels_ok_new [simp]: "labels_ok otel_new"
  by (simp add: labels_ok_def otel_new_def)

lemma series_new [simp]: "series i labels otel_new = 0"
  by (simp add: series_def otel_new_def)

fun opens :: "labels \<Rightarrow> metric_event \<Rightarrow> bool" where
  "opens labels (ConnectionOpened li) = (tcp_labels li = labels)"
| "opens labels _ = False"

fun closes :: "labels \<Rightarrow> metric_event \<Rightarrow> bool" where
  "closes labels (ConnectionClosed li _) = (tcp_labels li = labels)"
| "closes labels _ = False"

lemma sum_list_count: "sum_list (map (\<lambda>x. if P x then 1 else 0) xs) = int (length (filter P xs))"
  by (induction xs) simp_all

lemma sum_list_diff: "sum_list (map (\<lambda>x. f x - g x) xs) = sum_list (map f xs) - sum_list (map g xs)"
  for f :: "'a \<Rightarrow> int"
  by (induction xs) simp_all

lemma gauge_event:
  "event_value OpenConnections labels event =
     (if opens labels event then 1 else 0) - (if closes labels event then 1 else 0)"
  by (cases event) auto

text \<open>The open-connections gauge after any events.\<close>

lemma gauge_value:
  assumes "list_all tcp_event events"
  shows "series OpenConnections labels (fold otel_record events otel_new) =
    int (length (filter (opens labels) events)) - int (length (filter (closes labels) events))"
  unfolding otel_fold_series [OF labels_ok_new assms] gauge_event [abs_def] sum_list_diff sum_list_count
  by simp

section \<open>Properties\<close>

text \<open>Whatever events the router records, on any number of listeners and in any order,
the open-connections gauge of a listener is the number of its connections opened less the
number closed, and each closed-by-outcome counter is the number closed with that outcome.\<close>

theorem gauge_balanced:
  assumes "list_all tcp_event events"
  shows "series OpenConnections labels (fold otel_record events otel_new) =
      int (length (filter (opens labels) events)) - int (length (filter (closes labels) events)) \<and>
    series ConnectionsClosed (tcp_labels li @ [(''outcome'', connection_outcome_as_str out)])
        (fold otel_record events otel_new) =
      int (length (filter (\<lambda>event. \<exists>li'. event = ConnectionClosed li' out \<and> tcp_labels li' = tcp_labels li)
        events))"
proof
  show "series OpenConnections labels (fold otel_record events otel_new) =
      int (length (filter (opens labels) events)) - int (length (filter (closes labels) events))"
    by (rule gauge_value [OF assms])
  have "event_value ConnectionsClosed (tcp_labels li @ [(''outcome'', connection_outcome_as_str out)]) event =
      (if \<exists>li'. event = ConnectionClosed li' out \<and> tcp_labels li' = tcp_labels li then 1 else 0)" for event
    using outcome_str_inj by (cases event) (auto simp: inj_eq tcp_labels_def)
  then have closed: "event_value ConnectionsClosed (tcp_labels li @ [(''outcome'', connection_outcome_as_str out)]) =
      (\<lambda>event. if \<exists>li'. event = ConnectionClosed li' out \<and> tcp_labels li' = tcp_labels li then 1 else 0)"
    by (rule ext)
  show "series ConnectionsClosed (tcp_labels li @ [(''outcome'', connection_outcome_as_str out)])
        (fold otel_record events otel_new) =
      int (length (filter (\<lambda>event. \<exists>li'. event = ConnectionClosed li' out \<and> tcp_labels li' = tcp_labels li)
        events))"
    unfolding otel_fold_series [OF labels_ok_new assms] closed sum_list_count by simp
qed

theorem gauge_balanced_witness:
  "series OpenConnections (tcp_labels (listener_tcp (V4 [127, 0, 0, 1], 443)))
     (fold otel_record
       [ConnectionOpened (listener_tcp (V4 [127, 0, 0, 1], 443)),
        ConnectionOpened (listener_tcp (V4 [127, 0, 0, 1], 443)),
        ConnectionClosed (listener_tcp (V4 [127, 0, 0, 1], 443)) Proxied] otel_new) = 1"
proof -
  let ?e = "[ConnectionOpened (listener_tcp (V4 [127, 0, 0, 1], 443)),
      ConnectionOpened (listener_tcp (V4 [127, 0, 0, 1], 443)),
      ConnectionClosed (listener_tcp (V4 [127, 0, 0, 1], 443)) Proxied]"
  have "list_all tcp_event ?e" by (simp add: tcp_event_def event_listener_def listener_tcp_def)
  from gauge_balanced [OF this] show ?thesis by (simp del: otel_record.simps)
qed

end
