(* ===== verification/Admin.thy ===== *)
theory Admin
  imports Route_File Server Otel
begin

text \<open>
  The admin listener (\<open>admin.rs\<close>) and the wiring of the application (\<open>lib.rs\<close>, \<open>main.rs\<close>):
  binding, the endpoints, and the order in which shutdown reaches health, router and admin.
  The HTTP server and the Prometheus encoder are not part of the sources: a request is its
  method and path, and the result of encoding the registry is an argument.
\<close>

section \<open>The endpoints\<close>

datatype http_method = GET | OtherMethod string

record http_response =
  resp_status :: nat
  resp_content_type :: string
  resp_body :: string

record admin_limits =
  al_max_connections :: nat
  al_header_timeout :: nat
  al_connection_timeout :: nat

definition admin_limits_default :: admin_limits where
  "admin_limits_default =
     \<lparr>al_max_connections = 256, al_header_timeout = from_secs 2, al_connection_timeout = from_secs 5\<rparr>"

record health =
  draining :: bool

definition health_new :: health where "health_new = \<lparr>draining = False\<rparr>"

definition set_draining :: "health \<Rightarrow> health" where "set_draining h = h\<lparr>draining := True\<rparr>"

definition is_draining :: "health \<Rightarrow> bool" where "is_draining h = draining h"

record admin_routes =
  ar_health_path :: string
  ar_health :: health

definition text_response :: "nat \<Rightarrow> string \<Rightarrow> http_response" where
  "text_response status body =
     \<lparr>resp_status = status, resp_content_type = ''text/plain; charset=utf-8'', resp_body = body\<rparr>"

definition newline :: string where "newline = [char_of (10 :: nat)]"

text \<open>\<open>encoded\<close>: the text of the registry, or the encoder's error.\<close>

definition admin_metrics :: "(string, 'e) result \<Rightarrow> http_response" where
  "admin_metrics encoded =
     (case encoded of
        Err _ \<Rightarrow> text_response 500 (''metrics encoding failed'' @ newline)
      | Ok body \<Rightarrow>
          \<lparr>resp_status = 200, resp_content_type = ''text/plain; version=0.0.4; charset=utf-8'',
           resp_body = body\<rparr>)"

definition admin_handle ::
    "admin_routes \<Rightarrow> (string, 'e) result \<Rightarrow> http_method \<Rightarrow> string \<Rightarrow> http_response" where
  "admin_handle routes encoded meth path =
     (if meth \<noteq> GET then text_response 405 (''method not allowed'' @ newline)
      else if path = ''/metrics'' then admin_metrics encoded
      else if path = ar_health_path routes
      then if is_draining (ar_health routes) then text_response 503 (''draining'' @ newline)
           else text_response 200 (''ok'' @ newline)
      else text_response 404 (''not found'' @ newline))"

section \<open>Slots of the admin listener\<close>

text \<open>
  \<open>AdminServer::serve\<close>: each connection holds a slot from before it is accepted until its task
  ends or is cut off; after shutdown what is left gets a grace period and is then aborted. The
  steps the listener takes on its own after shutdown are \<open>admin_own_step\<close>: a task ends in them
  only because \<open>abort_all\<close> was called. Accepting, and a task that ends by itself, are the others.
\<close>

datatype admin_pc = AdminServing | AdminStopping | AdminAborting | AdminStopped

record admin_sys =
  as_free :: nat
  as_holding :: bool
  as_tasks :: nat
  as_pc :: admin_pc

definition admin_init :: "admin_limits \<Rightarrow> admin_sys" where
  "admin_init limits =
     \<lparr>as_free = al_max_connections limits, as_holding = False, as_tasks = 0, as_pc = AdminServing\<rparr>"

inductive admin_own_step :: "admin_sys \<Rightarrow> admin_sys \<Rightarrow> bool" where
  stop:
    "as_pc s = AdminServing \<Longrightarrow>
     admin_own_step s (s\<lparr>as_pc := AdminStopping, as_free := as_free s + (if as_holding s then 1 else 0),
       as_holding := False\<rparr>)"
| abort:
    "as_pc s = AdminStopping \<Longrightarrow> 0 < as_tasks s \<Longrightarrow> admin_own_step s (s\<lparr>as_pc := AdminAborting\<rparr>)"
| task_aborted:
    "as_pc s = AdminAborting \<Longrightarrow> 0 < as_tasks s \<Longrightarrow>
     admin_own_step s (s\<lparr>as_tasks := as_tasks s - 1, as_free := as_free s + 1\<rparr>)"
| stopped:
    "as_pc s \<in> {AdminStopping, AdminAborting} \<Longrightarrow> as_tasks s = 0 \<Longrightarrow>
     admin_own_step s (s\<lparr>as_pc := AdminStopped\<rparr>)"

inductive admin_step :: "admin_sys \<Rightarrow> admin_sys \<Rightarrow> bool" where
  own: "admin_own_step s s' \<Longrightarrow> admin_step s s'"
| acquire_slot:
    "as_pc s = AdminServing \<Longrightarrow> \<not> as_holding s \<Longrightarrow> 0 < as_free s \<Longrightarrow>
     admin_step s (s\<lparr>as_free := as_free s - 1, as_holding := True\<rparr>)"
| drop_slot:
    "as_holding s \<Longrightarrow> admin_step s (s\<lparr>as_free := as_free s + 1, as_holding := False\<rparr>)"
| spawn_connection:
    "as_pc s = AdminServing \<Longrightarrow> as_holding s \<Longrightarrow>
     admin_step s (s\<lparr>as_holding := False, as_tasks := as_tasks s + 1\<rparr>)"
| task_ends:
    "0 < as_tasks s \<Longrightarrow> admin_step s (s\<lparr>as_tasks := as_tasks s - 1, as_free := as_free s + 1\<rparr>)"

definition held_by_admin :: "admin_sys \<Rightarrow> nat" where
  "held_by_admin s = (if as_holding s then 1 else 0)"

interpretation admin_pool: slot_pool admin_step as_free held_by_admin as_tasks
proof
  fix s s'
  assume "admin_step s s'"
  then show "as_free s' + held_by_admin s' + as_tasks s' = as_free s + held_by_admin s + as_tasks s"
    by cases (auto simp: held_by_admin_def elim: admin_own_step.cases)
qed

lemma admin_slots:
  "admin_step\<^sup>*\<^sup>* (admin_init limits) s \<Longrightarrow> as_tasks s \<le> al_max_connections limits"
  using admin_pool.bounded [of "admin_init limits" s] by (simp add: admin_init_def held_by_admin_def)

lemma admin_stopped_idle:
  "admin_step\<^sup>*\<^sup>* (admin_init limits) s \<Longrightarrow>
   (as_pc s \<noteq> AdminServing \<longrightarrow> \<not> as_holding s) \<and>
   (as_pc s = AdminStopped \<longrightarrow> as_tasks s = 0 \<and> as_free s = al_max_connections limits)"
proof (induction rule: rtranclp_induct)
  case (step s s')
  have "as_free s' + held_by_admin s' + as_tasks s' = al_max_connections limits"
    using admin_pool.conserved [OF rtranclp.rtrancl_into_rtrancl [OF step(1,2)]]
    by (simp add: admin_init_def held_by_admin_def)
  with step(2,3) show ?case by cases (auto simp: held_by_admin_def elim: admin_own_step.cases)
qed (simp add: admin_init_def)

section \<open>Binding\<close>

text \<open>
  \<open>bind_addr addr\<close> is the kernel's answer: the local address, or the error. The listeners of the
  configuration are bound in order, the first failure ends startup.
\<close>

fun bind_listeners ::
    "(socket_addr \<Rightarrow> (socket_addr, io_error) result) \<Rightarrow> socket_addr list \<Rightarrow>
     (listener_info list, io_error) result" where
  "bind_listeners bind_addr [] = Ok []"
| "bind_listeners bind_addr (address # addresses) =
     bind_ok (map_err (\<lambda>e. \<lparr>io_kind = io_kind e,
         io_message = ''failed to bind '' @ show_socket_addr address @ '': '' @ io_message e\<rparr>) (bind_addr address))
       (\<lambda>local_addr. map_ok (\<lambda>infos. listener_tcp local_addr # infos) (bind_listeners bind_addr addresses))"

record bound_app =
  ba_startup :: startup_settings
  ba_router :: router_config
  ba_lookup :: file_route_lookup
  ba_listeners :: "listener_info list"
  ba_admin_addr :: socket_addr
  ba_admin :: admin_routes

definition bound_app_bind ::
    "(socket_addr \<Rightarrow> (socket_addr, io_error) result) \<Rightarrow> (unit, string) result \<Rightarrow> app_config \<Rightarrow>
     (bound_app, io_error) result" where
  "bound_app_bind bind_addr otel config =
     bind_ok (bind_listeners bind_addr (srv_listen (app_server config))) (\<lambda>listeners.
     bind_ok (map_err (\<lambda>message. \<lparr>io_kind = IoOther, io_message = message\<rparr>) otel) (\<lambda>_.
     bind_ok (map_err (\<lambda>e. \<lparr>io_kind = io_kind e,
         io_message = ''failed to bind admin '' @ show_socket_addr (adm_listen (app_admin config)) @ '': '' @
           io_message e\<rparr>) (bind_addr (adm_listen (app_admin config)))) (\<lambda>local_addr.
     Ok \<lparr>ba_startup = \<lparr>startup_server = app_server config, startup_admin = app_admin config\<rparr>,
         ba_router = srv_router (app_server config),
         ba_lookup = file_new (app_routes config),
         ba_listeners = listeners,
         ba_admin_addr = local_addr,
         ba_admin = \<lparr>ar_health_path = adm_health_path (app_admin config), ar_health = health_new\<rparr>\<rparr>)))"

definition listen_addrs :: "bound_app \<Rightarrow> socket_addr list" where
  "listen_addrs app = map li_address (ba_listeners app)"

datatype exit_code = ExitSuccess | ExitFailure

text \<open>\<open>main\<close>, with what its calls return.\<close>

definition main_exit ::
    "string list \<Rightarrow> (app_config, 't config_error) result \<Rightarrow> (app_config \<Rightarrow> (bound_app, io_error) result) \<Rightarrow>
     (bound_app \<Rightarrow> (unit, io_error) result) \<Rightarrow> exit_code" where
  "main_exit args loaded bind_app run =
     (case args of
        _ # arg # _ \<Rightarrow> if arg = ''version'' then ExitSuccess
          else (case loaded of Err _ \<Rightarrow> ExitFailure | Ok config \<Rightarrow>
            (case bind_app config of Err _ \<Rightarrow> ExitFailure | Ok app \<Rightarrow>
              (case run app of Ok _ \<Rightarrow> ExitSuccess | Err _ \<Rightarrow> ExitFailure)))
      | _ \<Rightarrow> (case loaded of Err _ \<Rightarrow> ExitFailure | Ok config \<Rightarrow>
            (case bind_app config of Err _ \<Rightarrow> ExitFailure | Ok app \<Rightarrow>
              (case run app of Ok _ \<Rightarrow> ExitSuccess | Err _ \<Rightarrow> ExitFailure))))"

section \<open>Running\<close>

text \<open>
  \<open>BoundApp::run\<close>: the router, the drain watch that flips health, and the admin server, which is
  told to stop only after the router has returned.
\<close>

record app_sys =
  run_server :: server_sys
  run_health :: health
  run_admin_cancelled :: bool
  run_admin :: admin_sys

definition app_init :: "nat \<Rightarrow> app_sys" where
  "app_init max_connections =
     \<lparr>run_server = serve_init max_connections, run_health = health_new, run_admin_cancelled = False,
      run_admin = admin_init admin_limits_default\<rparr>"

inductive app_step :: "nat \<Rightarrow> app_sys \<Rightarrow> app_sys \<Rightarrow> bool" for listeners :: nat where
  router:
    "server_step listeners (run_server s) sv \<Longrightarrow> app_step listeners s (s\<lparr>run_server := sv\<rparr>)"
| drain_watch:
    "sv_shutdown (run_server s) \<Longrightarrow> app_step listeners s (s\<lparr>run_health := set_draining (run_health s)\<rparr>)"
| admin_shutdown:
    "sv_serve (run_server s) = ServeReturned \<Longrightarrow> app_step listeners s (s\<lparr>run_admin_cancelled := True\<rparr>)"
| admin:
    "admin_step (run_admin s) ad \<Longrightarrow> (as_pc ad \<noteq> as_pc (run_admin s) \<Longrightarrow> run_admin_cancelled s) \<Longrightarrow>
     app_step listeners s (s\<lparr>run_admin := ad\<rparr>)"

abbreviation app_reachable :: "nat \<Rightarrow> nat \<Rightarrow> app_sys \<Rightarrow> bool" where
  "app_reachable listeners max_connections \<equiv> (app_step listeners)\<^sup>*\<^sup>* (app_init max_connections)"

interpretation router_part: simulation "app_step listeners" "server_step listeners" run_server
  for listeners
proof
  fix s s'
  assume "app_step listeners s s'"
  then show "server_step listeners (run_server s) (run_server s') \<or> run_server s' = run_server s"
    by cases auto
qed

lemma app_reachable_server:
  "app_reachable listeners max_connections s \<Longrightarrow> server_reachable listeners max_connections (run_server s)"
  using router_part.run_of_part [of listeners "app_init max_connections" s] by (simp add: app_init_def)

lemma server_step_shutdown: "server_step listeners s s' \<Longrightarrow> sv_shutdown s \<Longrightarrow> sv_shutdown s'"
  by (erule server_step.cases) (auto elim: server_own_step.cases)

lemma server_step_returned:
  "server_step listeners s s' \<Longrightarrow> server_ok s \<Longrightarrow> sv_serve s = ServeReturned \<Longrightarrow> sv_serve s' = ServeReturned"
  by (erule server_step.cases) (auto simp: server_ok_def elim: server_own_step.cases)

lemma app_order:
  assumes "app_reachable listeners max_connections s"
  shows "(is_draining (run_health s) \<longrightarrow> sv_shutdown (run_server s)) \<and>
    (run_admin_cancelled s \<longrightarrow> sv_serve (run_server s) = ServeReturned) \<and>
    (as_pc (run_admin s) \<noteq> AdminServing \<longrightarrow> run_admin_cancelled s)"
  using assms
proof (induction rule: rtranclp_induct)
  case base
  show ?case by (simp add: app_init_def health_new_def is_draining_def admin_init_def)
next
  case (step s s')
  note ok = server_reachable_ok [OF app_reachable_server [OF step(1)]]
  from step(2) step(3) show ?case
  proof cases
    case (router sv)
    with step(3) server_step_shutdown [OF router(2)] server_step_returned [OF router(2) ok] show ?thesis by auto
  qed (auto simp: set_draining_def is_draining_def)
qed

lemma app_admin_outlives_router:
  assumes "app_reachable listeners max_connections s" "as_pc (run_admin s) \<noteq> AdminServing"
  shows "sv_serve (run_server s) = ServeReturned \<and> sv_tasks (run_server s) = []"
  using app_order [OF assms(1)] assms(2) server_reachable_ok [OF app_reachable_server [OF assms(1)]]
  by (auto simp: server_ok_def)

section \<open>Properties\<close>

text \<open>With an accepted admin section both endpoints are reachable and distinct: \<open>/metrics\<close>
answers with the encoded registry, the health path with \<open>ok\<close> or, once draining, with 503; any
other path is not found and any other method not allowed.\<close>

theorem admin_endpoints:
  assumes "raw_admin_validate raw = Ok cfg" "routes = \<lparr>ar_health_path = adm_health_path cfg, ar_health = h\<rparr>"
  shows "resp_status (admin_handle routes encoded GET (adm_health_path cfg)) = (if is_draining h then 503 else 200) \<and>
    admin_handle routes encoded GET ''/metrics'' = admin_metrics encoded \<and>
    (path \<notin> {''/metrics'', adm_health_path cfg} \<longrightarrow> resp_status (admin_handle routes encoded GET path) = 404) \<and>
    (meth \<noteq> GET \<longrightarrow> resp_status (admin_handle routes encoded meth path) = 405)"
  using assms
  by (auto simp: raw_admin_validate_def Let_def admin_handle_def text_response_def split: if_splits)

theorem admin_endpoints_witness:
  "resp_status (admin_handle \<lparr>ar_health_path = ''/health'', ar_health = health_new\<rparr> (Ok [] :: (string, unit) result)
     GET ''/health'') = 200"
proof -
  have "raw_admin_validate raw_admin_default =
      (Ok \<lparr>adm_listen = (V4 [127, 0, 0, 1], 8081), adm_health_path = ''/health''\<rparr> :: (_, unit config_error) result)"
    using raw_defaults_accepted by blast
  from admin_endpoints [OF this refl, of health_new "Ok [] :: (string, unit) result"] show ?thesis
    by (simp add: is_draining_def health_new_def)
qed

text \<open>C35 (health\_follows\_drain): before shutdown is requested the health endpoint reports ready; it reports
draining only after that; and the admin listener stays up until the router has returned and
no connection is left.\<close>

theorem health_follows_drain:
  assumes "app_reachable listeners max_connections s" "path \<noteq> ''/metrics''"
    and "routes = \<lparr>ar_health_path = path, ar_health = run_health s\<rparr>"
  shows "(\<not> sv_shutdown (run_server s) \<longrightarrow> resp_status (admin_handle routes encoded GET path) = 200) \<and>
    (resp_status (admin_handle routes encoded GET path) = 503 \<longrightarrow> sv_shutdown (run_server s)) \<and>
    (as_pc (run_admin s) \<noteq> AdminServing \<longrightarrow>
       sv_serve (run_server s) = ServeReturned \<and> sv_tasks (run_server s) = [])"
  using app_order [OF assms(1)] app_admin_outlives_router [OF assms(1)] assms(2,3)
  by (auto simp: admin_handle_def text_response_def)

theorem health_follows_drain_witness:
  "resp_status (admin_handle \<lparr>ar_health_path = ''/health'', ar_health = run_health (app_init 1)\<rparr>
     (Ok [] :: (string, unit) result) GET ''/health'') = 200"
  using health_follows_drain [of 1 1 "app_init 1" "''/health''", OF _ _ refl,
    of "Ok [] :: (string, unit) result"]
  by (simp add: app_init_def serve_init_def)

end
