(* ===== verification/Process.thy ===== *)
theory Process
  imports Admin
begin

text \<open>
  The whole process: \<open>main\<close> and \<open>cancel_on_signal\<close> (\<open>app:main.rs\<close>) around \<open>BoundApp::run\<close> (\<open>app:lib.rs\<close>) with
  the tasks it spawns: the router, the admin listener, the drain watch and the reload task. The
  signals and the file system at each of them are the steps' arguments.
\<close>

section \<open>Signals\<close>

text \<open>
  What the watcher's futures resolve to: \<open>ctrl_c()\<close> with a SIGINT, or with the error of installing
  its handler; \<open>terminate.recv()\<close> with a SIGTERM, or with \<^term>\<open>None\<close> if no more can come.
\<close>

datatype watch_event = CtrlC "(unit, io_error) result" | TerminateRecv "unit option"

text \<open>
  Whether \<open>cancel_on_signal\<close> has cancelled the token after these events; \<open>installed\<close>: whether the
  SIGTERM handler could be installed. Neither branch looks at what its future resolved to.
\<close>

fun cancel_on_signal :: "bool \<Rightarrow> watch_event list \<Rightarrow> bool" where
  "cancel_on_signal installed [] = False"
| "cancel_on_signal installed (CtrlC _ # events) = True"
| "cancel_on_signal installed (TerminateRecv _ # events) =
     (if installed then True else cancel_on_signal installed events)"

text \<open>A SIGINT handler that cannot be installed ends the program as a SIGINT would.\<close>

lemma failed_ctrl_c_cancels: "cancel_on_signal installed (CtrlC (Err e) # events)"
  by simp

lemma sigterm_needs_handler: "cancel_on_signal installed [TerminateRecv r] = installed"
  by simp

section \<open>The process\<close>

text \<open>
  \<open>BoundApp::run\<close> after the router has returned joins its other tasks one by one; what it returns
  is the admin server's error if there is one (\<^term>\<open>None\<close>: its task failed), else what \<open>serve\<close> returned.
\<close>

datatype main_pc = RunServing | JoiningWatch | JoiningReload | JoiningAdmin | MainExited exit_code

definition run_result :: "(unit, io_error) result option \<Rightarrow> (unit, io_error) result \<Rightarrow> (unit, io_error) result" where
  "run_result admin_task served =
     (case admin_task of
        Some result \<Rightarrow> bind_ok result (\<lambda>_. served)
      | None \<Rightarrow> served)"

record 't program_env =
  pe_app :: bound_app
  pe_toml :: "string \<Rightarrow> (raw_config, 't) result"
  pe_path :: string
  pe_sighup :: bool
  pe_sigterm :: bool

text \<open>\<open>ps_hangups\<close> is what the reload task has seen so far.\<close>

record process_sys =
  ps_run :: app_sys
  ps_lookup :: file_route_lookup
  ps_reloading :: bool
  ps_hangups :: "hangup list"
  ps_watching :: bool
  ps_main :: main_pc

definition env_connections :: "'t program_env \<Rightarrow> nat" where
  "env_connections env = rc_max_connections (ba_router (pe_app env))"

definition env_listeners :: "'t program_env \<Rightarrow> nat" where
  "env_listeners env = length (ba_listeners (pe_app env))"

definition process_init :: "'t program_env \<Rightarrow> process_sys" where
  "process_init env =
     \<lparr>ps_run = app_init (env_connections env), ps_lookup = ba_lookup (pe_app env), ps_reloading = pe_sighup env,
      ps_hangups = [], ps_watching = True, ps_main = RunServing\<rparr>"

abbreviation ps_server :: "process_sys \<Rightarrow> server_sys" where
  "ps_server s \<equiv> run_server (ps_run s)"

abbreviation ps_admin :: "process_sys \<Rightarrow> admin_sys" where
  "ps_admin s \<equiv> run_admin (ps_run s)"

inductive process_step :: "'t program_env \<Rightarrow> process_sys \<Rightarrow> process_sys \<Rightarrow> bool" for env :: "'t program_env" where
  signalled:
    "ps_watching s \<Longrightarrow> cancel_on_signal (pe_sigterm env) [event] \<Longrightarrow>
     process_step env s
       (s\<lparr>ps_watching := False,
          ps_run := (ps_run s)\<lparr>run_server := (ps_server s)\<lparr>sv_shutdown := True\<rparr>\<rparr>\<rparr>)"
| serving:
    "server_step (env_listeners env) (ps_server s) sv \<Longrightarrow> sv_shutdown sv = sv_shutdown (ps_server s) \<Longrightarrow>
     process_step env s (s\<lparr>ps_run := (ps_run s)\<lparr>run_server := sv\<rparr>\<rparr>)"
| draining:
    "sv_shutdown (ps_server s) \<Longrightarrow>
     process_step env s (s\<lparr>ps_run := (ps_run s)\<lparr>run_health := set_draining (run_health (ps_run s))\<rparr>\<rparr>)"
| reloads:
    "ps_reloading s \<Longrightarrow> event = ShutdownFired \<longrightarrow> sv_shutdown (ps_server s) \<Longrightarrow>
     process_step env s
       (s\<lparr>ps_hangups := ps_hangups s @ [event], ps_reloading := \<not> stops_reload event,
          ps_lookup := sighup_loop (pe_toml env) (pe_path env) (ba_startup (pe_app env)) [event] (ps_lookup s)\<rparr>)"
| serving_admin:
    "admin_step (ps_admin s) ad \<Longrightarrow>
     (as_pc ad \<noteq> as_pc (ps_admin s) \<Longrightarrow> run_admin_cancelled (ps_run s)) \<Longrightarrow>
     process_step env s (s\<lparr>ps_run := (ps_run s)\<lparr>run_admin := ad\<rparr>\<rparr>)"
| served:
    "ps_main s = RunServing \<Longrightarrow> sv_serve (ps_server s) = ServeReturned \<Longrightarrow>
     process_step env s (s\<lparr>ps_main := JoiningWatch, ps_run := (ps_run s)\<lparr>run_admin_cancelled := True\<rparr>\<rparr>)"
| watch_joined:
    "ps_main s = JoiningWatch \<Longrightarrow> is_draining (run_health (ps_run s)) \<Longrightarrow>
     process_step env s (s\<lparr>ps_main := JoiningReload\<rparr>)"
| reload_joined:
    "ps_main s = JoiningReload \<Longrightarrow> \<not> ps_reloading s \<Longrightarrow> process_step env s (s\<lparr>ps_main := JoiningAdmin\<rparr>)"
| admin_joined:
    "ps_main s = JoiningAdmin \<Longrightarrow> as_pc (ps_admin s) = AdminStopped \<Longrightarrow> admin_task \<in> {Some (Ok ()), None} \<Longrightarrow>
     process_step env s
       (s\<lparr>ps_main := MainExited (case run_result admin_task (Ok ()) of Ok _ \<Rightarrow> ExitSuccess | Err _ \<Rightarrow> ExitFailure)\<rparr>)"

abbreviation process_reachable :: "'t program_env \<Rightarrow> process_sys \<Rightarrow> bool" where
  "process_reachable env \<equiv> (process_step env)\<^sup>*\<^sup>* (process_init env)"

interpretation app_part: simulation "process_step env" "app_step (env_listeners env)" ps_run
  for env :: "'t program_env"
proof
  fix s s'
  assume "process_step env s s'"
  then show "app_step (env_listeners env) (ps_run s) (ps_run s') \<or> ps_run s' = ps_run s"
  proof cases
    case (signalled event)
    from app_step.router [OF server_step.shutdown, of "env_listeners env" "ps_run s"] signalled(1) show ?thesis by simp
  next
    case (serving sv)
    from app_step.router [OF serving(2)] serving(1) show ?thesis by simp
  next
    case draining
    from app_step.drain_watch [OF draining(2)] draining(1) show ?thesis by simp
  next
    case (serving_admin ad)
    from app_step.admin [OF serving_admin(2,3)] serving_admin(1) show ?thesis by simp
  next
    case served
    from app_step.admin_shutdown [OF served(3)] served(1) show ?thesis by simp
  qed simp_all
qed

interpretation admin_part: simulation "app_step listeners" admin_step run_admin
  for listeners
proof
  fix s s'
  assume "app_step listeners s s'"
  then show "admin_step (run_admin s) (run_admin s') \<or> run_admin s' = run_admin s" by cases auto
qed

lemma process_app:
  "process_reachable env s \<Longrightarrow> app_reachable (env_listeners env) (env_connections env) (ps_run s)"
  using app_part.run_of_part [of env "process_init env" s] by (simp add: process_init_def)

lemma process_server:
  "process_reachable env s \<Longrightarrow> server_reachable (env_listeners env) (env_connections env) (ps_server s)"
  by (rule app_reachable_server [OF process_app])

lemma process_admin:
  "process_reachable env s \<Longrightarrow> admin_step\<^sup>*\<^sup>* (admin_init admin_limits_default) (ps_admin s)"
  using admin_part.run_of_part [OF process_app, of env s] by (simp add: app_init_def)

section \<open>What holds while the process runs\<close>

definition process_ok :: "'t program_env \<Rightarrow> process_sys \<Rightarrow> bool" where
  "process_ok env s \<longleftrightarrow>
     (ps_watching s \<longleftrightarrow> \<not> sv_shutdown (ps_server s)) \<and>
     (ps_main s = RunServing \<or> sv_serve (ps_server s) = ServeReturned \<and> run_admin_cancelled (ps_run s)) \<and>
     (\<forall>code. ps_main s = MainExited code \<longrightarrow> code = ExitSuccess \<and> as_pc (ps_admin s) = AdminStopped) \<and>
     (ps_main s \<in> {JoiningReload, JoiningAdmin} \<or> (\<exists>code. ps_main s = MainExited code) \<longrightarrow>
        is_draining (run_health (ps_run s))) \<and>
     (ps_main s = JoiningAdmin \<or> (\<exists>code. ps_main s = MainExited code) \<longrightarrow> \<not> ps_reloading s) \<and>
     (if pe_sighup env
      then ps_lookup s =
             sighup_loop (pe_toml env) (pe_path env) (ba_startup (pe_app env)) (ps_hangups s) (ba_lookup (pe_app env)) \<and>
           (ps_reloading s \<longleftrightarrow> list_all (\<lambda>event. \<not> stops_reload event) (ps_hangups s))
      else \<not> ps_reloading s \<and> ps_hangups s = [] \<and> ps_lookup s = ba_lookup (pe_app env))"

lemma sighup_loop_snoc:
  "list_all (\<lambda>event. \<not> stops_reload event) events \<Longrightarrow>
   sighup_loop toml path startup (events @ [event]) lookup =
     sighup_loop toml path startup [event] (sighup_loop toml path startup events lookup)"
  by (induction toml path startup events lookup rule: sighup_loop.induct) auto

lemma admin_step_stopped:
  "admin_step a a' \<Longrightarrow> as_pc a = AdminStopped \<Longrightarrow> as_pc a' = AdminStopped"
  by (erule admin_step.cases) (auto elim: admin_own_step.cases)

lemma process_step_ok:
  assumes "process_step env s s'" "process_ok env s" "process_reachable env s"
  shows "process_ok env s'"
  using assms(1)
proof cases
  case (serving sv)
  from server_step_returned [OF serving(2) server_reachable_ok [OF process_server [OF assms(3)]]] assms(2) serving(1,3)
  show ?thesis by (auto simp: process_ok_def)
next
  case (serving_admin ad)
  from admin_step_stopped [OF serving_admin(2)] assms(2) serving_admin(1)
  show ?thesis by (auto simp: process_ok_def)
next
  case (reloads event)
  from assms(2) reloads(2) have "pe_sighup env" and clean: "list_all (\<lambda>event. \<not> stops_reload event) (ps_hangups s)"
    by (auto simp: process_ok_def split: if_splits)
  with sighup_loop_snoc [OF clean, of "pe_toml env" "pe_path env" "ba_startup (pe_app env)" event] assms(2) reloads(1,2)
  show ?thesis by (auto simp: process_ok_def)
next
  case (admin_joined admin_task)
  with assms(2) show ?thesis by (auto simp: process_ok_def run_result_def)
qed (use assms(2) in \<open>auto simp: process_ok_def set_draining_def is_draining_def\<close>)

lemma process_reachable_ok: "process_reachable env s \<Longrightarrow> process_ok env s"
proof (induction rule: rtranclp_induct)
  case base
  show ?case
    by (simp add: process_ok_def process_init_def app_init_def serve_init_def)
next
  case (step s s')
  from process_step_ok [OF step(2,3,1)] show ?case .
qed

section \<open>The way to the exit\<close>

text \<open>
  A step counts towards the end unless it repeats what is there, is traffic of the admin listener
  while that still accepts, or a reload.
\<close>

definition admin_traffic :: "process_sys \<Rightarrow> process_sys \<Rightarrow> bool" where
  "admin_traffic s s' \<longleftrightarrow> ps_admin s' \<noteq> ps_admin s \<and> as_pc (ps_admin s') = AdminServing"

definition reload_traffic :: "process_sys \<Rightarrow> process_sys \<Rightarrow> bool" where
  "reload_traffic s s' \<longleftrightarrow> ps_hangups s' \<noteq> ps_hangups s \<and> ps_reloading s'"

definition finishing_step :: "'t program_env \<Rightarrow> process_sys \<Rightarrow> process_sys \<Rightarrow> bool" where
  "finishing_step env s s' \<longleftrightarrow>
     process_step env s s' \<and> s' \<noteq> s \<and> \<not> admin_traffic s s' \<and> \<not> reload_traffic s s'"

text \<open>A run of the process with the number of its steps that count.\<close>

inductive process_run :: "'t program_env \<Rightarrow> nat \<Rightarrow> process_sys \<Rightarrow> process_sys \<Rightarrow> bool" for env :: "'t program_env" where
  start: "process_run env 0 s s"
| counted: "process_run env n s s' \<Longrightarrow> finishing_step env s' s'' \<Longrightarrow> process_run env (Suc n) s s''"
| uncounted:
    "process_run env n s s' \<Longrightarrow> process_step env s' s'' \<Longrightarrow> \<not> finishing_step env s' s'' \<Longrightarrow> process_run env n s s''"

definition admin_work :: "admin_sys \<Rightarrow> nat" where
  "admin_work a =
     (case as_pc a of
        AdminServing \<Rightarrow> al_max_connections admin_limits_default + 3
      | AdminStopping \<Rightarrow> as_tasks a + 2
      | AdminAborting \<Rightarrow> as_tasks a + 1
      | AdminStopped \<Rightarrow> 0)"

definition main_work :: "main_pc \<Rightarrow> nat" where
  "main_work pc =
     (case pc of RunServing \<Rightarrow> 4 | JoiningWatch \<Rightarrow> 3 | JoiningReload \<Rightarrow> 2 | JoiningAdmin \<Rightarrow> 1 | MainExited _ \<Rightarrow> 0)"

definition process_work :: "process_sys \<Rightarrow> nat" where
  "process_work s =
     shutdown_work (ps_server s) + (if is_draining (run_health (ps_run s)) then 0 else 1) +
     (if ps_reloading s then 1 else 0) + main_work (ps_main s) + admin_work (ps_admin s)"

lemma admin_step_work:
  assumes "admin_step a a'" "admin_step\<^sup>*\<^sup>* (admin_init admin_limits_default) a"
  shows "admin_work a' \<le> admin_work a \<and> (as_pc a' = AdminServing \<or> admin_work a' < admin_work a)"
proof -
  note idle = admin_stopped_idle [OF assms(2)]
  have "as_tasks a \<le> al_max_connections admin_limits_default" by (rule admin_slots [OF assms(2)])
  with assms(1) idle show ?thesis
    by cases (auto simp: admin_work_def elim: admin_own_step.cases split: admin_pc.splits)
qed

lemma process_step_work:
  assumes "process_step env s s'" "process_reachable env s" "sv_shutdown (ps_server s)"
  shows "sv_shutdown (ps_server s') \<and> process_work s' \<le> process_work s \<and>
    (finishing_step env s s' \<longrightarrow> process_work s' < process_work s)"
  using assms(1)
proof cases
  case (signalled event)
  with process_reachable_ok [OF assms(2)] assms(3) show ?thesis by (simp add: process_ok_def)
next
  case (serving sv)
  show ?thesis
  proof (cases "sv = ps_server s")
    case True
    with serving(1) assms(3) show ?thesis by (simp add: finishing_step_def)
  next
    case False
    from shutdown_step [OF serving(2) assms(3) False] serving(1) show ?thesis
      by (simp add: process_work_def)
  qed
next
  case draining
  with assms(3) show ?thesis
    by (cases "run_health (ps_run s)") (auto simp: process_work_def finishing_step_def set_draining_def is_draining_def)
next
  case (reloads event)
  with assms(3) show ?thesis
    by (auto simp: process_work_def finishing_step_def reload_traffic_def)
next
  case (serving_admin ad)
  from admin_step_work [OF serving_admin(2) process_admin [OF assms(2)]] serving_admin(1) assms(3) show ?thesis
    by (auto simp: process_work_def finishing_step_def admin_traffic_def)
qed (use assms(3) in \<open>simp_all add: process_work_def main_work_def\<close>)

lemma process_run_work:
  assumes "process_run env n s s'" "process_reachable env s" "sv_shutdown (ps_server s)"
  shows "process_reachable env s' \<and> sv_shutdown (ps_server s') \<and> n + process_work s' \<le> process_work s"
  using assms
proof (induction rule: process_run.induct)
  case (counted n s s' s'')
  from counted(2) have step: "process_step env s' s''" by (simp add: finishing_step_def)
  from counted process_step_work [OF step] step show ?case by (auto intro: rtranclp.rtrancl_into_rtrancl)
next
  case (uncounted n s s' s'')
  from uncounted process_step_work [OF uncounted(2)] show ?case
    by (auto intro: rtranclp.rtrancl_into_rtrancl)
qed simp

lemma process_work_bound:
  assumes "process_reachable env s"
  shows "process_work s \<le> 2 * env_connections env + al_max_connections admin_limits_default + 14"
proof -
  note shutdown_work_bound [OF process_server [OF assms]]
  moreover have "as_tasks (ps_admin s) \<le> al_max_connections admin_limits_default"
    by (rule admin_slots [OF process_admin [OF assms]])
  then have "admin_work (ps_admin s) \<le> al_max_connections admin_limits_default + 3"
    by (simp add: admin_work_def split: admin_pc.splits)
  moreover have "main_work (ps_main s) \<le> 4" by (simp add: main_work_def split: main_pc.splits)
  ultimately show ?thesis unfolding process_work_def by (simp split: if_splits)
qed

text \<open>
  A step that counts and that the process takes without its peers: no connection of the router or
  of the admin listener ends by itself in it, no signal comes, and of the reload task's events only
  the shutdown.
\<close>

definition unaided_step :: "'t program_env \<Rightarrow> process_sys \<Rightarrow> process_sys \<Rightarrow> bool" where
  "unaided_step env s s' \<longleftrightarrow>
     finishing_step env s s' \<and> ps_watching s' = ps_watching s \<and>
     (ps_server s' = ps_server s \<or> server_own_step (ps_server s) (ps_server s')) \<and>
     (ps_admin s' = ps_admin s \<or> admin_own_step (ps_admin s) (ps_admin s')) \<and>
     ps_hangups s' \<in> {ps_hangups s, ps_hangups s @ [ShutdownFired]}"

lemma unaided_change:
  assumes "process_step env s s'" "f s' \<noteq> f s" "ps_watching s' = ps_watching s"
    and "ps_server s' = ps_server s \<or> server_own_step (ps_server s) (ps_server s')"
    and "ps_admin s' = ps_admin s \<or> admin_own_step (ps_admin s) (ps_admin s') \<and> as_pc (ps_admin s') \<noteq> AdminServing"
    and "ps_hangups s' = ps_hangups s \<or> ps_hangups s' = ps_hangups s @ [ShutdownFired] \<and> \<not> ps_reloading s'"
  shows "\<exists>s'. unaided_step env s s'"
  using assms by (auto simp: unaided_step_def finishing_step_def admin_traffic_def reload_traffic_def)

lemma admin_own_enabled:
  assumes "as_pc a \<noteq> AdminStopped"
  shows "\<exists>a'. admin_own_step a a' \<and> a' \<noteq> a \<and> as_pc a' \<noteq> AdminServing"
proof (cases "as_pc a")
  case AdminServing
  from admin_own_step.stop [OF this] AdminServing show ?thesis
    by (intro exI conjI) (assumption, auto dest: arg_cong [of _ _ as_pc])
next
  case AdminStopping
  then have pc: "as_pc a \<in> {AdminStopping, AdminAborting}" by simp
  show ?thesis
  proof (cases "as_tasks a = 0")
    case True
    from admin_own_step.stopped [OF pc this] AdminStopping show ?thesis
      by (intro exI conjI) (assumption, auto dest: arg_cong [of _ _ as_pc])
  next
    case False
    then have "0 < as_tasks a" by simp
    from admin_own_step.abort [OF AdminStopping this] AdminStopping show ?thesis
      by (intro exI conjI) (assumption, auto dest: arg_cong [of _ _ as_pc])
  qed
next
  case AdminAborting
  then have pc: "as_pc a \<in> {AdminStopping, AdminAborting}" by simp
  show ?thesis
  proof (cases "as_tasks a = 0")
    case True
    from admin_own_step.stopped [OF pc this] AdminAborting show ?thesis
      by (intro exI conjI) (assumption, auto dest: arg_cong [of _ _ as_pc])
  next
    case False
    then have "0 < as_tasks a" by simp
    from admin_own_step.task_aborted [OF AdminAborting this] AdminAborting \<open>0 < as_tasks a\<close> show ?thesis
      by (intro exI conjI) (assumption, auto dest: arg_cong [of _ _ as_tasks])
  qed
qed (use assms in simp)

lemma admin_not_stuck:
  assumes "run_admin_cancelled (ps_run s)" "as_pc (ps_admin s) \<noteq> AdminStopped"
  shows "\<exists>s'. unaided_step env s s'"
proof -
  from admin_own_enabled [OF assms(2)] obtain ad where
    ad: "admin_own_step (ps_admin s) ad" "ad \<noteq> ps_admin s" "as_pc ad \<noteq> AdminServing" by blast
  from process_step.serving_admin [OF admin_step.own [OF ad(1)]] assms(1)
  have "process_step env s (s\<lparr>ps_run := (ps_run s)\<lparr>run_admin := ad\<rparr>\<rparr>)" by blast
  from unaided_change [OF this, of ps_admin] ad show ?thesis by simp
qed

lemma router_not_stuck:
  assumes "process_reachable env s" "sv_shutdown (ps_server s)" "sv_serve (ps_server s) \<noteq> ServeReturned"
  shows "\<exists>s'. unaided_step env s s'"
proof -
  from shutdown_not_stuck [OF server_reachable_ok [OF process_server [OF assms(1)]] assms(2,3)]
  obtain sv where sv: "server_own_step (ps_server s) sv" by blast
  from shutdown_own_step [OF this assms(2)] assms(2)
  have "sv_shutdown sv = sv_shutdown (ps_server s)" "sv \<noteq> ps_server s" by auto
  from unaided_change [OF process_step.serving [OF server_step.own [OF sv] this(1)], of ps_server] sv this(2)
  show ?thesis by simp
qed

lemma process_not_stuck:
  assumes "process_reachable env s" "sv_shutdown (ps_server s)" "ps_main s \<noteq> MainExited ExitSuccess"
  shows "\<exists>s'. unaided_step env s s'"
proof (cases "ps_main s")
  case RunServing
  show ?thesis
  proof (cases "sv_serve (ps_server s) = ServeReturned")
    case True
    from unaided_change [OF process_step.served [OF RunServing True], of ps_main] RunServing show ?thesis by simp
  qed (rule router_not_stuck [OF assms(1,2)])
next
  case JoiningWatch
  show ?thesis
  proof (cases "is_draining (run_health (ps_run s))")
    case True
    from unaided_change [OF process_step.watch_joined [OF JoiningWatch True], of ps_main] JoiningWatch show ?thesis by simp
  next
    case False
    from unaided_change [OF process_step.draining [OF assms(2)], of "\<lambda>s. is_draining (run_health (ps_run s))"] False
    show ?thesis by (simp add: set_draining_def is_draining_def)
  qed
next
  case JoiningReload
  show ?thesis
  proof (cases "ps_reloading s")
    case True
    from unaided_change [OF process_step.reloads [OF True, of ShutdownFired], where f = ps_reloading and env = env]
      True assms(2)
    show ?thesis by simp
  next
    case False
    from unaided_change [OF process_step.reload_joined [OF JoiningReload False], of ps_main] JoiningReload
    show ?thesis by simp
  qed
next
  case JoiningAdmin
  with process_reachable_ok [OF assms(1)] have cancelled: "run_admin_cancelled (ps_run s)" by (simp add: process_ok_def)
  show ?thesis
  proof (cases "as_pc (ps_admin s) = AdminStopped")
    case True
    from unaided_change [OF process_step.admin_joined [OF JoiningAdmin True, of "Some (Ok ())"],
        where f = ps_main and env = env] JoiningAdmin
    show ?thesis by (simp add: run_result_def)
  qed (rule admin_not_stuck [OF cancelled])
next
  case (MainExited code)
  with process_reachable_ok [OF assms(1)] assms(3) show ?thesis by (simp add: process_ok_def)
qed

lemma process_unaided:
  assumes "process_reachable env s" "sv_shutdown (ps_server s)"
  shows "\<exists>s'. (unaided_step env)\<^sup>*\<^sup>* s s' \<and> ps_main s' = MainExited ExitSuccess"
  using assms
proof (induction "process_work s" arbitrary: s rule: less_induct)
  case less
  show ?case
  proof (cases "ps_main s = MainExited ExitSuccess")
    case False
    from process_not_stuck [OF less.prems False] obtain m where m: "unaided_step env s m" by blast
    then have step: "process_step env s m" "finishing_step env s m"
      by (auto simp: unaided_step_def finishing_step_def)
    from process_step_work [OF step(1) less.prems] step(2)
    have "sv_shutdown (ps_server m)" "process_work m < process_work s" by auto
    with less.hyps [of m] rtranclp.rtrancl_into_rtrancl [OF less.prems(1) step(1)]
    obtain s' where "(unaided_step env)\<^sup>*\<^sup>* m s'" "ps_main s' = MainExited ExitSuccess" by blast
    with m show ?thesis by (blast intro: converse_rtranclp_into_rtranclp)
  qed blast
qed

section \<open>A process\<close>

definition demo_bound :: bound_app where
  "demo_bound =
     \<lparr>ba_startup = \<lparr>startup_server = app_server demo_app, startup_admin = app_admin demo_app\<rparr>,
      ba_router = router_config_default, ba_lookup = file_new (app_routes demo_app),
      ba_listeners = [listener_tcp (V4 [0, 0, 0, 0], 8080)], ba_admin_addr = (V4 [127, 0, 0, 1], 8081),
      ba_admin = \<lparr>ar_health_path = ''/health'', ar_health = health_new\<rparr>\<rparr>"

definition demo_program :: "unit program_env" where
  "demo_program =
     \<lparr>pe_app = demo_bound, pe_toml = (\<lambda>_. Ok demo_raw), pe_path = ''demo.toml'', pe_sighup = True, pe_sigterm = True\<rparr>"

lemma demo_bound_binds: "bound_app_bind (\<lambda>addr. Ok addr) (Ok ()) demo_app = Ok demo_bound"
  by (simp add: bound_app_bind_def demo_bound_def demo_app_def)

definition demo_signalled :: process_sys where
  "demo_signalled =
     (process_init demo_program)\<lparr>ps_watching := False,
        ps_run := (app_init 10000)\<lparr>run_server := (serve_init 10000)\<lparr>sv_shutdown := True\<rparr>\<rparr>\<rparr>"

lemma demo_signalled_reachable: "process_reachable demo_program demo_signalled"
proof (rule r_into_rtranclp)
  have "ps_watching (process_init demo_program)" "cancel_on_signal (pe_sigterm demo_program) [CtrlC (Ok ())]"
    by (simp_all add: process_init_def)
  from process_step.signalled [OF this] show "process_step demo_program (process_init demo_program) demo_signalled"
    by (simp add: demo_signalled_def process_init_def app_init_def env_connections_def demo_program_def demo_bound_def
        router_config_default_def)
qed

section \<open>Properties\<close>

text \<open>C11 (process\_exits): once the program has taken a signal, at most \<open>2 * max_connections + 270\<close> further steps
bring it closer to its end, however its tasks, its admin traffic and reloads interleave. It waits
for no peer: until \<open>main\<close> has returned there is such a step it takes on its own, and from
wherever it is its own steps alone lead to the exit with success, although no client, no backend
and no scraper ever closes its connection. When it has returned no connection is left, the health
endpoint was draining until the last, and the reload task and the admin server have ended.\<close>

theorem process_exits:
  assumes "process_reachable env s" "\<not> ps_watching s" "process_run env n s s'"
  shows "n \<le> 2 * env_connections env + 270 \<and>
    ((\<exists>code. ps_main s' = MainExited code) \<or> (\<exists>s''. unaided_step env s' s'')) \<and>
    (\<exists>s''. (unaided_step env)\<^sup>*\<^sup>* s' s'' \<and> ps_main s'' = MainExited ExitSuccess) \<and>
    (\<forall>code. ps_main s' = MainExited code \<longrightarrow>
       code = ExitSuccess \<and> sv_tasks (ps_server s') = [] \<and> is_draining (run_health (ps_run s')) \<and>
       \<not> ps_reloading s' \<and> as_tasks (ps_admin s') = 0)"
proof -
  have shutdown: "sv_shutdown (ps_server s)"
    using process_reachable_ok [OF assms(1)] assms(2) by (simp add: process_ok_def)
  from process_run_work [OF assms(3,1) this] have run: "process_reachable env s'" "sv_shutdown (ps_server s')"
    "n + process_work s' \<le> process_work s" by auto
  note ok = process_reachable_ok [OF run(1)]
  have "al_max_connections admin_limits_default = 256" by (simp add: admin_limits_default_def)
  with run(3) process_work_bound [OF assms(1)] have "n \<le> 2 * env_connections env + 270" by linarith
  moreover have "(\<exists>code. ps_main s' = MainExited code) \<or> (\<exists>s''. unaided_step env s' s'')"
    using process_not_stuck [OF run(1,2)] by auto
  moreover note process_unaided [OF run(1,2)]
  moreover have "code = ExitSuccess \<and> sv_tasks (ps_server s') = [] \<and> is_draining (run_health (ps_run s')) \<and>
      \<not> ps_reloading s' \<and> as_tasks (ps_admin s') = 0" if "ps_main s' = MainExited code" for code
    using ok that server_reachable_ok [OF process_server [OF run(1)]]
      admin_stopped_idle [OF process_admin [OF run(1)]]
    by (auto simp: process_ok_def server_ok_def)
  ultimately show ?thesis by blast
qed

theorem process_exits_witness:
  "\<exists>s''. (unaided_step demo_program)\<^sup>*\<^sup>* demo_signalled s'' \<and> ps_main s'' = MainExited ExitSuccess"
proof -
  have "\<not> ps_watching demo_signalled" by (simp add: demo_signalled_def)
  from process_exits [OF demo_signalled_reachable this process_run.start] show ?thesis by blast
qed

end
