(* ===== verification/Hello_Grammar.thy ===== *)
theory Hello_Grammar
  imports Client_Hello
begin

text \<open>
  The wire grammar of a ClientHello body (RFC 8446 section 4.1.2, RFC 6066 section 3) as an
  encoder over an abstract message, and the proof that the parser of \<open>protocol/hello.rs\<close>
  accepts exactly the encodings of well-formed messages and returns their host name.
\<close>

section \<open>Server names\<close>

definition enc_name :: "byte \<times> byte list \<Rightarrow> byte list" where
  "enc_name n = fst n # enc_vec16 (snd n)"

definition enc_names :: "(byte \<times> byte list) list \<Rightarrow> byte list" where
  "enc_names ns = concat (map enc_name ns)"

definition wf_names :: "(byte \<times> byte list) list \<Rightarrow> bool" where
  "wf_names ns \<longleftrightarrow> list_all (\<lambda>n. snd n \<noteq> [] \<and> length (snd n) < 65536) ns"

definition decode_host :: "byte list \<Rightarrow> hostname option" where
  "decode_host name =
     (case from_utf8 name of
        None \<Rightarrow> None
      | Some text \<Rightarrow> (case hostname_parse text of Err _ \<Rightarrow> None | Ok host \<Rightarrow> Some host))"

text \<open>The host name a list of server names stands for; \<^term>\<open>None\<close> when the list is not acceptable.\<close>

fun sni_of_names :: "(byte \<times> byte list) list \<Rightarrow> hostname option \<Rightarrow> hostname option option" where
  "sni_of_names [] host = Some host"
| "sni_of_names ((t, name) # ns) host =
     (if t \<noteq> 0 then sni_of_names ns host
      else if host \<noteq> None then None
      else case decode_host name of
        None \<Rightarrow> None
      | Some h \<Rightarrow> sni_of_names ns (Some h))"

lemma enc_names_Cons [simp]: "enc_names (n # ns) = fst n # enc_vec16 (snd n) @ enc_names ns"
  by (simp add: enc_names_def enc_name_def)

lemma enc_names_Nil [simp]: "enc_names [] = []"
  by (simp add: enc_names_def)

lemma wf_names_simps [simp]:
  "wf_names []"
  "wf_names (n # ns) \<longleftrightarrow> snd n \<noteq> [] \<and> length (snd n) < 65536 \<and> wf_names ns"
  by (simp_all add: wf_names_def)

lemma enc_names_eq_Nil [simp]: "enc_names ns = [] \<longleftrightarrow> ns = []"
  by (cases ns) auto

lemma server_name_loop_enc:
  "wf_names ns \<Longrightarrow>
   parse_server_name_loop (enc_names ns) host = Ok s \<longleftrightarrow> sni_of_names ns host = Some s"
proof (induction ns arbitrary: host)
  case Nil
  then show ?case by (auto simp: parse_server_name_loop.simps)
next
  case (Cons n ns)
  then show ?case
    by (cases n)
      (subst parse_server_name_loop.simps,
       auto simp: NAME_TYPE_HOST_NAME_def decode_host_def split: option.splits result.splits)
qed

lemma server_name_loop_shape:
  "parse_server_name_loop r host = Ok s \<Longrightarrow> \<exists>ns. r = enc_names ns \<and> wf_names ns"
proof (induction r host rule: parse_server_name_loop.induct)
  case (1 r host)
  show ?case
  proof (cases "r = []")
    case True
    then show ?thesis by (intro exI [of _ "[]"]) simp
  next
    case False
    with "1.prems" obtain t r1 name r2 where
      r: "reader_u8 r = Some (t, r1)" "reader_vec16 r1 = Some (name, r2)" "name \<noteq> []"
      by (auto simp: parse_server_name_loop.simps [of r] split: option.splits if_splits)
    have "\<exists>h. parse_server_name_loop r2 h = Ok s"
      using "1.prems" False r
      by (auto simp: parse_server_name_loop.simps [of r] split: option.splits if_splits result.splits)
    then have "\<exists>ns. r2 = enc_names ns \<and> wf_names ns"
      using "1.IH" "1.prems" False r
      by (auto simp: parse_server_name_loop.simps [of r] split: option.splits if_splits result.splits)
    then obtain ns where "r2 = enc_names ns" "wf_names ns" by blast
    with r show ?thesis
      by (intro exI [of _ "(t, name) # ns"]) (auto simp: wire_simps)
  qed
qed

theorem parse_server_name_iff:
  "parse_server_name data = Ok s \<longleftrightarrow>
   (\<exists>ns. data = enc_vec16 (enc_names ns) \<and> length (enc_names ns) < 65536 \<and>
      ns \<noteq> [] \<and> wf_names ns \<and> sni_of_names ns None = Some s)" (is "?L \<longleftrightarrow> ?R")
proof
  assume ?L
  then obtain list where l: "reader_vec16 data = Some (list, [])" "list \<noteq> []"
    "parse_server_name_loop list None = Ok s"
    by (auto simp: parse_server_name_def split: option.splits if_splits)
  then obtain ns where "list = enc_names ns" "wf_names ns"
    using server_name_loop_shape by blast
  with l show ?R by (auto simp: wire_simps server_name_loop_enc)
next
  assume ?R
  then show ?L by (auto simp: parse_server_name_def reader_empty server_name_loop_enc)
qed

section \<open>Extensions\<close>

definition enc_exts :: "(u16 \<times> byte list) list \<Rightarrow> byte list" where
  "enc_exts es = concat (map (\<lambda>e. to_be_bytes16 (fst e) @ enc_vec16 (snd e)) es)"

definition wf_exts :: "(u16 \<times> byte list) list \<Rightarrow> bool" where
  "wf_exts es \<longleftrightarrow> list_all (\<lambda>e. length (snd e) < 65536) es"

fun ext_sni ::
    "(u16 \<times> byte list) list \<Rightarrow> hostname option \<Rightarrow> (hostname option, parse_error) result" where
  "ext_sni [] sni = Ok sni"
| "ext_sni ((t, data) # es) sni =
     (if t = 0 then bind_ok (parse_server_name data) (ext_sni es) else ext_sni es sni)"

lemma enc_exts_simps [simp]:
  "enc_exts [] = []"
  "enc_exts (e # es) = to_be_bytes16 (fst e) @ enc_vec16 (snd e) @ enc_exts es"
  by (simp_all add: enc_exts_def)

lemma wf_exts_simps [simp]:
  "wf_exts []"
  "wf_exts (e # es) \<longleftrightarrow> length (snd e) < 65536 \<and> wf_exts es"
  by (simp_all add: wf_exts_def)

lemma enc_exts_eq_Nil [simp]: "enc_exts es = [] \<longleftrightarrow> es = []"
  by (cases es) auto

lemma extensions_loop_enc:
  "wf_exts es \<Longrightarrow>
   parse_extensions_loop (enc_exts es) seen sni =
     map_ok (\<lambda>s. (fold (\<lambda>x t. seen_push t x) (map fst es) seen, s)) (ext_sni es sni)"
proof (induction es arbitrary: seen sni)
  case Nil
  then show ?case by (simp add: parse_extensions_loop.simps)
next
  case (Cons e es)
  obtain t data where e: "e = (t, data)" by (cases e)
  from Cons e show ?case
    by (subst parse_extensions_loop.simps)
      (cases "parse_server_name data"; simp add: EXTENSION_SERVER_NAME_def)
qed

lemma extensions_loop_shape:
  "parse_extensions_loop r seen sni = Ok x \<Longrightarrow> \<exists>es. r = enc_exts es \<and> wf_exts es"
proof (induction r seen sni rule: parse_extensions_loop.induct)
  case (1 r seen sni)
  show ?case
  proof (cases "r = []")
    case True
    then show ?thesis by (intro exI [of _ "[]"]) simp
  next
    case False
    with "1.prems" obtain t r1 data r2 where
      r: "reader_u16 r = Some (t, r1)" "reader_vec16 r1 = Some (data, r2)"
      by (auto simp: parse_extensions_loop.simps [of r] split: option.splits)
    then have "\<exists>es. r2 = enc_exts es \<and> wf_exts es"
      using "1.IH" "1.prems" False
      by (auto simp: parse_extensions_loop.simps [of r] split: if_splits result.splits)
    then obtain es where "r2 = enc_exts es" "wf_exts es" by blast
    with r show ?thesis
      by (intro exI [of _ "(t, data) # es"]) (auto simp: wire_simps)
  qed
qed

lemma parse_extensions_enc:
  assumes "wf_exts es"
  shows "parse_extensions (enc_exts es) =
    bind_ok (ext_sni es None)
      (\<lambda>s. if distinct (map fst es) then Ok s else Err (Malformed ''duplicate extension type''))"
proof (cases "ext_sni es None")
  case (Ok s)
  then show ?thesis
    by (simp add: parse_extensions_def extensions_loop_enc [OF assms] seen.slice_of_pushes
        sort_windows2_any_eq)
next
  case (Err e)
  then show ?thesis by (simp add: parse_extensions_def extensions_loop_enc [OF assms])
qed

lemma ext_sni_no_name: "0 \<notin> set (map fst es) \<Longrightarrow> ext_sni es sni = Ok sni"
  by (induction es) auto

lemma ext_sni_distinct:
  "distinct (map fst es) \<Longrightarrow>
   ext_sni es None = (case map_of es 0 of None \<Rightarrow> Ok None | Some data \<Rightarrow> parse_server_name data)"
proof (induction es)
  case (Cons e es)
  obtain t data where e: "e = (t, data)" by (cases e)
  show ?case
  proof (cases "t = 0")
    case True
    with Cons.prems e have "ext_sni es s = Ok s" for s by (simp add: ext_sni_no_name)
    with True e show ?thesis by (cases "parse_server_name data") auto
  qed (use Cons e in auto)
qed simp

section \<open>The ClientHello body\<close>

record client_hello =
  ch_version :: u16
  ch_random :: "byte list"
  ch_session_id :: "byte list"
  ch_cipher_suites :: "byte list"
  ch_compression :: "byte list"
  ch_extensions :: "(u16 \<times> byte list) list option"

definition enc_hello :: "client_hello \<Rightarrow> byte list" where
  "enc_hello h =
     to_be_bytes16 (ch_version h) @ ch_random h @ enc_vec8 (ch_session_id h) @
     enc_vec16 (ch_cipher_suites h) @ enc_vec8 (ch_compression h) @
     (case ch_extensions h of None \<Rightarrow> [] | Some es \<Rightarrow> enc_vec16 (enc_exts es))"

definition wf_hello :: "client_hello \<Rightarrow> bool" where
  "wf_hello h \<longleftrightarrow>
     drop_bit 8 (ch_version h) = 3 \<and> length (ch_random h) = 32 \<and>
     length (ch_session_id h) \<le> 32 \<and>
     ch_cipher_suites h \<noteq> [] \<and> even (length (ch_cipher_suites h)) \<and>
     length (ch_cipher_suites h) < 65536 \<and>
     ch_compression h \<noteq> [] \<and> length (ch_compression h) < 256 \<and>
     (case ch_extensions h of
        None \<Rightarrow> True
      | Some es \<Rightarrow> wf_exts es \<and> length (enc_exts es) < 65536 \<and> distinct (map fst es))"

definition hello_sni :: "client_hello \<Rightarrow> (hostname option, parse_error) result" where
  "hello_sni h =
     (case ch_extensions h of
        None \<Rightarrow> Ok None
      | Some es \<Rightarrow> (case map_of es 0 of None \<Rightarrow> Ok None | Some data \<Rightarrow> parse_server_name data))"

lemma parse_body_enc:
  assumes "wf_hello h"
  shows "parse_client_hello_body (enc_hello h) = hello_sni h"
proof (cases "ch_extensions h")
  case None
  with assms show ?thesis
    by (simp add: parse_client_hello_body_def enc_hello_def wf_hello_def hello_sni_def RANDOM_LEN_def
        MAX_SESSION_ID_LEN_def even_iff_mod_2_eq_zero reader_empty)
next
  case (Some es)
  with assms have es: "wf_exts es" "distinct (map fst es)" "length (enc_exts es) < 65536"
    by (simp_all add: wf_hello_def)
  have "parse_client_hello_body (enc_hello h) = parse_extensions (enc_exts es)"
    using assms Some
    by (simp add: parse_client_hello_body_def enc_hello_def wf_hello_def RANDOM_LEN_def
        MAX_SESSION_ID_LEN_def even_iff_mod_2_eq_zero reader_empty)
  also have "\<dots> = hello_sni h"
    using Some es(2)
    by (simp add: parse_extensions_enc [OF es(1)] ext_sni_distinct [symmetric] hello_sni_def)
      (cases "ext_sni es None"; simp)
  finally show ?thesis .
qed

lemma parse_body_shape:
  assumes ok: "parse_client_hello_body b = Ok s"
  shows "\<exists>h. wf_hello h \<and> b = enc_hello h"
proof -
  from ok obtain v r1 random r2 session r3 suites r4 comp r5 where
    reads: "reader_u16 b = Some (v, r1)" "reader_bytes 32 r1 = Some (random, r2)"
      "reader_vec8 r2 = Some (session, r3)" "reader_vec16 r3 = Some (suites, r4)"
      "reader_vec8 r4 = Some (comp, r5)"
    and checks: "drop_bit 8 v = 3" "length session \<le> 32" "suites \<noteq> []" "even (length suites)"
      "comp \<noteq> []"
    and rest: "r5 = [] \<or>
      (\<exists>ex. reader_vec16 r5 = Some (ex, []) \<and> parse_extensions ex = Ok s)"
    by (auto simp: parse_client_hello_body_def RANDOM_LEN_def MAX_SESSION_ID_LEN_def
        even_iff_mod_2_eq_zero split: option.splits if_splits)
  let ?h = "\<lambda>es. \<lparr>ch_version = v, ch_random = random, ch_session_id = session,
    ch_cipher_suites = suites, ch_compression = comp, ch_extensions = es\<rparr>"
  show ?thesis
  proof (cases "r5 = []")
    case True
    with reads checks show ?thesis
      by (intro exI [of _ "?h None"]) (auto simp: wf_hello_def enc_hello_def wire_simps)
  next
    case False
    with rest obtain ex where ex: "reader_vec16 r5 = Some (ex, [])" "parse_extensions ex = Ok s"
      by blast
    then obtain es where es: "ex = enc_exts es" "wf_exts es"
      using extensions_loop_shape by (fastforce simp: parse_extensions_def split: result.splits)
    with ex(2) have "distinct (map fst es)"
      by (auto simp: parse_extensions_enc bind_ok_eq_Ok split: if_splits)
    with reads checks ex es show ?thesis
      by (intro exI [of _ "?h (Some es)"]) (auto simp: wf_hello_def enc_hello_def wire_simps)
  qed
qed

lemma parse_body_Ok_iff:
  "parse_client_hello_body b = Ok s \<longleftrightarrow> (\<exists>h. wf_hello h \<and> b = enc_hello h \<and> hello_sni h = Ok s)"
  using parse_body_shape parse_body_enc by metis

section \<open>Properties\<close>

text \<open>The body parser accepts exactly the encodings of well-formed
ClientHellos with pairwise different extension types, and answers the host name of their
server name extension.\<close>

theorem body_grammar:
  "parse_client_hello_body b = Ok s \<longleftrightarrow> (\<exists>h. wf_hello h \<and> b = enc_hello h \<and> hello_sni h = Ok s)"
  by (rule parse_body_Ok_iff)

text \<open>A server name extension is accepted exactly when it is one
non-empty list of non-empty names with at most one host name, which parses.\<close>

theorem server_name_grammar:
  "parse_server_name data = Ok s \<longleftrightarrow>
   (\<exists>ns. data = enc_vec16 (enc_names ns) \<and> length (enc_names ns) < 65536 \<and>
      ns \<noteq> [] \<and> wf_names ns \<and> sni_of_names ns None = Some s)"
  by (rule parse_server_name_iff)

text \<open>Sorting the seen types and comparing neighbours rejects an
extension block exactly when a type occurs twice.\<close>

theorem duplicate_extensions:
  assumes "wf_exts es" "ext_sni es None = Ok s"
  shows "parse_extensions (enc_exts es) =
    (if distinct (map fst es) then Ok s else Err (Malformed ''duplicate extension type''))"
  by (simp add: parse_extensions_enc [OF assms(1)] assms(2))

theorem duplicate_extensions_witness:
  "parse_extensions (enc_exts [(7, [1]), (9, []), (7, [])]) =
     Err (Malformed ''duplicate extension type'')"
  using duplicate_extensions [of "[(7, [1]), (9, []), (7, [])]" None] by simp

end
