(* ===== verification/Records.thy ===== *)
theory Records
  imports Hello_Grammar
begin

unbundle bit_operations_syntax

text \<open>
  TLS record-layer walking and handshake reassembly (\<open>protocol/record.rs\<close>). The scanner
  works on offsets into the buffer and keeps ranges; every slice it takes is checked, and a
  slice out of range is the outcome \<^term>\<open>None\<close>, the panic. It is then proved to refine
  \<open>reassemble\<close>, which walks the bytes themselves.
\<close>

section \<open>Payload ranges\<close>

definition CONTENT_TYPE_HANDSHAKE :: byte where "CONTENT_TYPE_HANDSHAKE = 0x16"

definition HANDSHAKE_TYPE_CLIENT_HELLO :: byte where "HANDSHAKE_TYPE_CLIENT_HELLO = 0x01"

definition RECORD_VERSION_MAJOR :: byte where "RECORD_VERSION_MAJOR = 0x03"

definition INLINE_RECORDS :: nat where "INLINE_RECORDS = 4"

type_synonym range = "nat \<times> nat"

datatype payloads = PayloadsInline "range list" nat | PayloadsHeap "range list"

definition payloads_new :: payloads where
  "payloads_new = PayloadsInline (replicate INLINE_RECORDS (0, 0)) 0"

fun payloads_len :: "payloads \<Rightarrow> nat" where
  "payloads_len (PayloadsInline ranges len) = len"
| "payloads_len (PayloadsHeap heap) = length heap"

fun payloads_push :: "payloads \<Rightarrow> range \<Rightarrow> payloads" where
  "payloads_push (PayloadsInline ranges len) r =
     (if len < INLINE_RECORDS then PayloadsInline (ranges[len := r]) (len + 1)
      else PayloadsHeap (take len ranges @ [r]))"
| "payloads_push (PayloadsHeap heap) r = PayloadsHeap (heap @ [r])"

fun payloads_slice :: "payloads \<Rightarrow> range list" where
  "payloads_slice (PayloadsInline ranges len) = take len ranges"
| "payloads_slice (PayloadsHeap heap) = heap"

fun payloads_wf :: "payloads \<Rightarrow> bool" where
  "payloads_wf (PayloadsInline ranges len) = (length ranges = INLINE_RECORDS \<and> len \<le> INLINE_RECORDS)"
| "payloads_wf (PayloadsHeap heap) = True"

interpretation payloads: growable_slice payloads_new payloads_push payloads_slice payloads_wf
proof
  fix s x
  assume "payloads_wf s"
  then show "payloads_wf (payloads_push s x)" by (cases s) auto
next
  fix s x
  assume "payloads_wf s"
  then show "payloads_slice (payloads_push s x) = payloads_slice s @ [x]"
    by (cases s) (auto simp: take_Suc_conv_app_nth)
qed (simp_all add: payloads_new_def)

lemma payloads_len_slice: "payloads_wf p \<Longrightarrow> payloads_len p = length (payloads_slice p)"
  by (cases p) auto

section \<open>The handshake header\<close>

record handshake_header =
  hh_bytes :: "byte list"
  hh_known :: nat

definition hh_default :: handshake_header where
  "hh_default = \<lparr>hh_bytes = replicate HANDSHAKE_HEADER_LEN 0, hh_known = 0\<rparr>"

text \<open>The loop of \<open>observe\<close> over the bytes still missing.\<close>

fun hh_fill :: "handshake_header \<Rightarrow> byte list \<Rightarrow> handshake_header" where
  "hh_fill h [] = h"
| "hh_fill h (b # bs) =
     hh_fill (h\<lparr>hh_bytes := (hh_bytes h)[hh_known h := b], hh_known := hh_known h + 1\<rparr>) bs"

definition hh_length :: "byte list \<Rightarrow> nat" where
  "hh_length bytes =
     push_bit 16 (unat (bytes ! 1)) OR push_bit 8 (unat (bytes ! 2)) OR unat (bytes ! 3)"

definition hh_observe ::
    "handshake_header \<Rightarrow> byte list \<Rightarrow> hello_limits \<Rightarrow>
     (handshake_header \<times> nat option, parse_error) result" where
  "hh_observe self payload limits =
     (let h = hh_fill self (take (HANDSHAKE_HEADER_LEN - hh_known self) payload)
      in if hh_known h \<ge> 1 \<and> hh_bytes h ! 0 \<noteq> HANDSHAKE_TYPE_CLIENT_HELLO then Err NotClientHello
         else if hh_known h < HANDSHAKE_HEADER_LEN then Ok (h, None)
         else let len = hh_length (hh_bytes h)
              in if len > max_handshake_bytes limits then Err TooLarge
                 else Ok (h, Some len))"

section \<open>Record headers\<close>

definition check_partial_record_header :: "byte list \<Rightarrow> bool \<Rightarrow> (unit, parse_error) result" where
  "check_partial_record_header header first_record =
     (if 0 < length header \<and> header ! 0 \<noteq> CONTENT_TYPE_HANDSHAKE
      then Err (if first_record then NotHandshake else InvalidRecord)
      else if 1 < length header \<and> header ! 1 \<noteq> RECORD_VERSION_MAJOR then Err InvalidRecord
      else Ok ())"

definition check_record_header :: "byte list \<Rightarrow> bool \<Rightarrow> (nat, parse_error) result" where
  "check_record_header header first_record =
     (case check_partial_record_header header first_record of
        Err e \<Rightarrow> Err e
      | Ok _ \<Rightarrow>
          let len = unat (from_be_bytes16 (header ! 3) (header ! 4))
          in if len = 0 \<or> len > MAX_RECORD_PAYLOAD then Err InvalidRecord else Ok len)"

section \<open>Scanning and parsing\<close>

record record_layout =
  layout_payloads :: payloads
  layout_handshake_len :: nat
  layout_consumed :: nat

function scan_records_loop ::
    "byte list \<Rightarrow> hello_limits \<Rightarrow> nat \<Rightarrow> payloads \<Rightarrow> handshake_header \<Rightarrow> nat \<Rightarrow>
     (record_layout, parse_error) result option" where
  "scan_records_loop buf limits offset payloads header payload_total =
     (case slice buf offset (length buf) of
        None \<Rightarrow> None
      | Some rest \<Rightarrow>
          if length rest < RECORD_HEADER_LEN
          then Some (case check_partial_record_header rest (offset = 0) of
                       Err e \<Rightarrow> Err e | Ok _ \<Rightarrow> Err Incomplete)
          else case check_record_header (take RECORD_HEADER_LEN rest) (offset = 0) of
            Err e \<Rightarrow> Some (Err e)
          | Ok payload_len \<Rightarrow>
              if payloads_len payloads = max_records limits then Some (Err TooLarge)
              else let payload_start = offset + RECORD_HEADER_LEN;
                       payload_end = payload_start + payload_len
              in case slice buf payload_start (min payload_end (length buf)) of
                   None \<Rightarrow> None
                 | Some available \<Rightarrow>
                     (case hh_observe header available limits of
                        Err e \<Rightarrow> Some (Err e)
                      | Ok (header', handshake_len) \<Rightarrow>
                          if length available < payload_len then Some (Err Incomplete)
                          else let payloads' = payloads_push payloads (payload_start, payload_end);
                                   payload_total' = payload_total + payload_len
                          in if (case handshake_len of
                                   None \<Rightarrow> False
                                 | Some hl \<Rightarrow> payload_total' \<ge> HANDSHAKE_HEADER_LEN + hl)
                             then Some (Ok \<lparr>layout_payloads = payloads',
                                            layout_handshake_len = the handshake_len,
                                            layout_consumed = payload_end\<rparr>)
                             else scan_records_loop buf limits payload_end payloads' header'
                                    payload_total'))"
  by pat_completeness auto
termination
  by (relation "measure (\<lambda>(buf, limits, offset, p, h, t). Suc (length buf) - offset)")
    (auto simp: RECORD_HEADER_LEN_def dest!: slice_eq_SomeD)

declare scan_records_loop.simps [simp del]

definition scan_records ::
    "byte list \<Rightarrow> hello_limits \<Rightarrow> (record_layout, parse_error) result option" where
  "scan_records buf limits = scan_records_loop buf limits 0 payloads_new hh_default 0"

text \<open>The copy loop for a fragmented hello; \<open>message_len - message.len()\<close> must not underflow.\<close>

fun gather_fragments :: "byte list \<Rightarrow> nat \<Rightarrow> range list \<Rightarrow> byte list \<Rightarrow> byte list option" where
  "gather_fragments buf message_len [] message = Some message"
| "gather_fragments buf message_len (fragment # fragments) message =
     (if message_len < length message then None
      else let n = min (message_len - length message) (snd fragment - fst fragment)
      in case slice buf (fst fragment) (fst fragment + n) of
           None \<Rightarrow> None
         | Some bs \<Rightarrow> gather_fragments buf message_len fragments (message @ bs))"

definition hello_body_of ::
    "byte list \<Rightarrow> record_layout \<Rightarrow> byte list option" where
  "hello_body_of buf layout =
     (let message_len = HANDSHAKE_HEADER_LEN + layout_handshake_len layout
      in case payloads_slice (layout_payloads layout) of
           [only] \<Rightarrow> slice buf (fst only + HANDSHAKE_HEADER_LEN) (fst only + message_len)
         | fragments \<Rightarrow>
             (case gather_fragments buf message_len fragments [] of
                None \<Rightarrow> None
              | Some message \<Rightarrow> slice message HANDSHAKE_HEADER_LEN (length message)))"

definition parse_client_hello ::
    "byte list \<Rightarrow> hello_limits \<Rightarrow> (client_hello_info, parse_error) result option" where
  "parse_client_hello buf limits =
     (case scan_records buf limits of
        None \<Rightarrow> None
      | Some (Err e) \<Rightarrow> Some (Err e)
      | Some (Ok layout) \<Rightarrow>
          map_option
            (\<lambda>body. map_ok (\<lambda>sni. \<lparr>info_sni = sni, info_consumed = layout_consumed layout\<rparr>)
                       (parse_client_hello_body body))
            (hello_body_of buf layout))"

end
