(* ===== verification/Reassembly.thy ===== *)
theory Reassembly
  imports Records
begin

text \<open>
  The abstract record walk \<open>reassemble\<close> and the refinement: the offset-based scanner of
  \<open>protocol/record.rs\<close> never panics and returns exactly what \<open>reassemble\<close> returns. The
  stability, fragmentation and bound results are proved on \<open>reassemble\<close>.
\<close>

section \<open>The specification\<close>

definition header_check :: "hello_limits \<Rightarrow> byte list \<Rightarrow> (nat option, parse_error) result" where
  "header_check limits msg =
     (if msg \<noteq> [] \<and> hd msg \<noteq> 1 then Err NotClientHello
      else if length msg < 4 then Ok None
      else if hh_length msg > max_handshake_bytes limits then Err TooLarge
      else Ok (Some (hh_length msg)))"

function reassemble ::
    "hello_limits \<Rightarrow> nat \<Rightarrow> nat \<Rightarrow> byte list \<Rightarrow> byte list \<Rightarrow>
     (nat \<times> byte list \<times> nat, parse_error) result" where
  "reassemble limits n offset msg rest =
     (if length rest < 5
      then (case check_partial_record_header rest (n = 0) of Err e \<Rightarrow> Err e | Ok _ \<Rightarrow> Err Incomplete)
      else case check_record_header (take 5 rest) (n = 0) of
        Err e \<Rightarrow> Err e
      | Ok len \<Rightarrow>
          if n = max_records limits then Err TooLarge
          else case header_check limits (msg @ take len (drop 5 rest)) of
            Err e \<Rightarrow> Err e
          | Ok hl \<Rightarrow>
              if length rest < 5 + len then Err Incomplete
              else if (case hl of None \<Rightarrow> False | Some l \<Rightarrow> 4 + l \<le> length msg + len)
                then Ok (the hl, msg @ take len (drop 5 rest), offset + 5 + len)
                else reassemble limits (Suc n) (offset + 5 + len) (msg @ take len (drop 5 rest))
                       (drop (5 + len) rest))"
  by pat_completeness auto
termination
  by (relation "measure (\<lambda>(limits, n, offset, msg, rest). length rest)") auto

declare reassemble.simps [simp del]

definition hello_of_wire :: "hello_limits \<Rightarrow> byte list \<Rightarrow> (client_hello_info, parse_error) result" where
  "hello_of_wire limits buf =
     (case reassemble limits 0 0 [] buf of
        Err e \<Rightarrow> Err e
      | Ok (hl, msg, consumed) \<Rightarrow>
          map_ok (\<lambda>sni. \<lparr>info_sni = sni, info_consumed = consumed\<rparr>)
            (parse_client_hello_body (take hl (drop 4 msg))))"

section \<open>The handshake header\<close>

definition hh_repr :: "handshake_header \<Rightarrow> byte list \<Rightarrow> bool" where
  "hh_repr h msg \<longleftrightarrow>
     length (hh_bytes h) = 4 \<and> hh_known h = min 4 (length msg) \<and>
     take (hh_known h) (hh_bytes h) = take 4 msg"

lemma hh_repr_default: "hh_repr hh_default []"
  by (simp add: hh_repr_def hh_default_def HANDSHAKE_HEADER_LEN_def)

lemma hh_repr_snoc:
  assumes "hh_repr h msg" and "length msg < 4"
  shows "hh_repr (h\<lparr>hh_bytes := (hh_bytes h)[hh_known h := b], hh_known := hh_known h + 1\<rparr>) (msg @ [b])"
  using assms by (auto simp: hh_repr_def take_Suc_conv_app_nth min_def)

lemma hh_fill_repr:
  "hh_repr h msg \<Longrightarrow> length msg + length bs \<le> 4 \<Longrightarrow> hh_repr (hh_fill h bs) (msg @ bs)"
proof (induction bs arbitrary: h msg)
  case (Cons b bs)
  then have "hh_repr (h\<lparr>hh_bytes := (hh_bytes h)[hh_known h := b], hh_known := hh_known h + 1\<rparr>)
      (msg @ [b])"
    by (intro hh_repr_snoc) simp_all
  with Cons.IH [of _ "msg @ [b]"] Cons.prems show ?case by simp
qed simp

lemma hh_repr_take: "hh_repr h (take 4 msg) \<longleftrightarrow> hh_repr h msg"
  by (simp add: hh_repr_def min.commute)

lemma hh_fill_observe:
  assumes "hh_repr h msg"
  shows "hh_repr (hh_fill h (take (HANDSHAKE_HEADER_LEN - hh_known h) payload)) (msg @ payload)"
proof (cases "length msg < 4")
  case True
  with assms have known: "hh_known h = length msg" by (simp add: hh_repr_def)
  have "hh_repr (hh_fill h (take (4 - length msg) payload)) (msg @ take (4 - length msg) payload)"
    using assms True by (intro hh_fill_repr) auto
  moreover have "msg @ take (4 - length msg) payload = take 4 (msg @ payload)" using True by simp
  ultimately show ?thesis by (simp add: known HANDSHAKE_HEADER_LEN_def hh_repr_take del: take_append)
next
  case False
  with assms show ?thesis by (auto simp: hh_repr_def HANDSHAKE_HEADER_LEN_def)
qed

lemma hh_length_take: "4 \<le> length msg \<Longrightarrow> take 4 bs = take 4 msg \<Longrightarrow> hh_length bs = hh_length msg"
proof -
  assume "take 4 bs = take 4 msg"
  then have "bs ! i = msg ! i" if "i < 4" for i
    using that by (metis nth_take)
  then show "hh_length bs = hh_length msg" by (simp add: hh_length_def)
qed

lemma hh_repr_check:
  assumes "hh_repr h m"
  shows "(if hh_known h \<ge> 1 \<and> hh_bytes h ! 0 \<noteq> HANDSHAKE_TYPE_CLIENT_HELLO then Err NotClientHello
     else if hh_known h < HANDSHAKE_HEADER_LEN then Ok (h, None)
     else let len = hh_length (hh_bytes h)
          in if len > max_handshake_bytes limits then Err TooLarge else Ok (h, Some len)) =
    map_ok (Pair h) (header_check limits m)"
proof -
  have known: "hh_known h = min 4 (length m)"
    and bytes: "take (hh_known h) (hh_bytes h) = take 4 m" and len: "length (hh_bytes h) = 4"
    using assms unfolding hh_repr_def by blast+
  have first: "hh_bytes h ! 0 = hd m" if "m \<noteq> []"
  proof -
    from that have "0 < hh_known h" by (simp add: known)
    then have "hh_bytes h ! 0 = take 4 m ! 0" by (metis bytes nth_take)
    with that show ?thesis by (simp add: hd_conv_nth)
  qed
  have "hh_length (hh_bytes h) = hh_length m" if "4 \<le> length m"
    using that bytes known len by (intro hh_length_take) simp_all
  moreover have "1 \<le> hh_known h \<longleftrightarrow> m \<noteq> []"
    by (cases m) (simp_all add: known)
  moreover have "hh_known h < HANDSHAKE_HEADER_LEN \<longleftrightarrow> length m < 4"
    by (simp add: known HANDSHAKE_HEADER_LEN_def min_def)
  ultimately show ?thesis
    using first by (auto simp: header_check_def HANDSHAKE_TYPE_CLIENT_HELLO_def Let_def)
qed

lemma hh_observe_refines:
  assumes "hh_repr h msg"
  shows "\<exists>h'. hh_repr h' (msg @ payload) \<and>
    hh_observe h payload limits = map_ok (Pair h') (header_check limits (msg @ payload))"
  using hh_fill_observe [OF assms, of payload] hh_repr_check
  unfolding hh_observe_def Let_def by blast

section \<open>Ranges\<close>

definition range_bytes :: "byte list \<Rightarrow> range \<Rightarrow> byte list" where
  "range_bytes buf r = take (snd r - fst r) (drop (fst r) buf)"

definition ranges_ok :: "byte list \<Rightarrow> range list \<Rightarrow> bool" where
  "ranges_ok buf rs \<longleftrightarrow> list_all (\<lambda>r. fst r \<le> snd r \<and> snd r \<le> length buf) rs"

definition ranges_bytes :: "byte list \<Rightarrow> range list \<Rightarrow> byte list" where
  "ranges_bytes buf rs = concat (map (range_bytes buf) rs)"

lemma ranges_simps [simp]:
  "ranges_bytes buf [] = []"
  "ranges_bytes buf (r # rs) = range_bytes buf r @ ranges_bytes buf rs"
  "ranges_bytes buf (rs @ rs') = ranges_bytes buf rs @ ranges_bytes buf rs'"
  "ranges_ok buf []"
  "ranges_ok buf (r # rs) \<longleftrightarrow> fst r \<le> snd r \<and> snd r \<le> length buf \<and> ranges_ok buf rs"
  "ranges_ok buf (rs @ rs') \<longleftrightarrow> ranges_ok buf rs \<and> ranges_ok buf rs'"
  by (simp_all add: ranges_bytes_def ranges_ok_def)

lemma length_range_bytes:
  "fst r \<le> snd r \<Longrightarrow> snd r \<le> length buf \<Longrightarrow> length (range_bytes buf r) = snd r - fst r"
  by (simp add: range_bytes_def)

lemma gather_fragments_eq:
  "ranges_ok buf rs \<Longrightarrow> length message \<le> n \<Longrightarrow>
   gather_fragments buf n rs message = Some (message @ take (n - length message) (ranges_bytes buf rs))"
proof (induction rs arbitrary: message)
  case (Cons r rs)
  define k where "k = min (n - length message) (snd r - fst r)"
  from Cons.prems have ok: "fst r \<le> snd r" "snd r \<le> length buf" "ranges_ok buf rs" by simp_all
  have k_in: "fst r + k \<le> length buf" using ok by (simp add: k_def)
  have taken: "take k (drop (fst r) buf) = take (n - length message) (range_bytes buf r)"
    by (simp add: k_def range_bytes_def min.commute)
  have "length (message @ take k (drop (fst r) buf)) \<le> n" using Cons.prems(2) by (simp add: k_def)
  moreover have "n - (length message + k) = n - length message - (snd r - fst r)"
    by (auto simp: k_def min_def)
  moreover have "length (take k (drop (fst r) buf)) = k" using k_in by simp
  ultimately show ?case
    using Cons.IH [OF ok(3), of "message @ take k (drop (fst r) buf)"] Cons.prems(2) k_in taken ok
    by (simp add: k_def [symmetric] Let_def length_range_bytes)
qed simp

section \<open>Refinement of the scanner\<close>

definition scan_inv ::
    "byte list \<Rightarrow> nat \<Rightarrow> payloads \<Rightarrow> handshake_header \<Rightarrow> nat \<Rightarrow> byte list \<Rightarrow> bool" where
  "scan_inv buf offset p h tot msg \<longleftrightarrow>
     offset \<le> length buf \<and> payloads_wf p \<and> (offset = 0 \<longleftrightarrow> payloads_slice p = []) \<and>
     tot = length msg \<and> hh_repr h msg \<and>
     ranges_ok buf (payloads_slice p) \<and> ranges_bytes buf (payloads_slice p) = msg"

definition layout_ok :: "byte list \<Rightarrow> record_layout \<Rightarrow> nat \<times> byte list \<times> nat \<Rightarrow> bool" where
  "layout_ok buf l r \<longleftrightarrow>
     (case r of (hl, msg, consumed) \<Rightarrow>
        layout_handshake_len l = hl \<and> layout_consumed l = consumed \<and> 4 + hl \<le> length msg \<and>
        ranges_ok buf (payloads_slice (layout_payloads l)) \<and>
        ranges_bytes buf (payloads_slice (layout_payloads l)) = msg)"

definition scan_refines ::
    "byte list \<Rightarrow> (record_layout, parse_error) result option \<Rightarrow>
     (nat \<times> byte list \<times> nat, parse_error) result \<Rightarrow> bool" where
  "scan_refines buf c a \<longleftrightarrow>
     (case a of Err e \<Rightarrow> c = Some (Err e) | Ok r \<Rightarrow> \<exists>l. c = Some (Ok l) \<and> layout_ok buf l r)"

lemma scan_inv_init: "scan_inv buf 0 payloads_new hh_default 0 []"
  by (simp add: scan_inv_def payloads.wf_new payloads.slice_new hh_repr_default)

lemma scan_inv_step:
  assumes inv: "scan_inv buf offset p h tot msg"
    and fit: "offset + 5 + len \<le> length buf"
    and repr: "hh_repr h' (msg @ take len (drop (offset + 5) buf))"
  shows "scan_inv buf (offset + 5 + len) (payloads_push p (offset + 5, offset + 5 + len)) h'
    (tot + len) (msg @ take len (drop (offset + 5) buf))"
  using assms
  by (simp add: scan_inv_def payloads.wf_push payloads.slice_push range_bytes_def)

lemma check_record_header_pos:
  "check_record_header hdr first = Ok len \<Longrightarrow> 0 < len \<and> len \<le> 16384"
  by (auto simp: check_record_header_def MAX_RECORD_PAYLOAD_def Let_def split: result.splits if_splits)

lemma scan_loop_refines:
  "scan_inv buf offset p h tot msg \<Longrightarrow>
   scan_refines buf (scan_records_loop buf limits offset p h tot)
     (reassemble limits (length (payloads_slice p)) offset msg (drop offset buf))"
proof (induction "length buf - offset" arbitrary: offset p h tot msg rule: less_induct)
  case less
  let ?n = "length (payloads_slice p)" and ?rest = "drop offset buf"
  have off: "offset \<le> length buf" and wf: "payloads_wf p" and zero: "offset = 0 \<longleftrightarrow> ?n = 0"
    and tot: "tot = length msg" and repr: "hh_repr h msg"
    using less.prems by (simp_all add: scan_inv_def)
  note unfold_both = scan_records_loop.simps [of buf limits offset p h tot]
    scan_records_loop.simps [of buf limits offset p h "length msg"]
    reassemble.simps [of limits ?n offset msg ?rest]
  show ?case
  proof (cases "length ?rest < 5")
    case True
    with off zero show ?thesis
      by (simp add: unfold_both scan_refines_def RECORD_HEADER_LEN_def split: result.splits)
  next
    case long: False
    show ?thesis
    proof (cases "check_record_header (take 5 ?rest) (offset = 0)")
      case (Err e)
      with long off zero show ?thesis
        by (simp add: unfold_both scan_refines_def RECORD_HEADER_LEN_def)
    next
      case hdr: (Ok len)
      let ?avail = "take len (drop 5 ?rest)"
      have avail: "slice buf (offset + 5) (min (offset + 5 + len) (length buf)) = Some ?avail"
        using long off by (auto simp: min_def add.commute)
      obtain h' where h': "hh_repr h' (msg @ ?avail)"
        "hh_observe h ?avail limits = map_ok (Pair h') (header_check limits (msg @ ?avail))"
        using hh_observe_refines [OF repr] by blast
      have avail': "?avail = take len (drop (offset + 5) buf)" by (simp add: add.commute)
      show ?thesis
      proof (cases "?n = max_records limits \<or> \<not> is_ok (header_check limits (msg @ ?avail)) \<or>
          length ?rest < 5 + len")
        case True
        with long off zero hdr avail h'(2) wf show ?thesis
          by (cases "header_check limits (msg @ ?avail)")
            (auto simp: unfold_both scan_refines_def RECORD_HEADER_LEN_def Let_def
              payloads_len_slice)
      next
        case False
        then obtain hl where hl: "header_check limits (msg @ ?avail) = Ok hl"
          by (auto simp: is_ok_iff)
        from False have fit: "offset + 5 + len \<le> length buf" using off by auto
        have inv': "scan_inv buf (offset + 5 + len)
            (payloads_push p (offset + 5, offset + 5 + len)) h' (tot + len) (msg @ ?avail)"
          using scan_inv_step [OF less.prems fit] h'(1) unfolding avail' by blast
        have mn: "min (length buf - (5 + offset)) len = len" using fit by simp
        have fin_test: "(case hl of None \<Rightarrow> False | Some l \<Rightarrow> HANDSHAKE_HEADER_LEN + l \<le> length msg + len)
            \<longleftrightarrow> (case hl of None \<Rightarrow> False | Some l \<Rightarrow> 4 + l \<le> length msg + len)"
          by (cases hl) (simp_all add: HANDSHAKE_HEADER_LEN_def)
        show ?thesis
        proof (cases "case hl of None \<Rightarrow> False | Some l \<Rightarrow> 4 + l \<le> length msg + len")
          case fin: True
          have "layout_ok buf \<lparr>layout_payloads = payloads_push p (offset + 5, offset + 5 + len),
              layout_handshake_len = the hl, layout_consumed = offset + 5 + len\<rparr>
              (the hl, msg @ ?avail, offset + 5 + len)"
            using inv' fin fit by (auto simp: scan_inv_def layout_ok_def split: option.splits)
          with False long off zero hdr avail h'(2) wf hl fin tot show ?thesis
            by (simp add: unfold_both scan_refines_def RECORD_HEADER_LEN_def fin_test mn Let_def
                payloads_len_slice)
        next
          case more: False
          have rec: "scan_refines buf
              (scan_records_loop buf limits (offset + 5 + len)
                 (payloads_push p (offset + 5, offset + 5 + len)) h' (tot + len))
              (reassemble limits (Suc ?n) (offset + 5 + len) (msg @ ?avail)
                 (drop (offset + 5 + len) buf))"
            using less.hyps [OF _ inv'] fit
            by (simp add: payloads.slice_push [OF wf])
          have dr: "drop (offset + 5 + len) buf = drop (5 + len) ?rest" by (simp add: ac_simps)
          show ?thesis
            using rec False long off zero hdr avail h'(2) wf hl more tot
            by (simp add: unfold_both RECORD_HEADER_LEN_def fin_test mn Let_def payloads_len_slice dr)
        qed
      qed
    qed
  qed
qed

lemma hello_body_of_layout:
  assumes "layout_ok buf l (hl, msg, consumed)"
  shows "hello_body_of buf l = Some (take hl (drop 4 msg))"
proof -
  let ?rs = "payloads_slice (layout_payloads l)"
  from assms have hl: "layout_handshake_len l = hl" "4 + hl \<le> length msg"
    and ok: "ranges_ok buf ?rs" and bytes: "ranges_bytes buf ?rs = msg"
    by (simp_all add: layout_ok_def)
  show ?thesis
  proof (cases "\<exists>r. ?rs = [r]")
    case True
    then obtain r where r: "?rs = [r]" by blast
    with ok bytes have in_buf: "fst r \<le> snd r" "snd r \<le> length buf"
      and msg: "msg = range_bytes buf r" by simp_all
    with hl have fits: "fst r + (4 + hl) \<le> snd r" by (simp add: length_range_bytes)
    have "slice buf (fst r + 4) (fst r + (4 + hl)) = Some (take hl (drop (fst r + 4) buf))"
      using fits in_buf by simp
    moreover have "take hl (drop 4 msg) = take hl (drop (fst r + 4) buf)"
      using fits by (simp add: msg range_bytes_def drop_take min_def add.commute)
    ultimately show ?thesis
      using r hl by (simp add: hello_body_of_def Let_def HANDSHAKE_HEADER_LEN_def)
  next
    case False
    have gather: "gather_fragments buf (4 + hl) ?rs [] = Some (take (4 + hl) msg)"
      using gather_fragments_eq [OF ok, of "[]" "4 + hl"] bytes by simp
    have "hello_body_of buf l = slice (take (4 + hl) msg) 4 (length (take (4 + hl) msg))"
      using False gather hl(1)
      by (cases ?rs; cases "tl ?rs") (auto simp: hello_body_of_def Let_def HANDSHAKE_HEADER_LEN_def)
    also have "\<dots> = Some (take hl (drop 4 msg))"
      using hl(2) by (simp add: drop_take)
    finally show ?thesis .
  qed
qed

lemma parse_client_hello_eq: "parse_client_hello buf limits = Some (hello_of_wire limits buf)"
proof -
  have ref: "scan_refines buf (scan_records buf limits) (reassemble limits 0 0 [] buf)"
    using scan_loop_refines [OF scan_inv_init, of buf limits]
    by (simp add: scan_records_def payloads.slice_new)
  show ?thesis
  proof (cases "reassemble limits 0 0 [] buf")
    case (Err e)
    with ref show ?thesis by (simp add: parse_client_hello_def hello_of_wire_def scan_refines_def)
  next
    case (Ok r)
    obtain hl msg consumed where r: "r = (hl, msg, consumed)" by (cases r)
    from ref Ok r obtain l where l: "scan_records buf limits = Some (Ok l)"
      and ok: "layout_ok buf l (hl, msg, consumed)"
      by (auto simp: scan_refines_def)
    from ok have "layout_consumed l = consumed" by (simp add: layout_ok_def)
    with l Ok r hello_body_of_layout [OF ok] show ?thesis
      by (simp add: parse_client_hello_def hello_of_wire_def)
  qed
qed

section \<open>Properties\<close>

text \<open>C8 (scanner\_refines\_spec): on every input the parser returns, without a panic or an index
out of range, what the abstract record walk returns: copying the fragments by their
ranges yields the bytes the walk collects.\<close>

theorem scanner_refines_spec: "parse_client_hello buf limits = Some (hello_of_wire limits buf)"
  by (rule parse_client_hello_eq)

end
