(* ===== verification/Hello_Wire.thy ===== *)
theory Hello_Wire
  imports Reassembly
begin

text \<open>
  What the parser guarantees about a growing buffer: an answer never changes when more bytes
  arrive, the answer does not depend on how the handshake is cut into records, and the bytes
  it consumes are bounded.
\<close>

section \<open>Stability under more input\<close>

lemma check_partial_append:
  "check_partial_record_header r first = Err e \<Longrightarrow>
   check_partial_record_header (r @ ys) first = Err e"
  by (auto simp: check_partial_record_header_def nth_append split: if_splits)

lemma check_partial_not_Incomplete: "check_partial_record_header r first \<noteq> Err Incomplete"
  by (simp add: check_partial_record_header_def)

lemma header_check_append:
  assumes "header_check limits m = Err e"
  shows "header_check limits (m @ ys) = Err e"
proof -
  have "hh_length (m @ ys) = hh_length m" if "4 \<le> length m"
    using that by (intro hh_length_take) simp_all
  with assms show ?thesis
    by (cases m) (auto simp: header_check_def split: if_splits)
qed

lemma header_check_not_Incomplete: "header_check limits m \<noteq> Err Incomplete"
  by (simp add: header_check_def)

lemma reassemble_stable:
  "reassemble limits n offset msg rest \<noteq> Err Incomplete \<Longrightarrow>
   reassemble limits n offset msg (rest @ xs) = reassemble limits n offset msg rest"
proof (induction limits n offset msg rest rule: reassemble.induct)
  case (1 limits n offset msg rest)
  note unfold_both = reassemble.simps [of limits n offset msg rest]
    reassemble.simps [of limits n offset msg "rest @ xs"]
  show ?case
  proof (cases "length rest < 5")
    case True
    with "1.prems" obtain e where e: "check_partial_record_header rest (n = 0) = Err e"
      by (auto simp: reassemble.simps [of limits n offset msg rest] split: result.splits)
    then have "check_partial_record_header (take 5 (rest @ xs)) (n = 0) = Err e"
      using True check_partial_append [OF e, of "take (5 - length rest) xs"] by simp
    with True e check_partial_append [OF e, of xs] show ?thesis
      by (auto simp: unfold_both check_record_header_def)
  next
    case long: False
    show ?thesis
    proof (cases "check_record_header (take 5 rest) (n = 0)")
      case (Err e)
      with long show ?thesis by (simp add: unfold_both)
    next
      case hdr: (Ok len)
      show ?thesis
      proof (cases "length rest < 5 + len")
        case short: True
        have more: "take len (drop 5 (rest @ xs)) =
            take len (drop 5 rest) @ take (5 + len - length rest) xs"
          using short long by (simp add: add.commute)
        have same: "take 5 (rest @ xs) = take 5 rest" "\<not> length (rest @ xs) < 5"
          using long by simp_all
        from "1.prems" long hdr short obtain e where
          "n = max_records limits \<or> header_check limits (msg @ take len (drop 5 rest)) = Err e"
          by (auto simp: reassemble.simps [of limits n offset msg rest] split: result.splits if_splits)
        with long hdr show ?thesis
          using header_check_append [of limits "msg @ take len (drop 5 rest)" e
              "take (5 + len - length rest) xs"]
          by (auto simp: unfold_both more same simp del: drop_append take_append length_append)
      next
        case False
        with "1.IH" "1.prems" long hdr show ?thesis
          by (auto simp: unfold_both split: result.splits option.splits if_splits)
      qed
    qed
  qed
qed

lemma reassemble_consumed:
  "reassemble limits n offset msg rest = Ok (hl, m, consumed) \<Longrightarrow>
   offset < consumed \<and> consumed \<le> offset + length rest \<and> hl \<le> max_handshake_bytes limits"
proof (induction limits n offset msg rest rule: reassemble.induct)
  case (1 limits n offset msg rest)
  from "1.prems" obtain len where long: "\<not> length rest < 5"
    and hdr: "check_record_header (take 5 rest) (n = 0) = Ok len"
    by (auto simp: reassemble.simps [of limits n offset msg rest] split: if_splits result.splits)
  from "1.prems" long hdr obtain h where notmax: "n \<noteq> max_records limits"
    and h: "header_check limits (msg @ take len (drop 5 rest)) = Ok h"
    and fit: "\<not> length rest < 5 + len"
    by (auto simp: reassemble.simps [of limits n offset msg rest] split: if_splits result.splits)
  show ?case
  proof (cases "case h of None \<Rightarrow> False | Some l \<Rightarrow> 4 + l \<le> length msg + len")
    case True
    moreover have "the h \<le> max_handshake_bytes limits" if "h \<noteq> None"
      using h that by (auto simp: header_check_def split: if_splits)
    ultimately show ?thesis
      using "1.prems" long hdr notmax h fit
      by (auto simp: reassemble.simps [of limits n offset msg rest] split: option.splits)
  next
    case False
    with "1.prems" long hdr notmax h fit
    have "reassemble limits (Suc n) (offset + 5 + len) (msg @ take len (drop 5 rest))
        (drop (5 + len) rest) = Ok (hl, m, consumed)"
      by (simp add: reassemble.simps [of limits n offset msg rest])
    from "1.IH" [OF long hdr notmax h fit False this] fit show ?thesis by auto
  qed
qed

section \<open>The wire grammar\<close>

text \<open>A handshake record with any minor version, and the handshake message of a body.\<close>

definition enc_record :: "byte \<times> byte list \<Rightarrow> byte list" where
  "enc_record r = [0x16, 3, fst r] @ enc_vec16 (snd r)"

definition enc_records :: "(byte \<times> byte list) list \<Rightarrow> byte list" where
  "enc_records rs = concat (map enc_record rs)"

definition record_payloads :: "(byte \<times> byte list) list \<Rightarrow> byte list" where
  "record_payloads rs = concat (map snd rs)"

definition wf_records :: "(byte \<times> byte list) list \<Rightarrow> bool" where
  "wf_records rs \<longleftrightarrow> (\<forall>r \<in> set rs. 0 < length (snd r) \<and> length (snd r) \<le> 16384)"

definition enc_u24 :: "nat \<Rightarrow> byte list" where
  "enc_u24 n = [of_nat (n div 65536), of_nat (n div 256 mod 256), of_nat (n mod 256)]"

definition enc_handshake :: "byte list \<Rightarrow> byte list" where
  "enc_handshake body = 1 # enc_u24 (length body) @ body"

text \<open>
  The records carry the handshake message of \<open>body\<close>, and the message ends in the last of
  them, where other handshake bytes may follow it.
\<close>

definition carries :: "(byte \<times> byte list) list \<Rightarrow> byte list \<Rightarrow> bool" where
  "carries rs body \<longleftrightarrow>
     rs \<noteq> [] \<and> wf_records rs \<and> length body < 16777216 \<and>
     take (length body + 4) (record_payloads rs) = enc_handshake body \<and>
     length (record_payloads (butlast rs)) < length body + 4"

lemma enc_records_simps [simp]:
  "enc_records [] = []" "enc_records (r # rs) = enc_record r @ enc_records rs"
  "record_payloads [] = []" "record_payloads (r # rs) = snd r @ record_payloads rs"
  "wf_records []"
  "wf_records (r # rs) \<longleftrightarrow> 0 < length (snd r) \<and> length (snd r) \<le> 16384 \<and> wf_records rs"
  by (auto simp: enc_records_def record_payloads_def wf_records_def)

lemma length_enc_record [simp]: "length (enc_record r) = 5 + length (snd r)"
  by (simp add: enc_record_def)

lemma length_enc_records: "length (enc_records rs) = 5 * length rs + length (record_payloads rs)"
  by (induction rs) auto

lemma length_enc_handshake [simp]: "length (enc_handshake body) = length body + 4"
  by (simp add: enc_handshake_def enc_u24_def)

lemma or_push_bit_nat:
  fixes a b :: nat
  assumes "b < 2 ^ k"
  shows "push_bit k a OR b = a * 2 ^ k + b"
proof -
  have "take_bit k b = b" using assms by (simp add: take_bit_nat_eq_self)
  then have "bit b i \<Longrightarrow> i < k" for i by (metis bit_take_bit_iff)
  then have "push_bit k a AND b = 0"
    by (intro bit_eqI) (auto simp: bit_and_iff bit_push_bit_iff dest: leD)
  then have "push_bit k a + b = push_bit k a OR b" by (rule disjunctive_add_eq_or)
  then show ?thesis by (simp add: push_bit_eq_mult)
qed

lemma hh_length_bytes:
  "hh_length (t # a # b # c # xs) = unat a * 65536 + unat b * 256 + unat c"
proof -
  have c: "unat c < 2 ^ 8" and b: "unat b < 2 ^ 8" using unat_byte_lt by simp_all
  have low: "push_bit 8 (unat b) OR unat c = unat b * 2 ^ 8 + unat c" by (rule or_push_bit_nat [OF c])
  have "unat b * 2 ^ 8 + unat c < 2 ^ 16" using b c by simp
  from or_push_bit_nat [OF this, of "unat a"] low show ?thesis
    by (simp add: hh_length_def or.assoc nth_Cons')
qed

lemma enc_u24_decode:
  assumes "n < 16777216"
  shows "hh_length (t # enc_u24 n @ xs) = n"
proof -
  have "n div 65536 < 256" using assms by auto
  then have "unat (of_nat (n div 65536) :: byte) = n div 65536" by (simp add: unat_of_nat)
  moreover have "n div 65536 * 65536 + n div 256 mod 256 * 256 + n mod 256 = n"
  proof -
    have "n div 65536 = n div 256 div 256" by (simp add: div_mult2_eq [symmetric])
    moreover have "n div 256 div 256 * 256 + n div 256 mod 256 = n div 256" by (rule div_mult_mod_eq)
    moreover have "n div 256 * 256 + n mod 256 = n" by (rule div_mult_mod_eq)
    ultimately show ?thesis by linarith
  qed
  ultimately show ?thesis by (simp add: enc_u24_def hh_length_bytes unat_of_nat)
qed

lemma enc_u24_encode: "enc_u24 (hh_length (t # a # b # c # xs)) = [a, b, c]"
proof -
  have c: "unat c < 256" and b: "unat b < 256" using unat_byte_lt by simp_all
  let ?n = "(unat a * 256 + unat b) * 256 + unat c"
  have high: "?n div 256 = unat a * 256 + unat b" "?n mod 256 = unat c"
    using c by (simp_all only: div_mult_self3 mod_mult_self3) simp_all
  have "?n div 65536 = ?n div 256 div 256" by (simp only: div_mult2_eq [symmetric]) simp
  with high b have "?n div 65536 = unat a" "?n div 256 mod 256 = unat b" by simp_all
  moreover have "hh_length (t # a # b # c # xs) = ?n" by (simp add: hh_length_bytes)
  ultimately show ?thesis using high(2) by (simp only: enc_u24_def) simp
qed

lemma hh_length_lt: "hh_length (t # a # b # c # xs) < 16777216"
  using unat_byte_lt [of a] unat_byte_lt [of b] unat_byte_lt [of c] by (simp add: hh_length_bytes)

section \<open>Reassembly and the grammar\<close>

lemma check_record_header_enc:
  assumes "0 < length (snd r)" "length (snd r) \<le> 16384"
  shows "check_record_header (take 5 (enc_record r @ rest)) first = Ok (length (snd r))"
proof -
  have bytes: "take 5 (enc_record r @ rest) = [0x16, 3, fst r] @ to_be_bytes16 (of_nat (length (snd r)))"
    by (simp add: enc_record_def enc_vec16_def)
  have "from_be_bytes16 (take 5 (enc_record r @ rest) ! 3) (take 5 (enc_record r @ rest) ! 4) =
      of_nat (length (snd r))"
    using from_to_be_bytes16 [of "of_nat (length (snd r))"]
    by (simp only: bytes) (simp add: nth_append numeral_3_eq_3 nth_Cons')
  moreover have "unat (of_nat (length (snd r)) :: u16) = length (snd r)"
    using assms by (simp add: unat_of_nat)
  ultimately show ?thesis
    using assms unfolding bytes
    by (simp add: check_record_header_def check_partial_record_header_def Let_def
        MAX_RECORD_PAYLOAD_def CONTENT_TYPE_HANDSHAKE_def RECORD_VERSION_MAJOR_def)
qed

lemma check_record_header_shape:
  assumes ok: "check_record_header (take 5 rest) first = Ok len" and "5 + len \<le> length rest"
  shows "\<exists>minor. rest = enc_record (minor, take len (drop 5 rest)) @ drop (5 + len) rest"
proof -
  from assms(2) obtain a b c d e xs where rest: "rest = a # b # c # d # e # xs"
    by (cases rest; cases "tl rest"; cases "tl (tl rest)"; cases "tl (tl (tl rest))";
        cases "tl (tl (tl (tl rest)))") auto
  from ok have ab: "a = 0x16" "b = 3" and len: "len = unat (from_be_bytes16 d e)" "len \<le> 16384"
    by (auto simp: rest check_record_header_def check_partial_record_header_def Let_def
        CONTENT_TYPE_HANDSHAKE_def RECORD_VERSION_MAJOR_def MAX_RECORD_PAYLOAD_def
        nth_Cons' split: if_splits result.splits)
  have "of_nat len = from_be_bytes16 d e" 
    using len(1) by (simp only: unat_from_be_bytes16) (simp only: from_be_bytes16_def)
  then have "to_be_bytes16 (of_nat len) = [d, e]" by simp
  moreover have "length (take len xs) = len" using assms(2) rest by simp
  moreover have "drop (5 + len) rest = drop len xs" by (simp add: rest drop_Cons')
  ultimately show ?thesis
    by (intro exI [of _ c]) (simp add: enc_record_def enc_vec16_def, simp add: rest ab)
qed

lemma reassemble_record:
  assumes "0 < length (snd r)" "length (snd r) \<le> 16384"
  shows "reassemble limits n offset msg (enc_record r @ rest) =
    (if n = max_records limits then Err TooLarge
     else case header_check limits (msg @ snd r) of
       Err e \<Rightarrow> Err e
     | Ok hl \<Rightarrow>
         if (case hl of None \<Rightarrow> False | Some l \<Rightarrow> 4 + l \<le> length (msg @ snd r))
         then Ok (the hl, msg @ snd r, offset + length (enc_record r))
         else reassemble limits (Suc n) (offset + length (enc_record r)) (msg @ snd r) rest)"
proof -
  have "drop 5 (enc_record r @ rest) = snd r @ rest"
    by (simp add: enc_record_def enc_vec16_def to_be_bytes16_def)
  then have payload: "take (length (snd r)) (drop 5 (enc_record r @ rest)) = snd r" by simp
  have after: "drop (5 + length (snd r)) (enc_record r @ rest) = rest" by simp
  show ?thesis
    by (cases "header_check limits (msg @ snd r)")
      (simp_all add: reassemble.simps [of limits n offset msg] check_record_header_enc [OF assms]
        payload after add.assoc [symmetric] del: take_append drop_append split: option.split)
qed

lemma header_check_handshake:
  assumes "take (length body + 4) m = take (length m) (enc_handshake body)" "length body < 16777216"
  shows "header_check limits m =
    (if length m < 4 then Ok None
     else if max_handshake_bytes limits < length body then Err TooLarge
     else Ok (Some (length body)))"
proof (cases "4 \<le> length m")
  case True
  have "take 4 (take (length body + 4) m) = take 4 (take (length m) (enc_handshake body))"
    using assms(1) by simp
  then have "take 4 m = take 4 (enc_handshake body)" using True by (simp add: min_def)
  then have m: "take 4 m = 1 # enc_u24 (length body)" by (simp add: enc_handshake_def enc_u24_def)
  then have "hh_length m = hh_length (1 # enc_u24 (length body) @ [])"
    by (intro hh_length_take [symmetric]) (simp_all add: enc_u24_def True)
  moreover have "hd m = 1" using m True by (cases m) auto
  ultimately show ?thesis
    using True assms(2) by (simp add: header_check_def enc_u24_decode del: append_Nil2)
next
  case False
  then have "m = take (length m) (enc_handshake body)" using assms(1) by simp
  then have "hd m = 1" if "m \<noteq> []" using that by (cases m) (auto simp: enc_handshake_def)
  with False show ?thesis by (auto simp: header_check_def)
qed

text \<open>A part of a handshake message is a prefix of its encoding, as far as that goes.\<close>

lemma handshake_part:
  assumes "msg @ p @ rest = m" "take (length body + 4) m = enc_handshake body"
  shows "take (length body + 4) (msg @ p) = take (length (msg @ p)) (enc_handshake body)"
proof -
  have "msg @ p = take (length (msg @ p)) m" using assms(1) by auto
  then have "take (length body + 4) (msg @ p) = take (length (msg @ p)) (take (length body + 4) m)"
    by (metis take_take min.commute)
  then show ?thesis by (simp only: assms(2))
qed

lemma reassemble_enc:
  assumes "msg @ record_payloads rs = m" "rs \<noteq> []" "wf_records rs"
    and "take (length body + 4) m = enc_handshake body"
    and "length msg + length (record_payloads (butlast rs)) < length body + 4"
    and "n + length rs \<le> max_records limits"
    and bounds: "length body < 16777216" "length body \<le> max_handshake_bytes limits"
  shows "reassemble limits n offset msg (enc_records rs @ tail) =
    Ok (length body, m, offset + length (enc_records rs))"
  using assms(1-6)
proof (induction rs arbitrary: n offset msg)
  case (Cons r rs)
  have enough: "length body + 4 \<le> length m"
    using Cons.prems(4) length_enc_handshake [of body] by (metis length_take min.cobounded1)
  have "header_check limits (msg @ snd r) = Ok (if length (msg @ snd r) < 4 then None else Some (length body))"
    using header_check_handshake [OF handshake_part bounds(1), of msg "snd r" "record_payloads rs" m limits]
      Cons.prems(1,4) bounds(2) by simp
  note check = this
  show ?case
  proof (cases "rs = []")
    case True
    with Cons.prems enough check show ?thesis by (simp add: reassemble_record)
  next
    case False
    with Cons.prems have short: "length (msg @ snd r) < length body + 4" by simp
    have step: "reassemble limits n offset msg (enc_record r @ enc_records rs @ tail) =
        reassemble limits (Suc n) (offset + length (enc_record r)) (msg @ snd r)
          (enc_records rs @ tail)"
      using Cons.prems(3,6) check short by (simp add: reassemble_record)
    show ?thesis using Cons.IH [of "msg @ snd r" "Suc n"] Cons.prems False step by simp
  qed
qed simp

text \<open>Too many records, or a message that is too long, are both \<open>TooLarge\<close>.\<close>

lemma reassemble_over:
  assumes "msg @ record_payloads rs = m" "rs \<noteq> []" "wf_records rs"
    and "take (length body + 4) m = enc_handshake body"
    and "length msg + length (record_payloads (butlast rs)) < length body + 4" "n \<le> max_records limits"
    and "max_records limits < n + length rs \<or> max_handshake_bytes limits < length body"
    and bound: "length body < 16777216"
  shows "reassemble limits n offset msg (enc_records rs @ tail) = Err TooLarge"
  using assms(1-7)
proof (induction rs arbitrary: n offset msg)
  case (Cons r rs)
  have enough: "length body + 4 \<le> length m"
    using Cons.prems(4) length_enc_handshake [of body] by (metis length_take min.cobounded1)
  have "header_check limits (msg @ snd r) =
      (if length (msg @ snd r) < 4 then Ok None
       else if max_handshake_bytes limits < length body then Err TooLarge
       else Ok (Some (length body)))"
    using header_check_handshake [OF handshake_part bound, of msg "snd r" "record_payloads rs" m limits]
      Cons.prems(1,4) by simp
  note check = this
  show ?case
  proof (cases "n = max_records limits")
    case True
    with Cons.prems(3) show ?thesis by (simp add: reassemble_record)
  next
    case False
    with Cons.prems(6) have room: "n < max_records limits" by simp
    show ?thesis
    proof (cases "rs = []")
      case True
      with Cons.prems(1,7) room enough have "max_handshake_bytes limits < length body" "4 \<le> length (msg @ snd r)"
        by auto
      with Cons.prems(3) room check show ?thesis by (simp add: reassemble_record)
    next
      case more: False
      with Cons.prems(5) have short: "length (msg @ snd r) < length body + 4" by simp
      show ?thesis
      proof (cases "4 \<le> length (msg @ snd r) \<and> max_handshake_bytes limits < length body")
        case True
        with Cons.prems(3) room check show ?thesis by (simp add: reassemble_record)
      next
        case False
        then have step: "reassemble limits n offset msg (enc_record r @ enc_records rs @ tail) =
            reassemble limits (Suc n) (offset + length (enc_record r)) (msg @ snd r)
              (enc_records rs @ tail)"
          using Cons.prems(3) room check short by (auto simp: reassemble_record)
        show ?thesis using Cons.IH [of "msg @ snd r" "Suc n"] Cons.prems more room step by simp
      qed
    qed
  qed
qed simp

lemma header_check_Some:
  assumes "header_check limits m = Ok (Some hl)" and "4 + hl \<le> length m"
  shows "hl \<le> max_handshake_bytes limits \<and> hl < 16777216 \<and>
    take (hl + 4) m = enc_handshake (take hl (drop 4 m))"
proof -
  obtain t a b c xs where m: "m = t # a # b # c # xs"
    using assms(2) by (cases m; cases "tl m"; cases "tl (tl m)"; cases "tl (tl (tl m))") auto
  from assms(1) have "t = 1" and hl: "hl = hh_length m" "hl \<le> max_handshake_bytes limits"
    by (auto simp: header_check_def m split: if_splits)
  then show ?thesis
    using assms(2) hh_length_lt [of t a b c xs] enc_u24_encode [of t a b c xs]
    by (simp add: m enc_handshake_def take_Cons')
qed

lemma header_check_pending:
  assumes "header_check limits msg = Ok l" and "header_check limits (msg @ p) = Ok (Some hl)"
    and "\<not> (case l of None \<Rightarrow> False | Some l \<Rightarrow> 4 + l \<le> length msg)"
  shows "length msg < 4 + hl"
proof (cases "4 \<le> length msg")
  case True
  then have "hh_length (msg @ p) = hh_length msg" by (intro hh_length_take) simp_all
  with assms True show ?thesis by (auto simp: header_check_def split: if_splits)
qed simp

lemma reassemble_shape:
  "reassemble limits n offset msg rest = Ok (hl, m, consumed) \<Longrightarrow> n \<le> max_records limits \<Longrightarrow>
   (\<exists>l. header_check limits msg = Ok l \<and>
      \<not> (case l of None \<Rightarrow> False | Some l \<Rightarrow> 4 + l \<le> length msg)) \<Longrightarrow>
   \<exists>rs tail. rs \<noteq> [] \<and> wf_records rs \<and> rest = enc_records rs @ tail \<and>
     m = msg @ record_payloads rs \<and> consumed = offset + length (enc_records rs) \<and>
     n + length rs \<le> max_records limits \<and> header_check limits m = Ok (Some hl) \<and>
     4 + hl \<le> length m \<and> length msg + length (record_payloads (butlast rs)) < 4 + hl"
proof (induction limits n offset msg rest rule: reassemble.induct)
  case (1 limits n offset msg rest)
  note unfold_one = reassemble.simps [of limits n offset msg rest]
  from "1.prems"(1) obtain len where long: "\<not> length rest < 5"
    and hdr: "check_record_header (take 5 rest) (n = 0) = Ok len"
    by (auto simp: unfold_one split: if_splits result.splits)
  let ?p = "take len (drop 5 rest)"
  from "1.prems"(1) long hdr obtain h where notmax: "n \<noteq> max_records limits"
    and h: "header_check limits (msg @ ?p) = Ok h" and fit: "\<not> length rest < 5 + len"
    by (auto simp: unfold_one split: if_splits result.splits)
  obtain minor where rest: "rest = enc_record (minor, ?p) @ drop (5 + len) rest"
    using check_record_header_shape [OF hdr] fit by auto
  have len: "0 < len" "len \<le> 16384" "length ?p = len"
    using check_record_header_pos [OF hdr] fit by auto
  show ?case
  proof (cases "case h of None \<Rightarrow> False | Some l \<Rightarrow> 4 + l \<le> length msg + len")
    case True
    then obtain l where l: "h = Some l" "4 + l \<le> length msg + len" by (auto split: option.splits)
    with "1.prems"(1) long hdr notmax h fit have res: "hl = l" "m = msg @ ?p" "consumed = offset + 5 + len"
      by (simp_all add: unfold_one)
    from "1.prems"(3) h l have "length msg < 4 + hl" by (auto simp: res intro: header_check_pending)
    with rest res l h len notmax "1.prems"(2) show ?thesis
      by (intro exI [of _ "[(minor, ?p)]"] exI [of _ "drop (5 + len) rest"]) simp
  next
    case False
    with "1.prems"(1) long hdr notmax h fit
    have "reassemble limits (Suc n) (offset + 5 + len) (msg @ ?p) (drop (5 + len) rest) =
        Ok (hl, m, consumed)"
      by (simp add: unfold_one)
    moreover have "\<exists>l. header_check limits (msg @ ?p) = Ok l \<and>
        \<not> (case l of None \<Rightarrow> False | Some l \<Rightarrow> 4 + l \<le> length (msg @ ?p))"
      using h False by (intro exI [of _ h]) (simp only: length_append len(3) simp_thms)
    ultimately obtain rs tail where
      rs: "rs \<noteq> []" "wf_records rs" "drop (5 + len) rest = enc_records rs @ tail"
        "m = (msg @ ?p) @ record_payloads rs"
        "consumed = offset + 5 + len + length (enc_records rs)"
        "Suc n + length rs \<le> max_records limits" "header_check limits m = Ok (Some hl)"
        "4 + hl \<le> length m"
        "length (msg @ ?p) + length (record_payloads (butlast rs)) < 4 + hl"
      using "1.IH" [OF long hdr notmax h fit False] notmax "1.prems"(2) by auto
    then show ?thesis
      using rest len
      by (intro exI [of _ "(minor, ?p) # rs"] exI [of _ tail]) simp
  qed
qed

section \<open>The parser on the wire\<close>

lemma hello_of_wire_enc:
  assumes "carries rs body" "length rs \<le> max_records limits"
    "length body \<le> max_handshake_bytes limits"
  shows "hello_of_wire limits (enc_records rs @ tail) =
    map_ok (\<lambda>sni. \<lparr>info_sni = sni, info_consumed = length (enc_records rs)\<rparr>)
      (parse_client_hello_body body)"
proof -
  have "reassemble limits 0 0 [] (enc_records rs @ tail) =
      Ok (length body, record_payloads rs, 0 + length (enc_records rs))"
    using assms by (intro reassemble_enc) (auto simp: carries_def)
  moreover have "take (length body) (drop 4 (record_payloads rs)) = body"
  proof -
    have "drop 4 (take (length body + 4) (record_payloads rs)) = drop 4 (enc_handshake body)"
      using assms(1) by (simp add: carries_def)
    then show ?thesis by (simp add: drop_take enc_handshake_def enc_u24_def)
  qed
  ultimately show ?thesis by (simp add: hello_of_wire_def)
qed

lemma hello_of_wire_over:
  assumes "carries rs body" "max_records limits < length rs \<or> max_handshake_bytes limits < length body"
  shows "hello_of_wire limits (enc_records rs @ tail) = Err TooLarge"
proof -
  have "reassemble limits 0 0 [] (enc_records rs @ tail) = Err TooLarge"
    using assms by (intro reassemble_over) (auto simp: carries_def)
  then show ?thesis by (simp add: hello_of_wire_def)
qed

lemma reassemble_carries:
  assumes "reassemble limits 0 0 [] buf = Ok (hl, m, consumed)"
  shows "\<exists>rs tail. carries rs (take hl (drop 4 m)) \<and> length rs \<le> max_records limits \<and>
    hl \<le> max_handshake_bytes limits \<and> length (take hl (drop 4 m)) = hl \<and>
    buf = enc_records rs @ tail \<and> consumed = length (enc_records rs)"
proof -
  have start: "\<exists>l. header_check limits [] = Ok l \<and>
      \<not> (case l of None \<Rightarrow> False | Some l \<Rightarrow> 4 + l \<le> length ([] :: byte list))"
    by (simp add: header_check_def)
  obtain rs tail where rs: "rs \<noteq> []" "wf_records rs" "buf = enc_records rs @ tail"
      "m = record_payloads rs" "consumed = length (enc_records rs)" "length rs \<le> max_records limits"
    and h: "header_check limits m = Ok (Some hl)" "4 + hl \<le> length m"
    and short: "length (record_payloads (butlast rs)) < 4 + hl"
    using reassemble_shape [OF assms _ start] by auto
  from header_check_Some [OF h] h(2) rs short show ?thesis
    by (intro exI [of _ rs] exI [of _ tail]) (auto simp: carries_def min_def)
qed

lemma hello_of_wire_Ok_iff:
  "hello_of_wire limits buf = Ok info \<longleftrightarrow>
   (\<exists>rs body tail. carries rs body \<and> length rs \<le> max_records limits \<and>
      length body \<le> max_handshake_bytes limits \<and> buf = enc_records rs @ tail \<and>
      parse_client_hello_body body = Ok (info_sni info) \<and>
      info_consumed info = length (enc_records rs))"
  (is "?l \<longleftrightarrow> ?r")
proof
  assume ?l
  then obtain hl m consumed where re: "reassemble limits 0 0 [] buf = Ok (hl, m, consumed)"
    and body: "parse_client_hello_body (take hl (drop 4 m)) = Ok (info_sni info)"
    and consumed: "info_consumed info = consumed"
    by (auto simp: hello_of_wire_def map_ok_eq_Ok split: result.splits)
  from reassemble_carries [OF re] body consumed show ?r by metis
next
  assume ?r
  then show ?l by (auto simp: hello_of_wire_enc map_ok_eq_Ok)
qed

lemma hello_of_wire_stable:
  assumes "hello_of_wire limits buf \<noteq> Err Incomplete"
  shows "hello_of_wire limits (buf @ xs) = hello_of_wire limits buf"
proof -
  have "reassemble limits 0 0 [] buf \<noteq> Err Incomplete"
    using assms by (auto simp: hello_of_wire_def)
  from reassemble_stable [OF this] show ?thesis by (simp add: hello_of_wire_def)
qed

lemma hello_of_wire_prefix:
  assumes "carries rs body" "length rs \<le> max_records limits"
    "length body \<le> max_handshake_bytes limits" and k: "k < length (enc_records rs)"
  shows "hello_of_wire limits (take k (enc_records rs)) = Err Incomplete"
proof (rule ccontr)
  let ?w = "enc_records rs"
  assume "\<not> ?thesis"
  then have "reassemble limits 0 0 [] (take k ?w) \<noteq> Err Incomplete"
    by (auto simp: hello_of_wire_def)
  from reassemble_stable [OF this, of "drop k ?w"]
  have eq: "reassemble limits 0 0 [] (take k ?w) = reassemble limits 0 0 [] ?w" by simp
  have "reassemble limits 0 0 [] (?w @ []) = Ok (length body, record_payloads rs, 0 + length ?w)"
    using assms(1-3) by (intro reassemble_enc) (auto simp: carries_def)
  with eq have "reassemble limits 0 0 [] (take k ?w) = Ok (length body, record_payloads rs, length ?w)"
    by simp
  from reassemble_consumed [OF this] k show False by simp
qed

lemma carries_consumed_bound:
  assumes "carries rs body" "length rs \<le> max_records limits"
    "length body \<le> max_handshake_bytes limits"
  shows "length (enc_records rs) < max_wire_bytes limits + MAX_RECORD_PAYLOAD"
    and "record_payloads rs = enc_handshake body \<Longrightarrow> length (enc_records rs) \<le> max_wire_bytes limits"
proof -
  obtain ss r where rs: "rs = ss @ [r]" using assms(1) by (cases rs rule: rev_cases) (auto simp: carries_def)
  with assms(1) have "length (record_payloads ss) < length body + 4" "length (snd r) \<le> 16384"
    by (auto simp: carries_def wf_records_def)
  moreover have "length (record_payloads rs) = length (record_payloads ss) + length (snd r)"
    by (simp add: rs record_payloads_def)
  ultimately show "length (enc_records rs) < max_wire_bytes limits + MAX_RECORD_PAYLOAD"
    using assms(2,3) by (simp add: length_enc_records max_wire_bytes_def MAX_RECORD_PAYLOAD_def
        HANDSHAKE_HEADER_LEN_def RECORD_HEADER_LEN_def)
  show "length (enc_records rs) \<le> max_wire_bytes limits" if "record_payloads rs = enc_handshake body"
    using assms(2,3) that by (simp add: length_enc_records max_wire_bytes_def
        HANDSHAKE_HEADER_LEN_def RECORD_HEADER_LEN_def)
qed

lemma parse_client_hello_carries:
  assumes "carries rs body" "length rs \<le> max_records limits"
    "length body \<le> max_handshake_bytes limits"
  shows "parse_client_hello (enc_records rs @ tail) limits =
    Some (map_ok (\<lambda>sni. \<lparr>info_sni = sni, info_consumed = length (enc_records rs)\<rparr>)
      (parse_client_hello_body body))"
  by (simp add: parse_client_hello_eq hello_of_wire_enc [OF assms])

section \<open>Properties\<close>

text \<open>C1 (wire\_grammar): a buffer parses to a ClientHello exactly when it starts with handshake
records, within the limits, that carry the encoding of a well-formed hello; the answer
is that hello's name and the length of those records.\<close>

theorem wire_grammar:
  "parse_client_hello buf limits = Some (Ok info) \<longleftrightarrow>
   (\<exists>rs h tail. carries rs (enc_hello h) \<and> wf_hello h \<and> length rs \<le> max_records limits \<and>
      length (enc_hello h) \<le> max_handshake_bytes limits \<and> buf = enc_records rs @ tail \<and>
      hello_sni h = Ok (info_sni info) \<and> info_consumed info = length (enc_records rs))"
  by (auto simp: parse_client_hello_eq hello_of_wire_Ok_iff parse_body_Ok_iff)

text \<open>C24 (fragmentation\_independent): what the parser makes of a handshake message that arrived whole, accepting or
not. How the message is cut into records matters only through their number: with at most
\<open>max_records\<close> of them the answer is that of the message's body, one of at most
\<open>max_handshake_bytes\<close> bytes, and whatever follows the records plays no part; with more records, or a
longer body, it is \<open>TooLarge\<close>.\<close>

theorem fragmentation_independent:
  assumes "carries rs body"
  shows "map_option (map_ok info_sni) (parse_client_hello (enc_records rs @ tail) limits) =
    Some (if length rs \<le> max_records limits \<and> length body \<le> max_handshake_bytes limits
          then parse_client_hello_body body else Err TooLarge)"
proof (cases "length rs \<le> max_records limits \<and> length body \<le> max_handshake_bytes limits")
  case True
  with parse_client_hello_carries [OF assms] show ?thesis by (cases "parse_client_hello_body body") simp_all
next
  case False
  with hello_of_wire_over [OF assms] show ?thesis by (auto simp: parse_client_hello_eq)
qed

definition tiny_limits :: hello_limits where
  "tiny_limits = \<lparr>max_handshake_bytes = 41, max_records = 1\<rparr>"

text \<open>One message cut in two ways, of which the limits allow only the first.\<close>

theorem fragmentation_independent_witness:
  "map_option (map_ok info_sni) (parse_client_hello (enc_records [(1, [1, 0, 0, 1, 7])] @ [9]) tiny_limits) =
     Some (parse_client_hello_body [7]) \<and>
   map_option (map_ok info_sni)
     (parse_client_hello (enc_records [(1, [1, 0]), (3, [0, 1]), (1, [7, 8])] @ [9]) tiny_limits) =
     Some (Err TooLarge)"
proof -
  have "carries [(1, [1, 0, 0, 1, 7])] [7]" "carries [(1, [1, 0]), (3, [0, 1]), (1, [7, 8])] [7]"
    by (simp_all add: carries_def enc_handshake_def enc_u24_def)
  from this [THEN fragmentation_independent, of "[9]" tiny_limits] show ?thesis
    by (simp add: tiny_limits_def)
qed

text \<open>C25 (answers\_are\_final): once the parser has answered anything but \<open>Incomplete\<close>, more input
does not change the answer.\<close>

theorem answers_are_final:
  assumes "parse_client_hello buf limits \<noteq> Some (Err Incomplete)"
  shows "parse_client_hello (buf @ xs) limits = parse_client_hello buf limits"
  using assms by (simp add: parse_client_hello_eq hello_of_wire_stable)

theorem answers_are_final_witness:
  "parse_client_hello ([0x17] @ [3, 1]) hello_limits_default = Some (Err NotHandshake)"
proof -
  have bad: "parse_client_hello [0x17] hello_limits_default = Some (Err NotHandshake)" by code_simp
  then have "parse_client_hello [0x17] hello_limits_default \<noteq> Some (Err Incomplete)" by simp
  from answers_are_final [OF this, of "[3, 1]"] bad show ?thesis by simp
qed

text \<open>Every strict prefix of the records that carry a handshake message is
\<open>Incomplete\<close>, so a partial hello is never answered or rejected early.\<close>

theorem no_early_answer:
  assumes "carries rs body" "length rs \<le> max_records limits"
    "length body \<le> max_handshake_bytes limits" "k < length (enc_records rs)"
  shows "parse_client_hello (take k (enc_records rs)) limits = Some (Err Incomplete)"
  using hello_of_wire_prefix [OF assms] by (simp add: parse_client_hello_eq)

theorem no_early_answer_witness:
  "parse_client_hello (take 8 (enc_records [(1, [1, 0]), (3, [0, 1, 7])])) hello_limits_default =
     Some (Err Incomplete)"
proof (rule no_early_answer [where body = "[7]"])
  show "carries [(1, [1, 0]), (3, [0, 1, 7])] [7]"
    by (simp add: carries_def enc_handshake_def enc_u24_def)
qed (simp_all add: hello_limits_default_def enc_record_def)

text \<open>A hello consumes no more bytes than the buffer holds and less than one
maximal record above \<open>max_wire_bytes\<close>.\<close>

theorem consumed_bound:
  assumes "parse_client_hello buf limits = Some (Ok info)"
  shows "info_consumed info \<le> length buf \<and>
    info_consumed info < max_wire_bytes limits + MAX_RECORD_PAYLOAD"
  using assms carries_consumed_bound(1)
  by (auto simp: parse_client_hello_eq hello_of_wire_Ok_iff)

text \<open>The smallest hello: no session, one suite, no extensions; two stray bytes end its record.\<close>

definition tiny_client_hello :: client_hello where
  "tiny_client_hello = \<lparr>ch_version = 0x0303, ch_random = replicate 32 0, ch_session_id = [],
     ch_cipher_suites = [0x13, 1], ch_compression = [0], ch_extensions = None\<rparr>"

definition tiny_hello :: "byte list" where
  "tiny_hello = enc_record (1, enc_handshake (enc_hello tiny_client_hello) @ [0xAA, 0xBB])"

lemma tiny_hello_parses:
  assumes "41 \<le> max_handshake_bytes limits" "1 \<le> max_records limits"
  shows "parse_client_hello (tiny_hello @ tail) limits =
    Some (Ok \<lparr>info_sni = None, info_consumed = 52\<rparr>)"
proof -
  let ?b = "enc_hello tiny_client_hello"
  let ?rs = "[(1 :: byte, enc_handshake ?b @ [0xAA, 0xBB])]"
  have len: "length ?b = 41" by (simp add: tiny_client_hello_def enc_hello_def)
  have "(0x0303 :: u16) = word_of_int 771" by simp
  then have "drop_bit 8 (0x0303 :: u16) = 3" by code_simp
  then have "wf_hello tiny_client_hello" by (simp add: wf_hello_def tiny_client_hello_def)
  then have "parse_client_hello_body ?b = Ok None"
    by (simp add: parse_body_enc hello_sni_def tiny_client_hello_def)
  moreover have "carries ?rs ?b" by (simp add: carries_def len)
  ultimately show ?thesis
    using parse_client_hello_carries [of ?rs ?b limits tail] assms len by (simp add: tiny_hello_def)
qed

theorem consumed_bound_witness: "52 \<le> length (tiny_hello @ []) \<and> max_wire_bytes tiny_limits = 50"
proof -
  have "parse_client_hello (tiny_hello @ []) tiny_limits =
      Some (Ok \<lparr>info_sni = None, info_consumed = 52\<rparr>)"
    by (rule tiny_hello_parses) (simp_all add: tiny_limits_def)
  from consumed_bound [OF this] show ?thesis
    by (simp add: max_wire_bytes_def tiny_limits_def HANDSHAKE_HEADER_LEN_def RECORD_HEADER_LEN_def)
qed

text \<open>C39 (consumed\_can\_exceed\_max\_wire): what a complete hello consumes can exceed
\<open>max_wire_bytes\<close>, when its last record carries bytes of a further message; a hello whose
records carry nothing else stays within it.\<close>

theorem consumed_can_exceed_max_wire:
  "(\<exists>buf limits info. parse_client_hello buf limits = Some (Ok info) \<and>
      max_wire_bytes limits < info_consumed info) \<and>
   (carries rs body \<and> length rs \<le> max_records limits \<and>
      length body \<le> max_handshake_bytes limits \<and> record_payloads rs = enc_handshake body \<longrightarrow>
    length (enc_records rs) \<le> max_wire_bytes limits)"
proof -
  have "parse_client_hello (tiny_hello @ []) tiny_limits =
      Some (Ok \<lparr>info_sni = None, info_consumed = 52\<rparr>)"
    by (rule tiny_hello_parses) (simp_all add: tiny_limits_def)
  moreover have "max_wire_bytes tiny_limits < 52"
    by (simp add: max_wire_bytes_def tiny_limits_def HANDSHAKE_HEADER_LEN_def RECORD_HEADER_LEN_def)
  ultimately have "\<exists>buf limits info. parse_client_hello buf limits = Some (Ok info) \<and>
      max_wire_bytes limits < info_consumed info" by fastforce
  then show ?thesis using carries_consumed_bound(2) by blast
qed

theorem consumed_can_exceed_max_wire_witness:
  "length (enc_records [(1, [1, 0, 0, 1, 7])]) \<le> max_wire_bytes tiny_limits"
proof -
  have "carries [(1, [1, 0, 0, 1, 7])] [7]"
    by (simp add: carries_def enc_handshake_def enc_u24_def)
  with consumed_can_exceed_max_wire [of "[(1, [1, 0, 0, 1, 7])]" "[7]" tiny_limits] show ?thesis
    by (simp add: tiny_limits_def enc_handshake_def enc_u24_def)
qed

end
