(* ===== verification/Hello_Reader.thy ===== *)
theory Hello_Reader
  imports Hello_Wire
begin

text \<open>
  Reading the ClientHello from a client socket (\<open>delivery/hello_reader.rs\<close>). The socket is
  the sequence of what its peer does; a read that finds the sequence exhausted stays pending,
  and the whole call then has the value \<^term>\<open>None\<close> (its caller bounds it by a timeout).
\<close>

section \<open>The stream\<close>

datatype 'e stream_event = Arrive "byte list" | Fin | Reset 'e

type_synonym 'e stream = "'e stream_event list"

text \<open>
  One \<open>read\<close> into \<open>n > 0\<close> bytes of space: some bytes that have arrived, or the end, or an
  error. Bytes that do not fit stay in the socket.
\<close>

fun stream_read :: "nat \<Rightarrow> 'e stream \<Rightarrow> ((byte list, 'e) result \<times> 'e stream) option" where
  "stream_read n [] = None"
| "stream_read n (Arrive bs # es) =
     (if bs = [] then stream_read n es
      else Some (Ok (take n bs), if drop n bs = [] then es else Arrive (drop n bs) # es))"
| "stream_read n (Fin # es) = Some (Ok [], Fin # es)"
| "stream_read n (Reset e # es) = Some (Err e, es)"

fun stream_data :: "'e stream \<Rightarrow> byte list" where
  "stream_data [] = []"
| "stream_data (Arrive bs # es) = bs @ stream_data es"
| "stream_data (Fin # es) = []"
| "stream_data (Reset e # es) = []"

section \<open>Reading the hello\<close>

definition READ_CHUNK :: nat where "READ_CHUNK = 4096"

datatype 'e hello_read_error = Closed | Io 'e | Parse parse_error

record read_buf =
  rb_bytes :: "byte list"
  rb_capacity :: nat

definition rb_with_capacity :: "nat \<Rightarrow> read_buf" where
  "rb_with_capacity n = \<lparr>rb_bytes = [], rb_capacity = n\<rparr>"

definition rb_reserve_exact :: "read_buf \<Rightarrow> nat \<Rightarrow> read_buf" where
  "rb_reserve_exact b additional =
     b\<lparr>rb_capacity := max (rb_capacity b) (length (rb_bytes b) + additional)\<rparr>"

definition rb_append :: "read_buf \<Rightarrow> byte list \<Rightarrow> read_buf" where
  "rb_append b bs = b\<lparr>rb_bytes := rb_bytes b @ bs\<rparr>"

lemma rb_bytes_simps [simp]:
  "rb_bytes (rb_with_capacity n) = []"
  "rb_bytes (rb_reserve_exact b n) = rb_bytes b"
  "rb_bytes (rb_append b bs) = rb_bytes b @ bs"
  "rb_capacity (rb_with_capacity n) = n"
  "rb_capacity (rb_append b bs) = rb_capacity b"
  "rb_capacity (rb_reserve_exact b n) = max (rb_capacity b) (length (rb_bytes b) + n)"
  by (simp_all add: rb_with_capacity_def rb_reserve_exact_def rb_append_def)

lemma read_shrinks:
  "mx - length (rb_bytes b) \<noteq> 0 \<Longrightarrow> bs \<noteq> [] \<Longrightarrow>
   mx - length (rb_bytes (rb_append (rb_reserve_exact b n) bs)) < mx - length (rb_bytes b)"
  by (cases bs) auto

text \<open>The panic of the parser is carried as \<^term>\<open>None\<close> inside the answer.\<close>

type_synonym 'e hello_read = "(read_buf \<times> client_hello_info, 'e hello_read_error) result option"

function read_loop ::
    "'e stream \<Rightarrow> hello_limits \<Rightarrow> nat \<Rightarrow> read_buf \<Rightarrow> ('e hello_read \<times> 'e stream) option" where
  "read_loop stream limits mx buf =
     (let remaining = mx - length (rb_bytes buf)
      in if remaining = 0 then Some (Some (Err (Parse TooLarge)), stream)
         else let room = rb_reserve_exact buf (min READ_CHUNK remaining);
                  space = min remaining (rb_capacity room - length (rb_bytes room))
         in case stream_read space stream of
              None \<Rightarrow> None
            | Some (Err e, stream') \<Rightarrow> Some (Some (Err (Io e)), stream')
            | Some (Ok bs, stream') \<Rightarrow>
                if bs = [] then Some (Some (Err Closed), stream')
                else let buf' = rb_append room bs
                in case parse_client_hello (rb_bytes buf') limits of
                     None \<Rightarrow> Some (None, stream')
                   | Some (Ok info) \<Rightarrow> Some (Some (Ok (buf', info)), stream')
                   | Some (Err error) \<Rightarrow>
                       if error = Incomplete then read_loop stream' limits mx buf'
                       else Some (Some (Err (Parse error)), stream'))"
  by pat_completeness auto
termination
proof (relation "measure (\<lambda>(stream, limits, mx, buf). mx - length (rb_bytes buf))")
  show "wf (measure (\<lambda>(stream, limits, mx, buf). mx - length (rb_bytes buf)))" by (rule wf_measure)
qed (hypsubst_thin, simp only: in_measure case_prod_conv, (rule read_shrinks; assumption))

declare read_loop.simps [simp del]

definition read_client_hello ::
    "'e stream \<Rightarrow> hello_limits \<Rightarrow> ('e hello_read \<times> 'e stream) option" where
  "read_client_hello stream limits =
     (let mx = max_wire_bytes limits
      in read_loop stream limits mx (rb_with_capacity (min READ_CHUNK mx)))"

section \<open>What the reader decides\<close>

text \<open>
  The specification looks at the bytes the peer sends and how it ends, not at how they are
  cut into segments.
\<close>

datatype 'e ending = Open | Finished | Failed 'e

fun stream_end :: "'e stream \<Rightarrow> 'e ending" where
  "stream_end [] = Open"
| "stream_end (Arrive bs # es) = stream_end es"
| "stream_end (Fin # es) = Finished"
| "stream_end (Reset e # es) = Failed e"

definition hello_verdict ::
    "hello_limits \<Rightarrow> nat \<Rightarrow> byte list \<Rightarrow> 'e ending \<Rightarrow>
     (client_hello_info, 'e hello_read_error) result option" where
  "hello_verdict limits mx w ending =
     (case hello_of_wire limits (take mx w) of
        Ok info \<Rightarrow> Some (Ok info)
      | Err e \<Rightarrow>
          if e \<noteq> Incomplete then Some (Err (Parse e))
          else if mx \<le> length w then Some (Err (Parse TooLarge))
          else case ending of
                 Open \<Rightarrow> None
               | Finished \<Rightarrow> Some (Err Closed)
               | Failed e \<Rightarrow> Some (Err (Io e)))"

lemma stream_read_cases:
  assumes "0 < n"
  shows "case stream_read n s of
      None \<Rightarrow> stream_data s = [] \<and> stream_end s = Open
    | Some (Err e, s') \<Rightarrow> stream_data s = [] \<and> stream_end s = Failed e
    | Some (Ok bs, s') \<Rightarrow>
        length bs \<le> n \<and> stream_data s = bs @ stream_data s' \<and> stream_end s' = stream_end s \<and>
        (bs = [] \<longrightarrow> stream_data s = [] \<and> stream_end s = Finished)"
  using assms by (induction n s rule: stream_read.induct) (auto split: option.splits result.splits)

definition rb_ok :: "nat \<Rightarrow> read_buf \<Rightarrow> bool" where
  "rb_ok mx b \<longleftrightarrow> length (rb_bytes b) \<le> rb_capacity b \<and> rb_capacity b \<le> mx"

definition read_agrees ::
    "hello_limits \<Rightarrow> nat \<Rightarrow> byte list \<Rightarrow> ('e hello_read \<times> 'e stream) option \<Rightarrow>
     (client_hello_info, 'e hello_read_error) result option \<Rightarrow> bool" where
  "read_agrees limits mx w r v \<longleftrightarrow>
     (case r of
        None \<Rightarrow> v = None
      | Some (None, s') \<Rightarrow> False
      | Some (Some (Err e), s') \<Rightarrow> v = Some (Err e)
      | Some (Some (Ok (b, info)), s') \<Rightarrow>
          v = Some (Ok info) \<and> rb_ok mx b \<and> rb_bytes b @ stream_data s' = w \<and>
          hello_of_wire limits (rb_bytes b) = Ok info)"

lemma read_agreesE:
  assumes "read_agrees limits mx w r v"
  obtains (waiting) "r = None" "v = None"
  | (failed) e s' where "r = Some (Some (Err e), s')" "v = Some (Err e)"
  | (hello) b info s' where "r = Some (Some (Ok (b, info)), s')" "v = Some (Ok info)"
proof (cases r)
  case None
  with assms show ?thesis by (intro waiting) (simp_all add: read_agrees_def)
next
  case (Some x)
  obtain a s' where x: "x = (a, s')" by (cases x)
  with assms Some obtain y where y: "a = Some y" by (cases a) (auto simp: read_agrees_def)
  show ?thesis
  proof (cases y)
    case (Ok z)
    with assms Some x y hello show ?thesis by (cases z) (auto simp: read_agrees_def)
  next
    case (Err e)
    with assms Some x y failed show ?thesis by (simp add: read_agrees_def)
  qed
qed

lemma verdict_stable:
  assumes "hello_of_wire limits p \<noteq> Err Incomplete" "length p \<le> mx"
  shows "hello_verdict limits mx (p @ xs) ending =
    Some (case hello_of_wire limits p of Ok info \<Rightarrow> Ok info | Err e \<Rightarrow> Err (Parse e))"
proof -
  have "hello_of_wire limits (take mx (p @ xs)) = hello_of_wire limits p"
    using hello_of_wire_stable [OF assms(1), of "take (mx - length p) xs"] assms(2) by simp
  then show ?thesis using assms(1) by (auto simp: hello_verdict_def split: result.splits)
qed

lemma rb_ok_step:
  assumes "rb_ok mx b" "length (rb_bytes b) < mx"
    "length bs \<le> min (mx - length (rb_bytes b))
       (rb_capacity (rb_reserve_exact b (min READ_CHUNK (mx - length (rb_bytes b)))) - length (rb_bytes b))"
  shows "rb_ok mx (rb_append (rb_reserve_exact b (min READ_CHUNK (mx - length (rb_bytes b)))) bs)"
  using assms by (auto simp: rb_ok_def)

lemma read_loop_agrees:
  assumes "rb_ok mx buf" "hello_of_wire limits (rb_bytes buf) = Err Incomplete"
  shows "read_agrees limits mx (rb_bytes buf @ stream_data stream) (read_loop stream limits mx buf)
    (hello_verdict limits mx (rb_bytes buf @ stream_data stream) (stream_end stream))"
  using assms
proof (induction "mx - length (rb_bytes buf)" arbitrary: stream buf rule: less_induct)
  case less
  let ?rem = "mx - length (rb_bytes buf)"
  have fits: "length (rb_bytes buf) \<le> mx" using less.prems(1) by (simp add: rb_ok_def)
  show ?case
  proof (cases "?rem = 0")
    case True
    with fits less.prems(2) show ?thesis
      by (simp add: read_loop.simps [of stream] read_agrees_def hello_verdict_def)
  next
    case False
    let ?room = "rb_reserve_exact buf (min READ_CHUNK ?rem)"
    let ?space = "min ?rem (rb_capacity ?room - length (rb_bytes ?room))"
    have pos: "0 < ?space" using False by (auto simp: READ_CHUNK_def)
    note loop = read_loop.simps [of stream limits mx buf] Let_def
    note ended = read_agrees_def hello_verdict_def
    show ?thesis
    proof (cases "stream_read ?space stream")
      case None
      with False fits less.prems(2) stream_read_cases [OF pos, of stream] show ?thesis
        by (simp add: loop ended)
    next
      case (Some r)
      obtain a s' where r: "r = (a, s')" by (cases r)
      show ?thesis
      proof (cases a)
        case (Err e)
        with Some r False fits less.prems(2) stream_read_cases [OF pos, of stream] show ?thesis
          by (simp add: loop ended)
      next
        case (Ok bs)
        note read = stream_read_cases [OF pos, of stream]
        show ?thesis
        proof (cases "bs = []")
          case True
          with read Some r Ok have "stream_data stream = []" "stream_end stream = Finished" by auto
          with True Some r Ok False fits less.prems(2) show ?thesis by (simp add: loop ended)
        next
          case more: False
          let ?buf = "rb_append ?room bs"
          have data: "stream_data stream = bs @ stream_data s'" "stream_end s' = stream_end stream"
            and len: "length bs \<le> ?space"
            using read Some r Ok by simp_all
          have ok: "rb_ok mx ?buf" using rb_ok_step [OF less.prems(1)] False len by simp
          then have fits': "length (rb_bytes ?buf) \<le> mx" by (auto simp: rb_ok_def)
          show ?thesis
          proof (cases "hello_of_wire limits (rb_bytes ?buf) = Err Incomplete")
            case True
            have "mx - length (rb_bytes ?buf) < ?rem" using read_shrinks False more by blast
            from less.hyps [OF this ok True, of s'] show ?thesis
              using False Some r Ok more True data by (simp add: loop parse_client_hello_eq)
          next
            case False
            from verdict_stable [OF this fits', of "stream_data s'" "stream_end stream"]
            show ?thesis
              using False \<open>?rem \<noteq> 0\<close> Some r Ok more data ok
              by (cases "hello_of_wire limits (rb_bytes ?buf)")
                (simp_all add: loop parse_client_hello_eq read_agrees_def)
          qed
        qed
      qed
    qed
  qed
qed

lemma read_client_hello_agrees:
  "read_agrees limits (max_wire_bytes limits) (stream_data stream) (read_client_hello stream limits)
     (hello_verdict limits (max_wire_bytes limits) (stream_data stream) (stream_end stream))"
proof -
  let ?b = "rb_with_capacity (min READ_CHUNK (max_wire_bytes limits))"
  have "hello_of_wire limits (rb_bytes ?b) = Err Incomplete"
    by (simp add: hello_of_wire_def reassemble.simps check_partial_record_header_def)
  moreover have "rb_ok (max_wire_bytes limits) ?b" by (simp add: rb_ok_def)
  ultimately show ?thesis
    using read_loop_agrees [of "max_wire_bytes limits" ?b limits stream]
    by (simp add: read_client_hello_def Let_def)
qed

section \<open>Properties\<close>

text \<open>C13 (reader\_decides\_by\_bytes): the reader's outcome (the hello, a parse error, a close, an
I/O error or waiting) is the parser's verdict on the first \<open>max_wire_bytes\<close> bytes the peer
sends and how the peer ends; how the bytes are cut into segments is irrelevant.\<close>

theorem reader_decides_by_bytes:
  "map_option (\<lambda>(r, s'). map_option (map_ok snd) r) (read_client_hello stream limits) =
   map_option Some
     (hello_verdict limits (max_wire_bytes limits) (stream_data stream) (stream_end stream))"
  using read_client_hello_agrees [of limits stream]
  by (rule read_agreesE) simp_all

text \<open>When the reader returns a hello, its buffer followed by what is
still in the socket is exactly what the peer sent, and the buffer and its allocation stay
within \<open>max_wire_bytes\<close>.\<close>

theorem reader_replays_exactly:
  assumes "read_client_hello stream limits = Some (Some (Ok (b, info)), stream')"
  shows "rb_bytes b @ stream_data stream' = stream_data stream \<and>
    parse_client_hello (rb_bytes b) limits = Some (Ok info) \<and>
    length (rb_bytes b) \<le> rb_capacity b \<and> rb_capacity b \<le> max_wire_bytes limits"
  using read_client_hello_agrees [of limits stream]
  by (simp add: assms read_agrees_def rb_ok_def parse_client_hello_eq)

theorem reader_replays_exactly_witness:
  "\<exists>(b :: read_buf) (s' :: unit stream). rb_bytes b @ stream_data s' = tiny_hello @ [1, 2] \<and>
     rb_capacity b \<le> max_wire_bytes hello_limits_default"
proof -
  let ?s = "[Arrive (take 20 tiny_hello), Arrive (drop 20 tiny_hello), Arrive [1, 2]] :: unit stream"
  have data: "stream_data ?s = tiny_hello @ [1, 2]" by simp
  have len: "length tiny_hello = 52"
    by (simp add: tiny_hello_def tiny_client_hello_def enc_hello_def)
  have "hello_of_wire hello_limits_default (tiny_hello @ [1, 2]) =
      Ok \<lparr>info_sni = None, info_consumed = 52\<rparr>"
    using tiny_hello_parses [of hello_limits_default "[1, 2]"]
    by (simp add: parse_client_hello_eq hello_limits_default_def)
  then have "hello_verdict hello_limits_default (max_wire_bytes hello_limits_default)
      (stream_data ?s) (stream_end ?s) = Some (Ok \<lparr>info_sni = None, info_consumed = 52\<rparr>)"
    unfolding data by (simp add: hello_verdict_def len max_wire_bytes_def hello_limits_default_def)
  then obtain b info s' where
    "read_client_hello ?s hello_limits_default = Some (Some (Ok (b, info)), s')"
    using read_client_hello_agrees [of hello_limits_default ?s]
    by (elim read_agreesE) auto
  note replay = reader_replays_exactly [OF this]
  show ?thesis
    by (rule exI [of _ b], rule exI [of _ s']) (use replay data in simp)
qed

end
