(* ===== verification/Hello_Builder.thy ===== *)
theory Hello_Builder
  imports Hello_Wire
begin

text \<open>
  The ClientHello builder of the \<open>test-util\<close> feature (\<open>testing.rs\<close>), which is the encoder
  the parser is tested against. A failed \<open>expect\<close> or a slice out of range is \<^term>\<open>None\<close>.
  What the builder produces parses back to the name it was given.
\<close>

section \<open>The builder\<close>

definition EXTENSION_PADDING :: u16 where "EXTENSION_PADDING = 0x0015"

record client_hello_builder =
  b_legacy_version :: u16
  b_session_id :: "byte list"
  b_cipher_suites :: "byte list"
  b_compression_methods :: "byte list"
  b_server_names :: "(byte \<times> byte list) list option"
  b_extensions :: "(u16 \<times> byte list) list"
  b_padded_body_len :: "nat option"
  b_omit_extensions :: bool
  b_trailing_body_bytes :: "byte list"

definition builder_new :: client_hello_builder where
  "builder_new = \<lparr>b_legacy_version = 0x0303, b_session_id = replicate 32 0x5a,
     b_cipher_suites = [0x13, 0x01, 0x13, 0x02], b_compression_methods = [0],
     b_server_names = None, b_extensions = [], b_padded_body_len = None,
     b_omit_extensions = False, b_trailing_body_bytes = []\<rparr>"

definition raw_server_names ::
    "client_hello_builder \<Rightarrow> (byte \<times> byte list) list \<Rightarrow> client_hello_builder" where
  "raw_server_names self names = self\<lparr>b_server_names := Some names\<rparr>"

definition builder_sni :: "client_hello_builder \<Rightarrow> string \<Rightarrow> client_hello_builder" where
  "builder_sni self name = raw_server_names self [(0, bytes_of_string name)]"

definition builder_extension ::
    "client_hello_builder \<Rightarrow> u16 \<Rightarrow> byte list \<Rightarrow> client_hello_builder" where
  "builder_extension self extension_type data =
     self\<lparr>b_extensions := b_extensions self @ [(extension_type, data)]\<rparr>"

definition builder_legacy_version :: "client_hello_builder \<Rightarrow> u16 \<Rightarrow> client_hello_builder" where
  "builder_legacy_version self version = self\<lparr>b_legacy_version := version\<rparr>"

definition builder_session_id :: "client_hello_builder \<Rightarrow> byte list \<Rightarrow> client_hello_builder" where
  "builder_session_id self session_id = self\<lparr>b_session_id := session_id\<rparr>"

definition builder_cipher_suites :: "client_hello_builder \<Rightarrow> byte list \<Rightarrow> client_hello_builder" where
  "builder_cipher_suites self suites = self\<lparr>b_cipher_suites := suites\<rparr>"

definition builder_compression_methods ::
    "client_hello_builder \<Rightarrow> byte list \<Rightarrow> client_hello_builder" where
  "builder_compression_methods self methods = self\<lparr>b_compression_methods := methods\<rparr>"

definition builder_omit_extensions :: "client_hello_builder \<Rightarrow> client_hello_builder" where
  "builder_omit_extensions self = self\<lparr>b_omit_extensions := True\<rparr>"

definition builder_trailing_body_bytes ::
    "client_hello_builder \<Rightarrow> byte list \<Rightarrow> client_hello_builder" where
  "builder_trailing_body_bytes self bytes = self\<lparr>b_trailing_body_bytes := bytes\<rparr>"

definition padding_to :: "client_hello_builder \<Rightarrow> nat \<Rightarrow> client_hello_builder" where
  "padding_to self body_len = self\<lparr>b_padded_body_len := Some body_len\<rparr>"

definition push_vec8 :: "byte list \<Rightarrow> byte list \<Rightarrow> byte list option" where
  "push_vec8 out bytes =
     (if length bytes < 256 then Some (out @ [of_nat (length bytes)] @ bytes) else None)"

definition push_vec16 :: "byte list \<Rightarrow> byte list \<Rightarrow> byte list option" where
  "push_vec16 out bytes =
     (if length bytes < 65536 then Some (out @ to_be_bytes16 (of_nat (length bytes)) @ bytes)
      else None)"

definition push_record :: "byte list \<Rightarrow> byte list \<Rightarrow> byte list option" where
  "push_record wire fragment = push_vec16 (wire @ [0x16, 0x03, 0x01]) fragment"

fun push_names :: "byte list \<Rightarrow> (byte \<times> byte list) list \<Rightarrow> byte list option" where
  "push_names list [] = Some list"
| "push_names list ((kind, name) # names) =
     Option.bind (push_vec16 (list @ [kind]) name) (\<lambda>list'. push_names list' names)"

fun push_extensions :: "byte list \<Rightarrow> (u16 \<times> byte list) list \<Rightarrow> byte list option" where
  "push_extensions extensions [] = Some extensions"
| "push_extensions extensions ((extension_type, data) # rest) =
     Option.bind (push_vec16 (extensions @ to_be_bytes16 extension_type) data)
       (\<lambda>extensions'. push_extensions extensions' rest)"

definition extension_bytes :: "client_hello_builder \<Rightarrow> byte list option" where
  "extension_bytes self =
     Option.bind
       (case b_server_names self of
          None \<Rightarrow> Some []
        | Some names \<Rightarrow>
            Option.bind (push_names [] names) (\<lambda>list.
            Option.bind (push_vec16 [] list) (\<lambda>data.
            push_vec16 (to_be_bytes16 0) data)))
       (\<lambda>extensions. push_extensions extensions (b_extensions self))"

definition builder_body :: "client_hello_builder \<Rightarrow> byte list option" where
  "builder_body self =
     Option.bind (push_vec8 (to_be_bytes16 (b_legacy_version self) @ replicate 32 0x42)
       (b_session_id self)) (\<lambda>body.
     Option.bind (push_vec16 body (b_cipher_suites self)) (\<lambda>body.
     Option.bind (push_vec8 body (b_compression_methods self)) (\<lambda>body.
     Option.bind
       (if b_omit_extensions self then Some body
        else Option.bind (extension_bytes self) (\<lambda>extensions.
             Option.bind
               (case b_padded_body_len self of
                  None \<Rightarrow> Some extensions
                | Some target \<Rightarrow>
                    let fixed = length body + 2 + length extensions + 4
                                  + length (b_trailing_body_bytes self)
                    in if target < fixed then None
                       else push_vec16 (extensions @ to_be_bytes16 EXTENSION_PADDING)
                              (replicate (target - fixed) 0))
               (\<lambda>extensions. push_vec16 body extensions)))
       (\<lambda>body. Some (body @ b_trailing_body_bytes self)))))"

definition builder_handshake :: "client_hello_builder \<Rightarrow> byte list option" where
  "builder_handshake self =
     map_option
       (\<lambda>body. let len = length body
          in [0x01, of_nat (drop_bit 16 len), of_nat (drop_bit 8 len), of_nat len] @ body)
       (builder_body self)"

function chunks :: "'a list \<Rightarrow> nat \<Rightarrow> 'a list list" where
  "chunks xs n = (if xs = [] \<or> n = 0 then [] else take n xs # chunks (drop n xs) n)"
  by pat_completeness auto
termination
  by (relation "measure (\<lambda>(xs, n). length xs)") auto

declare chunks.simps [simp del]

fun push_records :: "byte list \<Rightarrow> byte list list \<Rightarrow> byte list option" where
  "push_records wire [] = Some wire"
| "push_records wire (fragment # fragments) =
     Option.bind (push_record wire fragment) (\<lambda>wire'. push_records wire' fragments)"

text \<open>\<open>[T]::chunks\<close> panics on a chunk size of zero.\<close>

definition records_of :: "byte list \<Rightarrow> nat \<Rightarrow> byte list option" where
  "records_of handshake chunk = (if chunk = 0 then None else push_records [] (chunks handshake chunk))"

fun push_splits :: "byte list \<Rightarrow> byte list \<Rightarrow> nat \<Rightarrow> nat list \<Rightarrow> byte list option" where
  "push_splits handshake wire start [] = Some wire"
| "push_splits handshake wire start (split # splits) =
     Option.bind (slice handshake start split) (\<lambda>fragment.
     Option.bind (push_record wire fragment) (\<lambda>wire'. push_splits handshake wire' split splits))"

definition records_from_splits :: "byte list \<Rightarrow> nat list \<Rightarrow> byte list option" where
  "records_from_splits handshake splits =
     push_splits handshake [] 0 (splits @ [length handshake])"

definition builder_build :: "client_hello_builder \<Rightarrow> byte list option" where
  "builder_build self =
     Option.bind (builder_handshake self) (\<lambda>handshake. records_of handshake MAX_RECORD_PAYLOAD)"

section \<open>What the builder writes\<close>

text \<open>The extensions a builder stands for, given the length of its body before them.\<close>

definition builder_exts :: "client_hello_builder \<Rightarrow> (u16 \<times> byte list) list" where
  "builder_exts b =
     (case b_server_names b of
        None \<Rightarrow> [] | Some names \<Rightarrow> [(0, enc_vec16 (enc_names names))]) @ b_extensions b"

definition builder_hello :: "client_hello_builder \<Rightarrow> client_hello" where
  "builder_hello b = \<lparr>ch_version = b_legacy_version b, ch_random = replicate 32 0x42,
     ch_session_id = b_session_id b, ch_cipher_suites = b_cipher_suites b,
     ch_compression = b_compression_methods b,
     ch_extensions = (if b_omit_extensions b then None else Some (builder_exts b))\<rparr>"

lemma push_vec_enc:
  "length bytes < 256 \<Longrightarrow> push_vec8 out bytes = Some (out @ enc_vec8 bytes)"
  "length bytes < 65536 \<Longrightarrow> push_vec16 out bytes = Some (out @ enc_vec16 bytes)"
  by (simp_all add: push_vec8_def push_vec16_def enc_vec8_def enc_vec16_def)

lemma push_names_enc: "wf_names names \<Longrightarrow> push_names list names = Some (list @ enc_names names)"
  by (induction names arbitrary: list) (auto simp: push_vec_enc)

lemma push_extensions_enc:
  "wf_exts es \<Longrightarrow> push_extensions out es = Some (out @ enc_exts es)"
  by (induction es arbitrary: out) (auto simp: push_vec_enc)

definition plain_builder :: "client_hello_builder \<Rightarrow> bool" where
  "plain_builder b \<longleftrightarrow>
     b_padded_body_len b = None \<and> b_trailing_body_bytes b = [] \<and>
     (case b_server_names b of None \<Rightarrow> True | Some names \<Rightarrow> wf_names names)"

lemma extension_bytes_enc:
  assumes "plain_builder b" "wf_exts (builder_exts b)"
  shows "extension_bytes b = Some (enc_exts (builder_exts b))"
  using assms
  by (cases "b_server_names b")
    (auto simp: plain_builder_def extension_bytes_def builder_exts_def push_names_enc push_vec_enc
      push_extensions_enc)

lemma builder_body_enc:
  assumes "plain_builder b" "wf_hello (builder_hello b)"
  shows "builder_body b = Some (enc_hello (builder_hello b))"
proof -
  have lens: "length (b_session_id b) < 256" "length (b_cipher_suites b) < 65536"
    "length (b_compression_methods b) < 256"
    using assms(2) by (auto simp: wf_hello_def builder_hello_def)
  show ?thesis
  proof (cases "b_omit_extensions b")
    case True
    with lens assms(1) show ?thesis
      by (simp add: builder_body_def builder_hello_def enc_hello_def push_vec_enc plain_builder_def)
  next
    case False
    with assms(2) have "wf_exts (builder_exts b)" "length (enc_exts (builder_exts b)) < 65536"
      by (simp_all add: wf_hello_def builder_hello_def)
    with False lens assms(1) show ?thesis
      by (simp add: builder_body_def builder_hello_def enc_hello_def push_vec_enc
          extension_bytes_enc plain_builder_def [symmetric])
        (simp add: plain_builder_def push_vec_enc)
  qed
qed

lemma builder_handshake_enc:
  assumes "builder_body b = Some body" "length body < 16777216"
  shows "builder_handshake b = Some (enc_handshake body)"
proof -
  have "(of_nat (length body div 256) :: byte) = of_nat (length body div 256 mod 256)"
    "(of_nat (length body) :: byte) = of_nat (length body mod 256)"
    by (simp_all add: word_unat_eq_iff unat_of_nat)
  with assms show ?thesis
    by (simp add: builder_handshake_def enc_handshake_def enc_u24_def drop_bit_eq_div Let_def)
qed

lemma concat_chunks: "0 < n \<Longrightarrow> concat (chunks xs n) = xs"
  by (induction xs n rule: chunks.induct) (simp add: chunks.simps)

lemma chunks_size: "c \<in> set (chunks xs n) \<Longrightarrow> 0 < length c \<and> length c \<le> n"
  by (induction xs n rule: chunks.induct) (subst (asm) (2) chunks.simps, auto split: if_splits)

lemma length_chunks: "0 < n \<Longrightarrow> length xs \<le> k * n \<Longrightarrow> length (chunks xs n) \<le> k"
proof (induction xs n arbitrary: k rule: chunks.induct)
  case (1 xs n)
  show ?case
  proof (cases "xs = []")
    case True
    then show ?thesis by (simp add: chunks.simps)
  next
    case False
    with "1.prems" obtain k' where k: "k = Suc k'" by (cases k) auto
    with "1.prems" have "length (drop n xs) \<le> k' * n" by simp
    with "1.IH" [of k'] "1.prems" False k show ?thesis by (simp add: chunks.simps [of xs n])
  qed
qed

lemma chunks_eq_Nil: "0 < n \<Longrightarrow> chunks xs n = [] \<longleftrightarrow> xs = []"
  by (simp add: chunks.simps)

lemma butlast_chunks:
  assumes "0 < n" "xs \<noteq> []"
  shows "length (concat (butlast (chunks xs n))) < length xs"
proof -
  have ne: "chunks xs n \<noteq> []" using assms by (simp add: chunks_eq_Nil)
  then have "xs = concat (butlast (chunks xs n)) @ last (chunks xs n)"
    using concat_chunks [OF assms(1), of xs]
    by (metis append_butlast_last_id concat.simps concat_append append_Nil2)
  moreover have "0 < length (last (chunks xs n))" using chunks_size [OF last_in_set [OF ne]] by simp
  ultimately show ?thesis by (metis length_append less_add_same_cancel1)
qed

lemma push_records_enc:
  "(\<forall>f \<in> set fs. length f < 65536) \<Longrightarrow>
   push_records wire fs = Some (wire @ enc_records (map (Pair 1) fs))"
  by (induction fs arbitrary: wire) (auto simp: push_record_def push_vec_enc enc_record_def)

lemma carries_chunks:
  assumes "length body < 16777216" "0 < n" "n \<le> 16384"
  shows "carries (map (Pair minor) (chunks (enc_handshake body) n)) body"
proof -
  let ?cs = "chunks (enc_handshake body) n"
  have ne: "enc_handshake body \<noteq> []" by (simp add: enc_handshake_def)
  have pay: "record_payloads (map (Pair minor) cs) = concat cs" for cs
    by (simp add: record_payloads_def comp_def)
  have "wf_records (map (Pair minor) ?cs)"
    using chunks_size [of _ "enc_handshake body" n] assms(3) by (fastforce simp: wf_records_def)
  with ne assms butlast_chunks [OF assms(2) ne] show ?thesis
    by (simp add: carries_def pay concat_chunks chunks_eq_Nil flip: map_butlast)
qed

lemma builder_build_enc:
  assumes "builder_body b = Some body" "length body < 16777216"
  shows "\<exists>rs. builder_build b = Some (enc_records rs) \<and> carries rs body \<and>
    record_payloads rs = enc_handshake body \<and>
    (\<forall>k. length body + 4 \<le> k * MAX_RECORD_PAYLOAD \<longrightarrow> length rs \<le> k)"
proof -
  let ?cs = "chunks (enc_handshake body) 16384"
  have "length c < 65536" if "c \<in> set ?cs" for c using chunks_size [OF that] by simp
  then have "push_records [] ?cs = Some (enc_records (map (Pair 1) ?cs))"
    by (simp add: push_records_enc)
  then have "builder_build b = Some (enc_records (map (Pair 1) ?cs))"
    using builder_handshake_enc [OF assms]
    by (simp add: builder_build_def records_of_def MAX_RECORD_PAYLOAD_def)
  moreover have "carries (map (Pair 1) ?cs) body"
    using assms(2) by (intro carries_chunks) simp_all
  moreover have "record_payloads (map (Pair 1) ?cs) = enc_handshake body"
    by (simp add: record_payloads_def comp_def concat_chunks)
  ultimately show ?thesis
    using length_chunks [of 16384 "enc_handshake body"]
    by (intro exI [of _ "map (Pair 1) ?cs"]) (simp add: MAX_RECORD_PAYLOAD_def)
qed

lemma builder_parse:
  assumes "plain_builder b" "wf_hello (builder_hello b)"
    and "length (enc_hello (builder_hello b)) < 16777216"
    and "length (enc_hello (builder_hello b)) \<le> max_handshake_bytes limits"
    and "length (enc_hello (builder_hello b)) + 4 \<le> max_records limits * MAX_RECORD_PAYLOAD"
  shows "\<exists>wire. builder_build b = Some wire \<and>
    parse_client_hello wire limits =
      Some (map_ok (\<lambda>sni. \<lparr>info_sni = sni, info_consumed = length wire\<rparr>)
        (hello_sni (builder_hello b)))"
proof -
  obtain rs where rs: "builder_build b = Some (enc_records rs)"
    "carries rs (enc_hello (builder_hello b))" "length rs \<le> max_records limits"
    using builder_build_enc [OF builder_body_enc [OF assms(1,2)] assms(3)] assms(5) by blast
  from parse_client_hello_carries [OF rs(2,3) assms(4), of "[]"] rs(1) show ?thesis
    by (simp add: parse_body_enc [OF assms(2)])
qed

section \<open>The round trip\<close>

lemma hostname_parse_ascii:
  assumes "hostname_parse name = Ok h" "c \<in> set name"
  shows "(of_char c :: nat) < 128"
proof -
  have "dns_name (to_ascii_lowercase name)" by (rule hostname_parse_dns_name [OF assms(1)])
  moreover have "to_ascii_lower c \<in> set (to_ascii_lowercase name)" using assms(2) by simp
  ultimately have "to_ascii_lower c = CHR ''.'' \<or> name_char (to_ascii_lower c)"
    by (rule dns_name_chars)
  then have "(of_char (to_ascii_lower c) :: nat) < 128" using name_char_ascii by auto
  then show ?thesis
    by (cases "is_ascii_uppercase c") (auto simp: to_ascii_lower_def is_ascii_uppercase_def)
qed

lemma decode_host_parse:
  assumes "hostname_parse name = Ok h"
  shows "decode_host (bytes_of_string name) = Some h"
  using assms from_utf8_ascii [of name] hostname_parse_ascii [OF assms] by (simp add: decode_host_def)

lemma hostname_parse_length:
  assumes "hostname_parse name = Ok h"
  shows "0 < length name \<and> length name \<le> 253"
proof -
  have "dns_name (to_ascii_lowercase name)" by (rule hostname_parse_dns_name [OF assms])
  then show ?thesis by (auto simp: dns_name_def)
qed

lemma parse_server_name_single:
  assumes "hostname_parse name = Ok h"
  shows "parse_server_name (enc_vec16 (enc_names [(0, bytes_of_string name)])) = Ok (Some h)"
proof -
  have "bytes_of_string name \<noteq> []"
    using hostname_parse_length [OF assms] by (auto simp: bytes_of_string_def)
  then show ?thesis
    unfolding parse_server_name_iff
    using hostname_parse_length [OF assms] decode_host_parse [OF assms]
    by (intro exI [of _ "[(0, bytes_of_string name)]"]) simp
qed

text \<open>A builder that names \<open>name\<close> and adds extensions of other, distinct types.\<close>

lemma builder_sni_hello:
  assumes "hostname_parse name = Ok h" "\<not> b_omit_extensions b"
  shows "hello_sni (builder_hello (builder_sni b name)) = Ok (Some h)"
  using assms parse_server_name_single [OF assms(1)]
  by (simp add: hello_sni_def builder_hello_def builder_sni_def raw_server_names_def builder_exts_def)

lemma builder_new_wf:
  assumes "hostname_parse name = Ok h"
  shows "plain_builder (builder_sni builder_new name)"
    and "wf_hello (builder_hello (builder_sni builder_new name))"
    and "length (enc_hello (builder_hello (builder_sni builder_new name))) = 86 + length name"
proof -
  let ?b = "builder_sni builder_new name"
  have ne: "bytes_of_string name \<noteq> []"
    using hostname_parse_length [OF assms] by (auto simp: bytes_of_string_def)
  with hostname_parse_length [OF assms] show "plain_builder ?b" "wf_hello (builder_hello ?b)"
    by (simp_all add: plain_builder_def wf_hello_def builder_hello_def builder_sni_def
        raw_server_names_def builder_exts_def builder_new_def)
  show "length (enc_hello (builder_hello ?b)) = 86 + length name"
    by (simp add: enc_hello_def builder_hello_def builder_sni_def
        raw_server_names_def builder_exts_def builder_new_def)
qed

lemma push_vec16_Some: "push_vec16 out bytes = Some r \<Longrightarrow> length r = length out + 2 + length bytes"
  by (auto simp: push_vec16_def split: if_splits)

lemma builder_padding_exact:
  assumes "builder_body (padding_to b n) = Some body" "\<not> b_omit_extensions b"
  shows "length body = n"
  using assms
  by (auto simp: builder_body_def padding_to_def Let_def bind_eq_Some_conv
      dest!: push_vec16_Some split: if_splits)

lemma builder_sni_wire:
  assumes "hostname_parse name = Ok h"
  shows "\<exists>wire. builder_build (builder_sni builder_new name) = Some wire \<and>
    parse_client_hello wire hello_limits_default =
      Some (Ok \<lparr>info_sni = Some h, info_consumed = length wire\<rparr>) \<and>
    length wire \<le> max_wire_bytes hello_limits_default"
proof -
  let ?b = "builder_sni builder_new name"
  let ?body = "enc_hello (builder_hello ?b)"
  have small: "length ?body \<le> 339"
    using builder_new_wf(3) [OF assms] hostname_parse_length [OF assms] by simp
  have body: "builder_body ?b = Some ?body"
    by (rule builder_body_enc [OF builder_new_wf(1) [OF assms] builder_new_wf(2) [OF assms]])
  obtain rs where rs: "builder_build ?b = Some (enc_records rs)" "carries rs ?body"
    "record_payloads rs = enc_handshake ?body" "length rs \<le> 1"
    using builder_build_enc [OF body] small by (auto simp: MAX_RECORD_PAYLOAD_def)
  have fits: "length rs \<le> max_records hello_limits_default"
    "length ?body \<le> max_handshake_bytes hello_limits_default"
    using rs(4) small by (simp_all add: hello_limits_default_def)
  have "parse_client_hello_body ?body = Ok (Some h)"
    using parse_body_enc [OF builder_new_wf(2) [OF assms]] builder_sni_hello [OF assms]
    by (simp add: builder_new_def)
  with parse_client_hello_carries [OF rs(2) fits, of "[]"]
    carries_consumed_bound(2) [OF rs(2) fits rs(3)] rs(1)
  show ?thesis by simp
qed

section \<open>Properties\<close>

text \<open>C37 (builder\_round\_trip): the hello built for a valid host name parses, under the default
limits, to that name in lowercase, and consumes the whole wire.\<close>

theorem builder_round_trip:
  assumes "hostname_parse name = Ok h"
  shows "\<exists>wire. builder_build (builder_sni builder_new name) = Some wire \<and>
    parse_client_hello wire hello_limits_default =
      Some (Ok \<lparr>info_sni = Some h, info_consumed = length wire\<rparr>)"
  using builder_sni_wire [OF assms] by blast

theorem builder_round_trip_witness:
  "\<exists>wire. builder_build (builder_sni builder_new ''X.y'') = Some wire \<and>
    parse_client_hello wire hello_limits_default =
      Some (Ok \<lparr>info_sni = Some (Hostname ''x.y''), info_consumed = length wire\<rparr>)"
proof (rule builder_round_trip)
  have "to_ascii_lowercase ''X.y'' = ''x.y''" by code_simp
  with demo_key_valid show "hostname_parse ''X.y'' = Ok (Hostname ''x.y'')"
    by (simp add: hostname_parse_Ok_iff valid_route_key_def demo_key_def)
qed

text \<open>Padding a builder to a length gives a body of exactly that length.\<close>

theorem padding_exact:
  assumes "builder_body (padding_to b n) = Some body" "\<not> b_omit_extensions b"
  shows "length body = n"
  by (rule builder_padding_exact [OF assms])

theorem padding_exact_witness:
  "\<exists>body. builder_body (padding_to builder_new 100) = Some body \<and> length body = 100"
proof -
  have "\<exists>body. builder_body (padding_to builder_new 100) = Some body"
    by (simp add: builder_body_def padding_to_def builder_new_def push_vec8_def push_vec16_def
        extension_bytes_def to_be_bytes16_def)
  moreover have "\<not> b_omit_extensions builder_new" by (simp add: builder_new_def)
  ultimately show ?thesis using padding_exact by blast
qed

end
