(* ===== verification/Metered.thy ===== *)
theory Metered
  imports App_Config
begin

text \<open>
  The metered client stream (\<open>delivery/metered.rs\<close>) and the proxy stage's watchdog and
  choice of copy (\<open>delivery/proxy.rs\<close>). Instants are nanoseconds; the counters are 64-bit
  words that wrap. The wrapped stream is a function argument: what one poll of it does.
\<close>

section \<open>Activity and byte counters\<close>

record activity =
  act_start :: nat
  act_last_millis :: "64 word"

definition activity_new :: "nat \<Rightarrow> activity" where
  "activity_new start = \<lparr>act_start = start, act_last_millis = 0\<rparr>"

definition activity_touch :: "nat \<Rightarrow> activity \<Rightarrow> activity" where
  "activity_touch now a = a\<lparr>act_last_millis := of_nat (millis (now - act_start a))\<rparr>"

definition activity_last :: "activity \<Rightarrow> nat" where
  "activity_last a = act_start a + from_millis (unat (act_last_millis a))"

record byte_counters =
  bc_read :: "64 word"
  bc_written :: "64 word"

definition counters_default :: byte_counters where
  "counters_default = \<lparr>bc_read = 0, bc_written = 0\<rparr>"

definition counters_totals :: "byte_counters \<Rightarrow> 64 word \<times> 64 word" where
  "counters_totals c = (bc_read c, bc_written c)"

definition add_read :: "64 word \<Rightarrow> byte_counters \<Rightarrow> byte_counters" where
  "add_read n c = c\<lparr>bc_read := bc_read c + n\<rparr>"

definition add_written :: "64 word \<Rightarrow> byte_counters \<Rightarrow> byte_counters" where
  "add_written n c = c\<lparr>bc_written := bc_written c + n\<rparr>"

section \<open>The metered stream\<close>

datatype 'a poll = PollReady 'a | PollPending

record 's metered_stream =
  ms_inner :: 's
  ms_counters :: byte_counters
  ms_activity :: "activity option"

definition metered_new :: "'s \<Rightarrow> byte_counters \<Rightarrow> activity option \<Rightarrow> 's metered_stream" where
  "metered_new inner counters act = \<lparr>ms_inner = inner, ms_counters = counters, ms_activity = act\<rparr>"

definition metered_touch :: "nat \<Rightarrow> 's metered_stream \<Rightarrow> 's metered_stream" where
  "metered_touch now m = m\<lparr>ms_activity := map_option (activity_touch now) (ms_activity m)\<rparr>"

text \<open>\<open>poll_read\<close>: the inner poll may append to the filled part of the buffer.\<close>

definition metered_poll_read ::
    "('s \<Rightarrow> byte list \<Rightarrow> (unit, io_error) result poll \<times> byte list \<times> 's) \<Rightarrow> nat \<Rightarrow> byte list \<Rightarrow>
     's metered_stream \<Rightarrow> (unit, io_error) result poll \<times> byte list \<times> 's metered_stream" where
  "metered_poll_read inner now buf m =
     (let before = length buf;
          (poll, buf', s) = inner (ms_inner m) buf;
          m' = m\<lparr>ms_inner := s\<rparr>;
          read = length buf' - before
      in (poll, buf',
          if read > 0
          then metered_touch now (m'\<lparr>ms_counters := add_read (of_nat read) (ms_counters m')\<rparr>)
          else m'))"

definition metered_poll_write ::
    "('s \<Rightarrow> byte list \<Rightarrow> (nat, io_error) result poll \<times> 's) \<Rightarrow> nat \<Rightarrow> byte list \<Rightarrow>
     's metered_stream \<Rightarrow> (nat, io_error) result poll \<times> 's metered_stream" where
  "metered_poll_write inner now buf m =
     (let (poll, s) = inner (ms_inner m) buf;
          m' = m\<lparr>ms_inner := s\<rparr>
      in (poll,
          case poll of
            PollReady (Ok written) \<Rightarrow>
              if written > 0
              then metered_touch now (m'\<lparr>ms_counters := add_written (of_nat written) (ms_counters m')\<rparr>)
              else m'
          | _ \<Rightarrow> m'))"

section \<open>How the proxy stage ends\<close>

datatype proxy_end = ProxyFinished | ProxyFailed io_error | ProxyIdle | ProxyForced

text \<open>
  One poll of \<open>proxy\<close>: the biased select looks at the force token, then the watchdog, then
  the copy; \<^term>\<open>None\<close> is pending.
\<close>

definition proxy_poll :: "bool \<Rightarrow> bool \<Rightarrow> (unit, io_error) result option \<Rightarrow> proxy_end option" where
  "proxy_poll forced idle copied =
     (if forced then Some ProxyForced
      else if idle then Some ProxyIdle
      else case copied of
        None \<Rightarrow> None
      | Some (Ok _) \<Rightarrow> Some ProxyFinished
      | Some (Err e) \<Rightarrow> Some (ProxyFailed e))"

section \<open>The idle watchdog\<close>

text \<open>One turn of the loop of \<open>idle_expired\<close>; \<open>instant_max\<close> is the largest instant.\<close>

datatype idle_turn = IdleNever | IdleFired | SleepUntil nat

definition idle_turn :: "nat \<Rightarrow> nat \<Rightarrow> activity option \<Rightarrow> nat option \<Rightarrow> idle_turn" where
  "idle_turn instant_max now act idle_timeout =
     (case (act, idle_timeout) of
        (Some a, Some d) \<Rightarrow>
          (let deadline = activity_last a + d
           in if deadline > instant_max then IdleNever
              else if now \<ge> deadline then IdleFired
              else SleepUntil deadline)
      | _ \<Rightarrow> IdleNever)"

text \<open>
  The loop, when bytes move at the given instants: \<open>touches\<close> are the instants of the calls to
  \<open>touch\<close>, in order, and \<open>activity_at\<close> is the record as the loop finds it at an instant.
  \<^term>\<open>Some t\<close> is the instant at which the watchdog fires, \<^term>\<open>None\<close> that it never does.
\<close>

fun activity_at :: "activity \<Rightarrow> nat list \<Rightarrow> nat \<Rightarrow> activity" where
  "activity_at a [] t = a"
| "activity_at a (x # xs) t = (if x \<le> t then activity_at (activity_touch x a) xs t else a)"

function idle_expired :: "nat \<Rightarrow> nat \<Rightarrow> activity \<Rightarrow> nat list \<Rightarrow> nat \<Rightarrow> nat option" where
  "idle_expired instant_max d a touches now =
     (case idle_turn instant_max now (Some (activity_at a touches now)) (Some d) of
        IdleNever \<Rightarrow> None
      | IdleFired \<Rightarrow> Some now
      | SleepUntil deadline \<Rightarrow> idle_expired instant_max d a touches deadline)"
  by pat_completeness auto
termination
  by (relation "measure (\<lambda>(instant_max, d, a, touches, now). instant_max - now)")
    (auto simp: idle_turn_def Let_def split: if_splits)

declare idle_expired.simps [simp del]

section \<open>Facts about the watchdog\<close>

lemma millis_le: "millis d \<le> U64_MAX"
  by (simp add: millis_def)

lemma unat_of_nat_millis: "unat (of_nat (millis d) :: 64 word) = millis d"
proof -
  have "U64_MAX < 2 ^ 64" by (simp add: U64_MAX_def)
  with millis_le [of d] have "millis d < 2 ^ 64" by linarith
  then show ?thesis by (simp add: unat_of_nat)
qed

text \<open>The record keeps the last touch to within a millisecond, rounded down.\<close>

lemma activity_last_touch:
  assumes "start \<le> x" "x \<le> start + from_millis U64_MAX"
  shows "activity_last (activity_touch x (activity_new start)) \<le> x \<and>
    x < activity_last (activity_touch x (activity_new start)) + 1000000"
proof -
  have "as_millis (x - start) \<le> U64_MAX"
    using assms by (simp add: as_millis_def from_millis_def U64_MAX_def)
  then have "millis (x - start) = (x - start) div 1000000"
    by (simp add: millis_def as_millis_def)
  with unat_of_nat_millis [of "x - start"]
  have "activity_last (activity_touch x (activity_new start)) =
      start + (x - start) div 1000000 * 1000000"
    by (simp add: activity_last_def activity_touch_def activity_new_def from_millis_def)
  with assms(1) show ?thesis by linarith
qed

lemma activity_touch_touch: "activity_touch y (activity_touch x a) = activity_touch y a"
  by (simp add: activity_touch_def)

lemma activity_at_last:
  assumes "sorted (x # touches)" "x \<le> t"
  shows "\<exists>y \<in> set (x # touches). y \<le> t \<and> (\<forall>z \<in> set (x # touches). z \<le> t \<longrightarrow> z \<le> y) \<and>
    activity_at (activity_touch x a) touches t = activity_touch y a"
  using assms
proof (induction touches arbitrary: x)
  case (Cons z zs)
  show ?case
  proof (cases "z \<le> t")
    case True
    have zs: "sorted (z # zs)" and xz: "x \<le> z" using Cons.prems(1) by simp_all
    from Cons.IH [OF zs True] obtain y where
      y: "y \<in> set (z # zs)" "y \<le> t" "\<forall>w \<in> set (z # zs). w \<le> t \<longrightarrow> w \<le> y"
        "activity_at (activity_touch z a) zs t = activity_touch y a" by blast
    have "x \<le> y" using y(3) True xz by (metis list.set_intros(1) order_trans)
    with y True show ?thesis
      by (intro bexI [of _ y]) (auto simp: activity_touch_touch)
  next
    case False
    with Cons.prems have "\<forall>w \<in> set (x # z # zs). w \<le> t \<longrightarrow> w \<le> x" by fastforce
    with False Cons.prems show ?thesis by (intro bexI [of _ x]) simp_all
  qed
qed auto

lemma activity_at_bounds:
  assumes order: "start \<le> first" "sorted (first # touches)" and t: "first \<le> t"
    and representable: "t \<le> start + from_millis U64_MAX"
    and at: "a = activity_at (activity_touch first (activity_new start)) touches t"
  shows "\<exists>x \<in> set (first # touches). x \<le> t \<and> (\<forall>z \<in> set (first # touches). z \<le> t \<longrightarrow> z \<le> x) \<and>
    activity_last a \<le> x \<and> x < activity_last a + 1000000"
proof -
  from activity_at_last [OF order(2) t, of "activity_new start"] obtain x where
    x: "x \<in> set (first # touches)" "x \<le> t" "\<forall>z \<in> set (first # touches). z \<le> t \<longrightarrow> z \<le> x"
      "a = activity_touch x (activity_new start)" unfolding at by blast
  have "start \<le> x" using x(1) order by auto
  moreover have "x \<le> start + from_millis U64_MAX" using x(2) representable by linarith
  ultimately have "activity_last a \<le> x \<and> x < activity_last a + 1000000"
    using activity_last_touch x(4) by simp
  with x show ?thesis by blast
qed

lemma idle_expired_cases:
  "idle_expired instant_max d a touches now =
     (let deadline = activity_last (activity_at a touches now) + d
      in if deadline > instant_max then None
         else if now \<ge> deadline then Some now
         else idle_expired instant_max d a touches deadline)"
  by (subst idle_expired.simps) (simp add: idle_turn_def Let_def)

lemma idle_expired_spec:
  assumes order: "start \<le> first" "sorted (first # touches)"
    and representable: "instant_max \<le> start + from_millis U64_MAX"
    and a: "a = activity_touch first (activity_new start)"
  shows "first \<le> now \<Longrightarrow> now \<le> instant_max \<Longrightarrow>
    (case idle_expired instant_max d a touches now of
       Some fired \<Rightarrow>
         now \<le> fired \<and> fired \<le> instant_max \<and>
         (\<forall>x \<in> set (first # touches). x \<le> fired \<longrightarrow> x + d < fired + 1000000) \<and>
         (\<forall>t. now \<le> t \<and> t < fired \<longrightarrow> (\<exists>x \<in> set (first # touches). x \<le> t \<and> t < x + d))
     | None \<Rightarrow> \<exists>x \<in> set (first # touches). instant_max < x + d)"
proof (induction "instant_max - now" arbitrary: now rule: less_induct)
  case less
  let ?l = "activity_last (activity_at a touches now)" and ?T = "set (first # touches)"
  from less.prems representable have "now \<le> start + from_millis U64_MAX" by linarith
  from activity_at_bounds [OF order less.prems(1) this] a obtain x where
    x: "x \<in> ?T" "x \<le> now" "\<forall>z \<in> ?T. z \<le> now \<longrightarrow> z \<le> x" "?l \<le> x" "x < ?l + 1000000"
    by blast
  have active: "\<exists>y \<in> ?T. y \<le> t \<and> t < y + d" if "now \<le> t" "t < ?l + d" for t
    using x(1,2,4) that by (intro bexI [of _ x]) auto
  consider "?l + d > instant_max" | "?l + d \<le> instant_max" "now \<ge> ?l + d"
    | "?l + d \<le> instant_max" "now < ?l + d" by linarith
  then show ?case
  proof cases
    case 1
    with x(1,4) show ?thesis by (subst idle_expired_cases) (auto simp: Let_def intro: bexI [of _ x])
  next
    case 2
    with x(3,5) have "\<forall>z \<in> ?T. z \<le> now \<longrightarrow> z + d < now + 1000000" by fastforce
    with 2 less.prems show ?thesis by (subst idle_expired_cases) (simp add: Let_def)
  next
    case 3
    then have step: "idle_expired instant_max d a touches now =
        idle_expired instant_max d a touches (?l + d)"
      by (subst idle_expired_cases) (simp add: Let_def)
    from 3 less.prems have "instant_max - (?l + d) < instant_max - now" "first \<le> ?l + d" by linarith+
    from less.hyps [OF this 3(1)] have later:
      "case idle_expired instant_max d a touches (?l + d) of
         Some fired \<Rightarrow> ?l + d \<le> fired \<and> fired \<le> instant_max \<and>
           (\<forall>x \<in> ?T. x \<le> fired \<longrightarrow> x + d < fired + 1000000) \<and>
           (\<forall>t. ?l + d \<le> t \<and> t < fired \<longrightarrow> (\<exists>x \<in> ?T. x \<le> t \<and> t < x + d))
       | None \<Rightarrow> \<exists>x \<in> ?T. instant_max < x + d" .
    show ?thesis
    proof (cases "idle_expired instant_max d a touches (?l + d)")
      case None
      with later step show ?thesis by simp
    next
      case (Some fired)
      with later have "?l + d \<le> fired" "fired \<le> instant_max"
        "\<forall>x \<in> ?T. x \<le> fired \<longrightarrow> x + d < fired + 1000000"
        "\<forall>t. ?l + d \<le> t \<and> t < fired \<longrightarrow> (\<exists>x \<in> ?T. x \<le> t \<and> t < x + d)" by simp_all
      moreover from this active
      have "\<forall>t. now \<le> t \<and> t < fired \<longrightarrow> (\<exists>x \<in> ?T. x \<le> t \<and> t < x + d)"
        by (meson not_le)
      ultimately show ?thesis using Some step 3 by simp
    qed
  qed
qed

section \<open>Properties\<close>

text \<open>C22 (idle\_watchdog\_exact): the watchdog always comes to a decision. It fires only when no byte has
moved for the idle timeout (to within the millisecond the record keeps), and at the first
such instant: at every instant before it, some byte moved less than the timeout ago. It
never fires only when the timeout cannot be represented as an instant.\<close>

theorem idle_watchdog_exact:
  assumes "start \<le> first" "sorted (first # touches)" "instant_max \<le> start + from_millis U64_MAX"
    and "first \<le> now" "now \<le> instant_max"
  shows "case idle_expired instant_max d (activity_touch first (activity_new start)) touches now of
      Some fired \<Rightarrow>
        now \<le> fired \<and> fired \<le> instant_max \<and>
        (\<forall>x \<in> set (first # touches). x \<le> fired \<longrightarrow> x + d < fired + 1000000) \<and>
        (\<forall>t. now \<le> t \<and> t < fired \<longrightarrow> (\<exists>x \<in> set (first # touches). x \<le> t \<and> t < x + d))
    | None \<Rightarrow> \<exists>x \<in> set (first # touches). instant_max < x + d"
  by (rule idle_expired_spec [OF assms(1-3) refl assms(4,5)])

theorem idle_watchdog_exact_witness:
  "idle_expired (10 ^ 12) (from_secs 5) (activity_touch 0 (activity_new 0)) [from_secs 3] 0 =
     Some (from_secs 8) \<and> (\<exists>x. x \<le> from_secs 7 \<and> from_secs 7 < x + from_secs 5)"
proof -
  have fired: "idle_expired (10 ^ 12) (from_secs 5) (activity_touch 0 (activity_new 0)) [from_secs 3] 0 =
      Some (from_secs 8)"
    by (subst idle_expired_cases, simp add: Let_def from_secs_def NANOS_def activity_last_def
        activity_touch_def activity_new_def millis_def as_millis_def from_millis_def U64_MAX_def)+
  have "(10 :: nat) ^ 12 \<le> 0 + from_millis U64_MAX" by (simp add: from_millis_def U64_MAX_def)
  note t = idle_watchdog_exact [of 0 0 "[from_secs 3]" "10 ^ 12" 0 "from_secs 5", OF _ _ this]
  have "0 \<le> from_secs 7 \<and> from_secs 7 < from_secs 8" by (simp add: from_secs_def NANOS_def)
  with t fired show ?thesis by (auto simp only: option.case list.set_map) force+
qed

end
