(* ===== verification/Splice.thy ===== *)
theory Splice
  imports Metered
begin

text \<open>
  The kernel fast path of the proxy stage (\<open>delivery/splice.rs\<close>) and the choice between it
  and the portable copy (\<open>copy\<close> in \<open>delivery/proxy.rs\<close>). The kernel is not part of the
  sources: the result of each system call is an argument. What the model states of \<open>splice\<close>
  is its documented behaviour: it moves at most \<open>len\<close> bytes, in order, and takes at least one
  from a readable socket whose peer has not closed. The portable copy is tokio's.
\<close>

section \<open>The budget of file descriptors\<close>

definition MAX_SPLICE_FD_SHARE :: nat where "MAX_SPLICE_FD_SHARE = 2"

definition FDS_PER_SPLICE_CONNECTION :: nat where "FDS_PER_SPLICE_CONNECTION = 4"

definition splice_permits :: "nat \<Rightarrow> nat" where
  "splice_permits nofile_limit = (nofile_limit div MAX_SPLICE_FD_SHARE) div FDS_PER_SPLICE_CONNECTION"

text \<open>\<open>str::parse::<usize>\<close> on a 64-bit platform.\<close>

definition parse_usize :: "string \<Rightarrow> nat option" where
  "parse_usize s = parse_unsigned (2 ^ 64) s"

definition admission_capacity :: "string option \<Rightarrow> nat \<Rightarrow> nat" where
  "admission_capacity override_value nofile_limit =
     (case Option.bind override_value parse_usize of
        Some permits \<Rightarrow> permits
      | None \<Rightarrow> splice_permits nofile_limit)"

text \<open>An override is taken as it is, however large.\<close>

lemma override_unbounded:
  "admission_capacity (Some ''18446744073709551615'') nofile_limit = 2 ^ 64 - 1"
proof -
  have "parse_usize ''18446744073709551615'' = Some (2 ^ 64 - 1)"
    by (simp add: parse_usize_def parse_unsigned_def to_digit_def)
  then show ?thesis by (simp add: admission_capacity_def)
qed

text \<open>\<open>getrlimit\<close> may fail or report a limit that does not fit.\<close>

definition nofile_soft_limit :: "nat option \<Rightarrow> nat option" where
  "nofile_soft_limit rlim_cur =
     (case rlim_cur of None \<Rightarrow> None | Some n \<Rightarrow> if n < 2 ^ 64 then Some n else None)"

text \<open>
  tokio's \<open>Semaphore::new\<close> panics above \<open>Semaphore::MAX_PERMITS\<close>, which is \<open>usize::MAX >> 3\<close>;
  \<^term>\<open>None\<close> is that panic.
\<close>

definition MAX_PERMITS :: nat where "MAX_PERMITS = 2 ^ 61 - 1"

definition semaphore_new :: "nat \<Rightarrow> nat option" where
  "semaphore_new permits = (if permits \<le> MAX_PERMITS then Some permits else None)"

record admission =
  adm_permits :: nat

definition admission_new :: "string option \<Rightarrow> nat option \<Rightarrow> admission option" where
  "admission_new override_value rlim_cur =
     (let limit = (case nofile_soft_limit rlim_cur of None \<Rightarrow> 0 | Some n \<Rightarrow> n)
      in map_option (\<lambda>permits. \<lparr>adm_permits = permits\<rparr>)
           (semaphore_new (admission_capacity override_value limit)))"

text \<open>
  \<open>admission()\<close>: a cell that is filled at most once, and stays empty when filling it panics. The
  semaphore behind it is known by the address it was allocated at, which is what \<open>Arc::ptr_eq\<close>
  compares.
\<close>

record admission_cell =
  cell_instance :: "nat option"
  cell_heap :: "admission list"

definition admission_get ::
    "string option \<Rightarrow> nat option \<Rightarrow> admission_cell \<Rightarrow> (nat \<times> admission_cell) option" where
  "admission_get override_value rlim_cur cell =
     (case cell_instance cell of
        Some address \<Rightarrow> Some (address, cell)
      | None \<Rightarrow>
          map_option (\<lambda>adm.
              (length (cell_heap cell),
               \<lparr>cell_instance = Some (length (cell_heap cell)), cell_heap = cell_heap cell @ [adm]\<rparr>))
            (admission_new override_value rlim_cur))"

text \<open>The heuristic never asks for too many permits; an override can, and then every call panics.\<close>

lemma splice_permits_fit: "limit < 2 ^ 64 \<Longrightarrow> splice_permits limit \<le> MAX_PERMITS"
  by (simp add: splice_permits_def MAX_SPLICE_FD_SHARE_def FDS_PER_SPLICE_CONNECTION_def MAX_PERMITS_def)

lemma admission_new_None:
  "admission_new override_value rlim_cur = None \<longleftrightarrow>
   (\<exists>value permits. override_value = Some value \<and> parse_usize value = Some permits \<and> MAX_PERMITS < permits)"
proof -
  have "splice_permits (case nofile_soft_limit rlim_cur of None \<Rightarrow> 0 | Some n \<Rightarrow> n) \<le> MAX_PERMITS"
    by (intro splice_permits_fit) (auto simp: nofile_soft_limit_def split: option.splits if_splits)
  then show ?thesis
    by (cases override_value)
      (auto simp: admission_new_def Let_def semaphore_new_def admission_capacity_def split: option.splits if_splits)
qed

lemma admission_new_heuristic: "admission_new None rlim_cur \<noteq> None"
  by (simp add: admission_new_None)

lemma admission_override_panics: "admission_new (Some ''18446744073709551615'') rlim_cur = None"
  by (simp add: admission_new_def override_unbounded semaphore_new_def MAX_PERMITS_def Let_def)

definition try_acquire :: "admission \<Rightarrow> admission option" where
  "try_acquire adm =
     (if adm_permits adm = 0 then None else Some (adm\<lparr>adm_permits := adm_permits adm - 1\<rparr>))"

definition permit_drop :: "admission \<Rightarrow> admission" where
  "permit_drop adm = adm\<lparr>adm_permits := adm_permits adm + 1\<rparr>"

section \<open>Retries, probing and pipes\<close>

text \<open>The results of repeated calls; \<^term>\<open>None\<close> while every call so far was interrupted.\<close>

fun retry_eintr :: "('a, io_error) result list \<Rightarrow> ('a, io_error) result option" where
  "retry_eintr [] = None"
| "retry_eintr (Ok x # _) = Some (Ok x)"
| "retry_eintr (Err e # rest) =
     (if io_kind e = IoInterrupted then retry_eintr rest else Some (Err e))"

definition try_probe ::
    "(unit, io_error) result \<Rightarrow> (unit, io_error) result \<Rightarrow> (unit, io_error) result \<Rightarrow>
     (nat, io_error) result \<Rightarrow> (bool, io_error) result" where
  "try_probe source_pipe sink_pipe wrote spliced =
     bind_ok source_pipe (\<lambda>_. bind_ok sink_pipe (\<lambda>_. bind_ok wrote (\<lambda>_.
     bind_ok spliced (\<lambda>moved. Ok (moved = 1)))))"

definition probe :: "(bool, io_error) result \<Rightarrow> bool" where
  "probe r = (case r of Ok b \<Rightarrow> b | Err _ \<Rightarrow> False)"

text \<open>\<open>disabled\<close>: whether \<open>SNI_ROUTER_DISABLE_SPLICE\<close> is set; the probe runs once.\<close>

definition available :: "bool \<Rightarrow> bool \<Rightarrow> bool" where
  "available disabled probed = (if disabled then False else probed)"

record pipe =
  pipe_capacity :: nat

definition pipe_new :: "nat \<Rightarrow> (unit, io_error) result \<Rightarrow> int \<Rightarrow> (pipe, io_error) result" where
  "pipe_new buffer_size raw_pipe getpipe_sz =
     bind_ok raw_pipe (\<lambda>_.
       Ok \<lparr>pipe_capacity = (if getpipe_sz > 0 then nat getpipe_sz else buffer_size)\<rparr>)"

definition prepare ::
    "nat \<Rightarrow> (unit, io_error) result \<times> int \<Rightarrow> (unit, io_error) result \<times> int \<Rightarrow>
     (pipe \<times> pipe, io_error) result" where
  "prepare buffer_size first second =
     bind_ok (pipe_new buffer_size (fst first) (snd first)) (\<lambda>to_upstream.
     bind_ok (pipe_new buffer_size (fst second) (snd second)) (\<lambda>to_client.
     Ok (to_upstream, to_client)))"

text \<open>
  How \<open>copy\<close> chooses, and the budget while the copy runs. \<open>adm\<close> is what \<open>admission()\<close> returns, \<^term>\<open>None\<close>
  its panic; it is called only where \<open>splice\<close> is available.
\<close>

datatype copy_path = SpliceCopy "pipe \<times> pipe" | PortableCopy

definition copy_choice ::
    "bool \<Rightarrow> admission option \<Rightarrow> (pipe \<times> pipe, io_error) result \<Rightarrow> (copy_path \<times> admission option) option" where
  "copy_choice is_available adm prepared =
     (if is_available
      then Option.bind adm (\<lambda>a. case try_acquire a of
             None \<Rightarrow> Some (PortableCopy, Some a)
           | Some a' \<Rightarrow>
               (case prepared of
                  Ok pipes \<Rightarrow> Some (SpliceCopy pipes, Some a')
                | Err _ \<Rightarrow> Some (PortableCopy, Some (permit_drop a'))))
      else Some (PortableCopy, adm))"

lemma copy_choice_None: "copy_choice is_available adm prepared = None \<longleftrightarrow> is_available \<and> adm = None"
  by (cases adm) (auto simp: copy_choice_def split: option.splits result.splits)

section \<open>One direction\<close>

text \<open>
  What is in the source socket (all its peer will send before it closes), in the pipe, and
  what has landed in the destination; and where the code is.
\<close>

record direction =
  d_src :: "byte list"
  d_pipe :: "byte list"
  d_dst :: "byte list"
  d_shut :: bool

datatype location =
    Reading
  | Draining nat
  | Shutting
  | DirDone "(unit, io_error) result"

text \<open>The result of a system call: the kernel was willing to move that much, or it failed.\<close>

datatype sysret = Moves nat | Fails io_error

definition retried :: "io_error \<Rightarrow> bool" where
  "retried e \<longleftrightarrow> io_kind e = IoInterrupted \<or> io_kind e = IoWouldBlock"

definition splice_in :: "nat \<Rightarrow> nat \<Rightarrow> direction \<Rightarrow> nat" where
  "splice_in chunk willing d = min (max willing 1) (min chunk (length (d_src d)))"

definition splice_out :: "nat \<Rightarrow> nat \<Rightarrow> direction \<Rightarrow> nat" where
  "splice_out remaining willing d = min willing (min remaining (length (d_pipe d)))"

definition write_zero :: io_error where
  "write_zero = \<lparr>io_kind = IoWriteZero, io_message = ''splice returned 0 with bytes still pending''\<rparr>"

text \<open>\<open>shutdown_write\<close>: a peer that is gone leaves nothing to shut down.\<close>

definition shutdown_write :: "sysret \<Rightarrow> (unit, io_error) result option" where
  "shutdown_write r =
     (case r of
        Moves _ \<Rightarrow> Some (Ok ())
      | Fails e \<Rightarrow>
          if io_kind e = IoInterrupted then None
          else if io_kind e = IoNotConnected then Some (Ok ())
          else Some (Err e))"

text \<open>
  One system call of \<open>splice_direction\<close>: the new location and state, and how many bytes it
  read from the source and wrote to the destination. A call that would block is awaited and
  made again; one that was interrupted is made again.
\<close>

definition dir_step :: "nat \<Rightarrow> sysret \<Rightarrow> location \<times> direction \<Rightarrow> (location \<times> direction) \<times> nat \<times> nat" where
  "dir_step chunk r ld =
     (case ld of (loc, d) \<Rightarrow>
       (case loc of
          Reading \<Rightarrow>
            (case r of
               Fails e \<Rightarrow> (if retried e then (Reading, d) else (DirDone (Err e), d), 0, 0)
             | Moves willing \<Rightarrow>
                 (let n = splice_in chunk willing d
                  in if n = 0 then ((Shutting, d), 0, 0)
                     else ((Draining n, d\<lparr>d_src := drop n (d_src d), d_pipe := d_pipe d @ take n (d_src d)\<rparr>),
                           n, 0)))
        | Draining remaining \<Rightarrow>
            (case r of
               Fails e \<Rightarrow> (if retried e then (Draining remaining, d) else (DirDone (Err e), d), 0, 0)
             | Moves willing \<Rightarrow>
                 (let n = splice_out remaining willing d
                  in if n = 0 then ((DirDone (Err write_zero), d), 0, 0)
                     else ((if remaining - n > 0 then Draining (remaining - n) else Reading,
                            d\<lparr>d_pipe := drop n (d_pipe d), d_dst := d_dst d @ take n (d_pipe d)\<rparr>),
                           0, n)))
        | Shutting \<Rightarrow>
            (case shutdown_write r of
               None \<Rightarrow> ((Shutting, d), 0, 0)
             | Some (Ok u) \<Rightarrow> ((DirDone (Ok u), d\<lparr>d_shut := True\<rparr>), 0, 0)
             | Some (Err e) \<Rightarrow> ((DirDone (Err e), d), 0, 0))
        | DirDone res \<Rightarrow> ((loc, d), 0, 0)))"

definition dir_start :: "byte list \<Rightarrow> location \<times> direction" where
  "dir_start bytes = (Reading, \<lparr>d_src = bytes, d_pipe = [], d_dst = [], d_shut = False\<rparr>)"

section \<open>Both directions\<close>

record copy_state =
  cp_up :: "location \<times> direction"
  cp_down :: "location \<times> direction"
  cp_counters :: byte_counters
  cp_activity :: "activity option"

text \<open>\<open>try_join!\<close>: an error of either direction at once, success when both are done.\<close>

definition copy_result :: "copy_state \<Rightarrow> (unit, io_error) result option" where
  "copy_result s =
     (case (fst (cp_up s), fst (cp_down s)) of
        (DirDone (Err e), _) \<Rightarrow> Some (Err e)
      | (_, DirDone (Err e)) \<Rightarrow> Some (Err e)
      | (DirDone (Ok _), DirDone (Ok _)) \<Rightarrow> Some (Ok ())
      | _ \<Rightarrow> None)"

datatype side = ToUpstream | ToClient

definition copy_step :: "pipe \<times> pipe \<Rightarrow> nat \<Rightarrow> side \<Rightarrow> sysret \<Rightarrow> copy_state \<Rightarrow> copy_state" where
  "copy_step pipes now side r s =
     (if copy_result s \<noteq> None then s
      else case side of
        ToUpstream \<Rightarrow>
          (let (ld, read, written) = dir_step (pipe_capacity (fst pipes)) r (cp_up s);
               s' = s\<lparr>cp_up := ld\<rparr>
           in if read > 0
              then s'\<lparr>cp_counters := add_read (of_nat read) (cp_counters s'),
                      cp_activity := map_option (activity_touch now) (cp_activity s')\<rparr>
              else s')
      | ToClient \<Rightarrow>
          (let (ld, read, written) = dir_step (pipe_capacity (snd pipes)) r (cp_down s);
               s' = s\<lparr>cp_down := ld\<rparr>
           in if written > 0
              then s'\<lparr>cp_counters := add_written (of_nat written) (cp_counters s'),
                      cp_activity := map_option (activity_touch now) (cp_activity s')\<rparr>
              else s'))"

definition copy_start :: "byte list \<Rightarrow> byte list \<Rightarrow> byte_counters \<Rightarrow> activity option \<Rightarrow> copy_state" where
  "copy_start from_client from_upstream counters act =
     \<lparr>cp_up = dir_start from_client, cp_down = dir_start from_upstream, cp_counters = counters,
      cp_activity = act\<rparr>"

text \<open>A run of \<open>copy_bidirectional\<close>: the system calls of both directions in the order they return.\<close>

definition copy_bidirectional ::
    "pipe \<times> pipe \<Rightarrow> (nat \<times> side \<times> sysret) list \<Rightarrow> copy_state \<Rightarrow> copy_state" where
  "copy_bidirectional pipes calls s = fold (\<lambda>(now, side, r). copy_step pipes now side r) calls s"

section \<open>What a direction keeps\<close>

text \<open>
  Nothing is lost, duplicated or reordered; the pipe holds exactly what is still to be
  drained, and the destination is shut down only when everything has landed in it.
\<close>

definition dir_ok :: "nat \<Rightarrow> byte list \<Rightarrow> location \<times> direction \<Rightarrow> bool" where
  "dir_ok chunk bytes ld \<longleftrightarrow>
     (case ld of (loc, d) \<Rightarrow>
       d_dst d @ d_pipe d @ d_src d = bytes \<and> length (d_pipe d) \<le> chunk \<and>
       (case loc of
          Reading \<Rightarrow> d_pipe d = [] \<and> \<not> d_shut d
        | Draining n \<Rightarrow> n = length (d_pipe d) \<and> 0 < n \<and> \<not> d_shut d
        | Shutting \<Rightarrow> d_pipe d = [] \<and> d_src d = [] \<and> \<not> d_shut d
        | DirDone (Ok _) \<Rightarrow> d_pipe d = [] \<and> d_src d = [] \<and> d_shut d
        | DirDone (Err _) \<Rightarrow> \<not> d_shut d))"

definition dir_taken :: "location \<times> direction \<Rightarrow> nat" where
  "dir_taken ld = length (d_dst (snd ld)) + length (d_pipe (snd ld))"

definition dir_landed :: "location \<times> direction \<Rightarrow> nat" where
  "dir_landed ld = length (d_dst (snd ld))"

lemma dir_ok_start: "dir_ok chunk bytes (dir_start bytes)"
  by (simp add: dir_ok_def dir_start_def)

lemma dir_step_ok:
  assumes "dir_ok chunk bytes ld" "0 < chunk" "dir_step chunk r ld = (ld', read, written)"
  shows "dir_ok chunk bytes ld' \<and> dir_taken ld' = dir_taken ld + read \<and>
    dir_landed ld' = dir_landed ld + written"
  using assms
  by (cases ld; cases "fst ld"; cases r)
    (auto simp: dir_ok_def dir_step_def dir_taken_def dir_landed_def splice_in_def splice_out_def
      Let_def shutdown_write_def min_def max_def
      split: if_splits option.splits result.splits sysret.splits)

lemma dir_ok_shut:
  "dir_ok chunk bytes ld \<Longrightarrow> d_shut (snd ld) \<Longrightarrow> d_dst (snd ld) = bytes"
  by (cases ld) (auto simp: dir_ok_def split: location.splits result.splits)

lemma dir_ok_done: "dir_ok chunk bytes ld \<Longrightarrow> fst ld = DirDone (Ok u) \<Longrightarrow>
    d_dst (snd ld) = bytes \<and> d_shut (snd ld)"
  by (cases ld) (auto simp: dir_ok_def)

section \<open>What a copy keeps\<close>

definition copy_ok ::
    "pipe \<times> pipe \<Rightarrow> byte list \<Rightarrow> byte list \<Rightarrow> byte_counters \<Rightarrow> copy_state \<Rightarrow> bool" where
  "copy_ok pipes from_client from_upstream c s \<longleftrightarrow>
     dir_ok (pipe_capacity (fst pipes)) from_client (cp_up s) \<and>
     dir_ok (pipe_capacity (snd pipes)) from_upstream (cp_down s) \<and>
     bc_read (cp_counters s) = bc_read c + of_nat (dir_taken (cp_up s)) \<and>
     bc_written (cp_counters s) = bc_written c + of_nat (dir_landed (cp_down s))"

lemma copy_ok_start: "copy_ok pipes from_client from_upstream c (copy_start from_client from_upstream c act)"
  using dir_ok_start
  by (simp add: copy_ok_def copy_start_def dir_taken_def dir_landed_def) (simp add: dir_start_def)

lemma copy_step_ok:
  assumes "copy_ok pipes from_client from_upstream c s"
    and "0 < pipe_capacity (fst pipes)" "0 < pipe_capacity (snd pipes)"
  shows "copy_ok pipes from_client from_upstream c (copy_step pipes now side r s)"
proof (cases "copy_result s")
  case None
  show ?thesis
  proof (cases side)
    case ToUpstream
    obtain ld read written where step: "dir_step (pipe_capacity (fst pipes)) r (cp_up s) = (ld, read, written)"
      by (cases "dir_step (pipe_capacity (fst pipes)) r (cp_up s)") auto
    with assms dir_step_ok [OF _ assms(2) step, of from_client] None ToUpstream show ?thesis
      by (simp add: copy_ok_def copy_step_def add_read_def Let_def)
  next
    case ToClient
    obtain ld read written where step: "dir_step (pipe_capacity (snd pipes)) r (cp_down s) = (ld, read, written)"
      by (cases "dir_step (pipe_capacity (snd pipes)) r (cp_down s)") auto
    with assms dir_step_ok [OF _ assms(3) step, of from_upstream] None ToClient show ?thesis
      by (simp add: copy_ok_def copy_step_def add_written_def Let_def)
  qed
qed (use assms in \<open>simp add: copy_step_def\<close>)

lemma copy_bidirectional_ok:
  assumes "copy_ok pipes from_client from_upstream c s"
    and "0 < pipe_capacity (fst pipes)" "0 < pipe_capacity (snd pipes)"
  shows "copy_ok pipes from_client from_upstream c (copy_bidirectional pipes calls s)"
  using assms(1)
proof (induction calls arbitrary: s)
  case (Cons call calls)
  obtain now side r where "call = (now, side, r)" by (cases call)
  with Cons.IH [OF copy_step_ok [OF Cons.prems assms(2,3), of now side r]] show ?case
    by (simp add: copy_bidirectional_def)
qed (simp add: copy_bidirectional_def)

lemma copy_result_Ok:
  "copy_result s = Some (Ok u) \<longleftrightarrow>
   fst (cp_up s) = DirDone (Ok ()) \<and> fst (cp_down s) = DirDone (Ok ())"
  by (auto simp: copy_result_def split: location.splits result.splits)

section \<open>Progress\<close>

text \<open>How many calls a direction can still need when each of them makes progress.\<close>

definition dir_work :: "location \<times> direction \<Rightarrow> nat" where
  "dir_work ld =
     (case fst ld of
        Reading \<Rightarrow> 2 * length (d_src (snd ld)) + 2
      | Draining n \<Rightarrow> 2 * length (d_src (snd ld)) + n + 2
      | Shutting \<Rightarrow> 1
      | DirDone _ \<Rightarrow> 0)"

fun dir_failed :: "location \<times> direction \<Rightarrow> bool" where
  "dir_failed (DirDone (Err _), _) = True"
| "dir_failed _ = False"

fun progress :: "sysret \<Rightarrow> bool" where
  "progress (Moves n) = (0 < n)"
| "progress (Fails e) = False"

lemma dir_step_work:
  assumes "dir_ok chunk bytes ld" "0 < chunk" "progress r" "\<not> dir_failed ld"
    and "dir_step chunk r ld = (ld', read, written)"
  shows "dir_work ld' \<le> dir_work ld - 1 \<and> \<not> dir_failed ld'"
  using assms
  by (cases ld; cases "fst ld"; cases r)
    (auto simp: dir_ok_def dir_step_def dir_work_def splice_in_def splice_out_def Let_def
      shutdown_write_def min_def max_def length_0_conv [symmetric]
      simp del: length_0_conv length_greater_0_conv split: if_splits result.splits)

lemma dir_work_0: "dir_work ld = 0 \<Longrightarrow> \<not> dir_failed ld \<Longrightarrow> fst ld = DirDone (Ok ())"
  by (cases ld rule: dir_failed.cases) (auto simp: dir_work_def)

lemma copy_unfinished:
  "\<not> dir_failed (cp_up s) \<Longrightarrow> \<not> dir_failed (cp_down s) \<Longrightarrow> copy_result s \<noteq> None \<Longrightarrow>
   dir_work (cp_up s) = 0 \<and> dir_work (cp_down s) = 0"
  by (cases "cp_up s" rule: dir_failed.cases; cases "cp_down s" rule: dir_failed.cases)
    (auto simp: copy_result_def dir_work_def split: location.splits)

fun calls_of :: "side \<Rightarrow> (nat \<times> side \<times> sysret) list \<Rightarrow> nat" where
  "calls_of side [] = 0"
| "calls_of side ((_, x, _) # calls) = (if x = side then 1 else 0) + calls_of side calls"

lemma copy_step_work:
  assumes "copy_ok pipes from_client from_upstream c s"
    and "0 < pipe_capacity (fst pipes)" "0 < pipe_capacity (snd pipes)"
    and "progress r" "\<not> dir_failed (cp_up s)" "\<not> dir_failed (cp_down s)"
    and s': "s' = copy_step pipes now side r s"
  shows "dir_work (cp_up s') \<le> dir_work (cp_up s) - calls_of ToUpstream [(now, side, r)] \<and>
    dir_work (cp_down s') \<le> dir_work (cp_down s) - calls_of ToClient [(now, side, r)] \<and>
    \<not> dir_failed (cp_up s') \<and> \<not> dir_failed (cp_down s')"
proof (cases "copy_result s")
  case None
  have up: "dir_ok (pipe_capacity (fst pipes)) from_client (cp_up s)"
    and down: "dir_ok (pipe_capacity (snd pipes)) from_upstream (cp_down s)"
    using assms(1) by (simp_all add: copy_ok_def)
  show ?thesis
  proof (cases side)
    case ToUpstream
    obtain ld read written where step: "dir_step (pipe_capacity (fst pipes)) r (cp_up s) = (ld, read, written)"
      by (cases "dir_step (pipe_capacity (fst pipes)) r (cp_up s)") auto
    from dir_step_work [OF up assms(2,4,5) step] step None ToUpstream assms(6) show ?thesis
      by (simp add: s' copy_step_def Let_def)
  next
    case ToClient
    obtain ld read written where step: "dir_step (pipe_capacity (snd pipes)) r (cp_down s) = (ld, read, written)"
      by (cases "dir_step (pipe_capacity (snd pipes)) r (cp_down s)") auto
    from dir_step_work [OF down assms(3,4,6) step] step None ToClient assms(5) show ?thesis
      by (simp add: s' copy_step_def Let_def)
  qed
next
  case (Some res)
  with copy_unfinished [OF assms(5,6)] assms(5,6) show ?thesis by (simp add: s' copy_step_def Let_def)
qed

lemma copy_bidirectional_work:
  assumes "copy_ok pipes from_client from_upstream c s"
    and "0 < pipe_capacity (fst pipes)" "0 < pipe_capacity (snd pipes)"
    and "list_all (\<lambda>(_, _, r). progress r) calls" "\<not> dir_failed (cp_up s)" "\<not> dir_failed (cp_down s)"
  shows "dir_work (cp_up (copy_bidirectional pipes calls s)) \<le> dir_work (cp_up s) - calls_of ToUpstream calls \<and>
    dir_work (cp_down (copy_bidirectional pipes calls s)) \<le> dir_work (cp_down s) - calls_of ToClient calls \<and>
    \<not> dir_failed (cp_up (copy_bidirectional pipes calls s)) \<and>
    \<not> dir_failed (cp_down (copy_bidirectional pipes calls s))"
  using assms(1,4-6)
proof (induction calls arbitrary: s)
  case (Cons call calls)
  obtain now side r where call: "call = (now, side, r)" by (cases call)
  define s' where "s' = copy_step pipes now side r s"
  have r: "progress r" using Cons.prems(2) call by simp
  have w: "dir_work (cp_up s') \<le> dir_work (cp_up s) - calls_of ToUpstream [(now, side, r)] \<and>
      dir_work (cp_down s') \<le> dir_work (cp_down s) - calls_of ToClient [(now, side, r)] \<and>
      \<not> dir_failed (cp_up s') \<and> \<not> dir_failed (cp_down s')"
    by (rule copy_step_work [OF Cons.prems(1) assms(2,3) r Cons.prems(3,4) s'_def])
  have ok: "copy_ok pipes from_client from_upstream c s'"
    unfolding s'_def by (rule copy_step_ok [OF Cons.prems(1) assms(2,3)])
  have run: "copy_bidirectional pipes (call # calls) s = copy_bidirectional pipes calls s'"
    by (simp add: copy_bidirectional_def call s'_def)
  have n: "calls_of x (call # calls) = calls_of x [(now, side, r)] + calls_of x calls" for x
    by (simp add: call)
  have "list_all (\<lambda>(_, _, r). progress r) calls" using Cons.prems(2) by simp
  from Cons.IH [OF ok this] w show ?case
    unfolding run n by linarith
qed (simp add: copy_bidirectional_def)

lemma copy_finishes:
  assumes "0 < pipe_capacity (fst pipes)" "0 < pipe_capacity (snd pipes)"
    and "list_all (\<lambda>(_, _, r). progress r) calls"
    and "2 * length from_client + 2 \<le> calls_of ToUpstream calls"
    and "2 * length from_upstream + 2 \<le> calls_of ToClient calls"
    and "s = copy_bidirectional pipes calls (copy_start from_client from_upstream c act)"
  shows "copy_result s = Some (Ok ()) \<and> d_dst (snd (cp_up s)) = from_client \<and>
    d_dst (snd (cp_down s)) = from_upstream"
proof -
  let ?s0 = "copy_start from_client from_upstream c act"
  have start: "\<not> dir_failed (cp_up ?s0)" "\<not> dir_failed (cp_down ?s0)"
    "dir_work (cp_up ?s0) = 2 * length from_client + 2" "dir_work (cp_down ?s0) = 2 * length from_upstream + 2"
    by (simp_all add: copy_start_def dir_start_def dir_work_def)
  from copy_bidirectional_work [OF copy_ok_start assms(1-3) start(1,2)] start(3,4) assms(4,5)
  have "dir_work (cp_up s) = 0" "dir_work (cp_down s) = 0"
    and fine: "\<not> dir_failed (cp_up s)" "\<not> dir_failed (cp_down s)" by (simp_all add: assms(6))
  then have fin: "fst (cp_up s) = DirDone (Ok ())" "fst (cp_down s) = DirDone (Ok ())"
    by (simp_all add: dir_work_0)
  from copy_bidirectional_ok [OF copy_ok_start assms(1,2)]
  have "copy_ok pipes from_client from_upstream c s" unfolding assms(6) .
  then have "dir_ok (pipe_capacity (fst pipes)) from_client (cp_up s)"
    "dir_ok (pipe_capacity (snd pipes)) from_upstream (cp_down s)" by (simp_all add: copy_ok_def)
  from dir_ok_done [OF this(1) fin(1)] dir_ok_done [OF this(2) fin(2)] fin show ?thesis
    by (simp add: copy_result_Ok)
qed

definition demo_calls :: "(nat \<times> side \<times> sysret) list" where
  "demo_calls =
     [(1, ToUpstream, Moves 2), (2, ToClient, Moves 9), (3, ToUpstream, Moves 1), (4, ToUpstream, Moves 5),
      (5, ToUpstream, Moves 1), (6, ToClient, Moves 1), (7, ToUpstream, Moves 1), (8, ToClient, Moves 1),
      (9, ToUpstream, Moves 1), (10, ToUpstream, Moves 1), (11, ToClient, Moves 1),
      (12, ToUpstream, Moves 1), (13, ToClient, Moves 1)]"

lemma demo_calls_finish:
  "copy_result (copy_bidirectional (\<lparr>pipe_capacity = 2\<rparr>, \<lparr>pipe_capacity = 2\<rparr>) demo_calls
     (copy_start [1, 2, 3] [4] counters_default None)) = Some (Ok ())"
proof -
  have "list_all (\<lambda>(_, _, r). progress r) demo_calls" "2 * length [1, 2, 3 :: byte] + 2 \<le> calls_of ToUpstream demo_calls"
    "2 * length [4 :: byte] + 2 \<le> calls_of ToClient demo_calls"
    by (simp_all add: demo_calls_def)
  from copy_finishes [OF _ _ this refl, of "(\<lparr>pipe_capacity = 2\<rparr>, \<lparr>pipe_capacity = 2\<rparr>)"] show ?thesis
    by simp
qed

section \<open>Properties\<close>

text \<open>C9 (splice\_transparent): whatever the kernel answers and however the two directions interleave, the
bytes in the destination, the pipe and the source of each direction are together always the
bytes its peer sent, in order; a pipe never holds more than its capacity; a write half is
shut down only after everything has been delivered; the counters advance by what was taken
from the client and what reached the client; and a successful end means both directions
delivered everything.\<close>

theorem splice_transparent:
  assumes "0 < pipe_capacity (fst pipes)" "0 < pipe_capacity (snd pipes)"
    and "s = copy_bidirectional pipes calls (copy_start from_client from_upstream c act)"
    and "up = snd (cp_up s)" "down = snd (cp_down s)"
  shows "d_dst up @ d_pipe up @ d_src up = from_client \<and> length (d_pipe up) \<le> pipe_capacity (fst pipes) \<and>
    d_dst down @ d_pipe down @ d_src down = from_upstream \<and>
    length (d_pipe down) \<le> pipe_capacity (snd pipes) \<and>
    (d_shut up \<longrightarrow> d_dst up = from_client) \<and> (d_shut down \<longrightarrow> d_dst down = from_upstream) \<and>
    bc_read (cp_counters s) = bc_read c + of_nat (length (d_dst up @ d_pipe up)) \<and>
    bc_written (cp_counters s) = bc_written c + of_nat (length (d_dst down)) \<and>
    (copy_result s = Some (Ok ()) \<longrightarrow>
       d_dst up = from_client \<and> d_dst down = from_upstream \<and> d_shut up \<and> d_shut down)"
proof -
  from copy_bidirectional_ok [OF copy_ok_start assms(1,2)]
  have ok: "copy_ok pipes from_client from_upstream c s" unfolding assms(3) .
  then have u: "dir_ok (pipe_capacity (fst pipes)) from_client (cp_up s)"
    and w: "dir_ok (pipe_capacity (snd pipes)) from_upstream (cp_down s)"
    and counters: "bc_read (cp_counters s) = bc_read c + of_nat (length (d_dst up @ d_pipe up))"
      "bc_written (cp_counters s) = bc_written c + of_nat (length (d_dst down))"
    by (simp_all add: copy_ok_def dir_taken_def dir_landed_def assms(4,5))
  have conserve: "d_dst (snd ld) @ d_pipe (snd ld) @ d_src (snd ld) = bytes \<and> length (d_pipe (snd ld)) \<le> chunk"
    if "dir_ok chunk bytes ld" for chunk bytes ld
    using that by (cases ld) (simp add: dir_ok_def)
  from conserve [OF u] conserve [OF w] dir_ok_shut [OF u] dir_ok_shut [OF w]
    dir_ok_done [OF u] dir_ok_done [OF w] counters
  show ?thesis by (simp add: assms(4,5) copy_result_Ok)
qed

theorem splice_transparent_witness:
  "copy_result (copy_bidirectional (\<lparr>pipe_capacity = 2\<rparr>, \<lparr>pipe_capacity = 2\<rparr>) demo_calls
     (copy_start [1, 2, 3] [4] counters_default None)) = Some (Ok ()) \<and>
   d_dst (snd (cp_up (copy_bidirectional (\<lparr>pipe_capacity = 2\<rparr>, \<lparr>pipe_capacity = 2\<rparr>) demo_calls
     (copy_start [1, 2, 3] [4] counters_default None)))) = [1, 2, 3]"
proof -
  let ?p = "(\<lparr>pipe_capacity = 2\<rparr>, \<lparr>pipe_capacity = 2\<rparr>)"
  let ?s = "copy_bidirectional ?p demo_calls (copy_start [1, 2, 3] [4] counters_default None)"
  have "0 < pipe_capacity (fst ?p)" "0 < pipe_capacity (snd ?p)" by simp_all
  note t = splice_transparent [OF this, of ?s demo_calls "[1, 2, 3]" "[4]" counters_default None, OF refl refl refl]
  from t demo_calls_finish show ?thesis by blast
qed

text \<open>C23 (splice\_finishes): as long as the kernel's calls make progress, the copy ends, successfully and
with everything delivered both ways: two calls per byte of a direction and two more are
enough, in whatever order the calls of the two directions come.\<close>

theorem splice_finishes:
  assumes "0 < pipe_capacity (fst pipes)" "0 < pipe_capacity (snd pipes)"
    and "list_all (\<lambda>(_, _, r). progress r) calls"
    and "2 * length from_client + 2 \<le> calls_of ToUpstream calls"
    and "2 * length from_upstream + 2 \<le> calls_of ToClient calls"
    and "s = copy_bidirectional pipes calls (copy_start from_client from_upstream c act)"
  shows "copy_result s = Some (Ok ()) \<and> d_dst (snd (cp_up s)) = from_client \<and>
    d_dst (snd (cp_down s)) = from_upstream"
  using assms by (rule copy_finishes)

theorem splice_finishes_witness:
  "d_dst (snd (cp_down (copy_bidirectional (\<lparr>pipe_capacity = 2\<rparr>, \<lparr>pipe_capacity = 2\<rparr>) demo_calls
     (copy_start [1, 2, 3] [4] counters_default None)))) = [4]"
proof -
  have "list_all (\<lambda>(_, _, r). progress r) demo_calls" "2 * length [1, 2, 3 :: byte] + 2 \<le> calls_of ToUpstream demo_calls"
    "2 * length [4 :: byte] + 2 \<le> calls_of ToClient demo_calls"
    by (simp_all add: demo_calls_def)
  from splice_finishes [OF _ _ this refl, of "(\<lparr>pipe_capacity = 2\<rparr>, \<lparr>pipe_capacity = 2\<rparr>)"] show ?thesis
    by simp
qed

text \<open>Without an override, the pipes of all admitted connections together never take
more than half of the file descriptor limit; each permit taken lowers the budget by one, and
a connection that ends up on the portable copy holds none.\<close>

theorem splice_fd_budget:
  "(\<exists>adm. admission_new None (Some limit) = Some adm \<and> 2 * (FDS_PER_SPLICE_CONNECTION * adm_permits adm) \<le> limit) \<and>
   (case copy_choice avail (Some adm) prepared of
      Some (SpliceCopy pipes, adm') \<Rightarrow>
        avail \<and> prepared = Ok pipes \<and> (\<exists>a. adm' = Some a \<and> adm_permits adm = adm_permits a + 1)
    | Some (PortableCopy, adm') \<Rightarrow> adm' = Some adm
    | None \<Rightarrow> False)"
proof
  have "8 * (limit div 8) \<le> limit" by (rule times_div_less_eq_dividend)
  then show "\<exists>adm. admission_new None (Some limit) = Some adm \<and>
      2 * (FDS_PER_SPLICE_CONNECTION * adm_permits adm) \<le> limit"
    using splice_permits_fit [of limit]
    by (auto simp: admission_new_def nofile_soft_limit_def admission_capacity_def semaphore_new_def
        splice_permits_def div_mult2_eq [symmetric] MAX_SPLICE_FD_SHARE_def FDS_PER_SPLICE_CONNECTION_def
        MAX_PERMITS_def)
  show "case copy_choice avail (Some adm) prepared of
      Some (SpliceCopy pipes, adm') \<Rightarrow>
        avail \<and> prepared = Ok pipes \<and> (\<exists>a. adm' = Some a \<and> adm_permits adm = adm_permits a + 1)
    | Some (PortableCopy, adm') \<Rightarrow> adm' = Some adm
    | None \<Rightarrow> False"
    by (cases prepared) (auto simp: copy_choice_def try_acquire_def permit_drop_def)
qed

end
