(* ===== verification/Connection.thy ===== *)
theory Connection
  imports Hello_Reader Hello_Builder Metrics Proxy_Gate Splice "HOL-Library.Sublist"
begin

text \<open>
  One connection's pipeline (\<open>delivery/connection.rs\<close>): read the hello, route, connect and
  replay, pass the gate, proxy. The network (connecting, writing, the copy of the proxy
  stage), the route store and the system resolver are not part of the sources: they are
  fields of \<open>conn_world\<close>, one outcome per call, and so is which of a stage, its deadline and
  the shutdown token comes first. A panic of the task is the outcome \<^term>\<open>None\<close>: of a lookup that
  panics, of the splice budget when it cannot be created, or of a counter that would underflow.
\<close>

section \<open>Waiting\<close>

datatype race = Ready | DeadlineFirst | CancelFirst

text \<open>\<open>cancellable(cancel, timeout(d, future))\<close>; a pending future loses to its deadline.\<close>

definition await_stage :: "race \<Rightarrow> 'a option \<Rightarrow> 'a timed option" where
  "await_stage r future =
     (case r of
        CancelFirst \<Rightarrow> None
      | DeadlineFirst \<Rightarrow> Some Elapsed
      | Ready \<Rightarrow> (case future of None \<Rightarrow> Some Elapsed | Some a \<Rightarrow> Some (Done a)))"

section \<open>Connecting upstream\<close>

fun connect_any ::
    "(socket_addr \<Rightarrow> (unit, io_error) result) \<Rightarrow> socket_addr list \<Rightarrow> io_error option \<Rightarrow>
     (socket_addr, io_error) result" where
  "connect_any connect [] last_error =
     Err (case last_error of
            Some e \<Rightarrow> e
          | None \<Rightarrow> \<lparr>io_kind = IoNotFound, io_message = ''no addresses to connect to''\<rparr>)"
| "connect_any connect (addr # addrs) last_error =
     (case connect addr of
        Ok _ \<Rightarrow> Ok addr
      | Err e \<Rightarrow> connect_any connect addrs (Some e))"

text \<open>
  \<open>w_lookup_panics\<close>: the candidates at which the store's lookup panics. \<open>w_forced\<close> and \<open>w_idle\<close> are what
  the proxy stage finds of the force token and the watchdog when it is first polled, the next three
  fields what \<open>copy\<close> is then told of \<open>splice\<close>, \<open>w_proxy\<close> how the stage ends once the copy runs.
\<close>

record conn_world =
  w_listener :: listener_info
  w_client :: "io_error stream"
  w_hello_race :: race
  w_lookup :: "route_candidates \<Rightarrow> load_result timed"
  w_lookup_panics :: "route_candidates \<Rightarrow> bool"
  w_lookup_cancelled :: bool
  w_resolve :: "dns_key \<Rightarrow> dns_outcome"
  w_connect :: "socket_addr \<Rightarrow> (unit, io_error) result"
  w_nodelay :: "(unit, io_error) result"
  w_write :: "(unit, io_error) result"
  w_upstream_race :: race
  w_gate :: gate_state
  w_forced :: bool
  w_idle :: bool
  w_splice_available :: bool
  w_admission :: "admission option"
  w_pipes :: "(pipe \<times> pipe, io_error) result"
  w_proxy :: proxy_end
  w_alert_race :: race
  w_alert_write :: "(unit, io_error) result"
  w_alert_shutdown :: "(unit, io_error) result"
  w_alert_sent :: nat

text \<open>The upstream connection: the address and what was written to it.\<close>

definition connect_and_replay ::
    "conn_world \<Rightarrow> backend \<Rightarrow> byte list \<Rightarrow> (socket_addr \<times> byte list, io_error) result" where
  "connect_and_replay w b buffered =
     bind_ok
       (case backend_host b of
          Ip ip \<Rightarrow> map_ok (\<lambda>_. (ip, backend_port b)) (w_connect w (ip, backend_port b))
        | Dns name \<Rightarrow>
            bind_ok (w_resolve w (name, backend_port b)) (\<lambda>addrs. connect_any (w_connect w) addrs None))
       (\<lambda>addr. bind_ok (w_nodelay w) (\<lambda>_. bind_ok (w_write w) (\<lambda>_. Ok (addr, buffered))))"

fun lookup_outcome_of :: "('a, route_error) result \<Rightarrow> lookup_outcome" where
  "lookup_outcome_of (Ok _) = LookupFound"
| "lookup_outcome_of (Err NotFound) = LookupNotFound"
| "lookup_outcome_of (Err (Lookup _)) = LookupErrored"
| "lookup_outcome_of (Err Timeout) = LookupTimedOut"

definition UNRECOGNIZED_NAME_ALERT :: "byte list" where
  "UNRECOGNIZED_NAME_ALERT = [0x15, 0x03, 0x03, 0x00, 0x02, 0x02, 0x70]"

text \<open>
  The bytes of the alert that reached the client, and whether the client's socket was then half
  closed. A write that fails or is cut off has passed on its first \<open>w_alert_sent\<close> bytes.
\<close>

definition reject_unrecognized_name :: "conn_world \<Rightarrow> byte list \<times> bool" where
  "reject_unrecognized_name w =
     (let part = take (w_alert_sent w) UNRECOGNIZED_NAME_ALERT
      in case await_stage (w_alert_race w) (Some (bind_ok (w_alert_write w) (\<lambda>_. w_alert_shutdown w))) of
           Some (Done (Ok _)) \<Rightarrow> (UNRECOGNIZED_NAME_ALERT, True)
         | Some (Done (Err _)) \<Rightarrow>
             (if is_ok (w_alert_write w) then UNRECOGNIZED_NAME_ALERT else part, False)
         | _ \<Rightarrow> (part, False))"

definition alert_ok :: "conn_world \<Rightarrow> (byte list \<times> bool) option \<Rightarrow> bool" where
  "alert_ok w alert \<longleftrightarrow>
     (case alert of
        None \<Rightarrow> True
      | Some (sent, half_closed) \<Rightarrow>
          prefix sent UNRECOGNIZED_NAME_ALERT \<and>
          (sent = UNRECOGNIZED_NAME_ALERT \<or>
             \<not> half_closed \<and> (w_alert_race w \<noteq> Ready \<or> w_alert_write w \<noteq> Ok ())))"

lemma alert_ok_reject: "alert_ok w (Some (reject_unrecognized_name w))"
  by (cases "w_alert_race w"; cases "w_alert_write w"; cases "w_alert_shutdown w")
    (auto simp: alert_ok_def reject_unrecognized_name_def await_stage_def take_is_prefix)

section \<open>The pipeline\<close>

text \<open>
  What a run leaves behind: the metric events in order, the name and backend for the log,
  what was sent of the alert if it was attempted, the upstream connection, and the unread client stream.
\<close>

record conn_log =
  log_events :: "metric_event list"
  log_sni :: "hostname option"
  log_backend :: "backend option"
  log_alert :: "(byte list \<times> bool) option"
  log_upstream :: "(socket_addr \<times> byte list) option"
  log_unread :: "io_error stream"
  log_gate :: gate_state

definition log_start :: "conn_world \<Rightarrow> conn_log" where
  "log_start w = \<lparr>log_events = [], log_sni = None, log_backend = None, log_alert = None,
     log_upstream = None, log_unread = w_client w, log_gate = w_gate w\<rparr>"

fun proxy_outcome :: "proxy_end \<Rightarrow> connection_outcome" where
  "proxy_outcome ProxyFinished = Proxied"
| "proxy_outcome (ProxyFailed _) = ProxyError"
| "proxy_outcome ProxyIdle = IdleTimeout"
| "proxy_outcome ProxyForced = ShutdownForced"

text \<open>
  The call of \<open>proxy\<close>: its first poll looks at the force token and the watchdog before it polls the
  copy, which then chooses its path; \<^term>\<open>None\<close> is a panic of \<open>admission()\<close> there.
\<close>

definition proxy_stage :: "conn_world \<Rightarrow> proxy_end option" where
  "proxy_stage w =
     (case proxy_poll (w_forced w) (w_idle w) None of
        Some end_now \<Rightarrow> Some end_now
      | None \<Rightarrow>
          (case copy_choice (w_splice_available w) (w_admission w) (w_pipes w) of
             None \<Rightarrow> None
           | Some _ \<Rightarrow> Some (w_proxy w)))"

text \<open>
  The pass is dropped when the proxy stage returns or panics; \<^term>\<open>None\<close> is the panic, or an underflow
  of the gate's counter.
\<close>

definition run_proxy :: "conn_world \<Rightarrow> conn_log \<Rightarrow> connection_outcome option \<times> conn_log" where
  "run_proxy w lg =
     (case gate_enter (log_gate lg) of
        (False, _) \<Rightarrow> (Some ShutdownCancelled, lg)
      | (True, g) \<Rightarrow>
          (case pass_drop g of
             None \<Rightarrow> (None, lg\<lparr>log_gate := g\<rparr>)
           | Some g' \<Rightarrow> (map_option proxy_outcome (proxy_stage w), lg\<lparr>log_gate := g'\<rparr>)))"

definition run_upstream ::
    "conn_world \<Rightarrow> route_match \<Rightarrow> byte list \<Rightarrow> conn_log \<Rightarrow> connection_outcome option \<times> conn_log" where
  "run_upstream w route buffered lg =
     (case await_stage (w_upstream_race w)
             (Some (connect_and_replay w (match_backend route) buffered)) of
        None \<Rightarrow> (Some ShutdownCancelled, lg)
      | Some reached \<Rightarrow>
          (let ok = (case reached of Done (Ok _) \<Rightarrow> True | _ \<Rightarrow> False);
               lg' = lg\<lparr>log_events := log_events lg @ [UpstreamConnect (w_listener w) ok]\<rparr>
           in case reached of
                Done (Ok upstream) \<Rightarrow> run_proxy w (lg'\<lparr>log_upstream := Some upstream\<rparr>)
              | Done (Err _) \<Rightarrow> (Some UpstreamConnectFailed, lg')
              | Elapsed \<Rightarrow> (Some UpstreamTimeout, lg')))"

definition run_lookup ::
    "conn_world \<Rightarrow> hostname \<Rightarrow> byte list \<Rightarrow> conn_log \<Rightarrow> connection_outcome option \<times> conn_log" where
  "run_lookup w host buffered lg =
     (if w_lookup_cancelled w then (Some ShutdownCancelled, lg)
      else if w_lookup_panics w (candidate_keys host) then (None, lg)
      else let resolved = resolve_route (w_lookup w) host;
               lg' = lg\<lparr>log_events := log_events lg @ [RouteLookup (w_listener w) (lookup_outcome_of resolved)]\<rparr>
      in case resolved of
           Ok route \<Rightarrow> run_upstream w route buffered (lg'\<lparr>log_backend := Some (match_backend route)\<rparr>)
         | Err NotFound \<Rightarrow> (Some UnknownHost, lg'\<lparr>log_alert := Some (reject_unrecognized_name w)\<rparr>)
         | Err (Lookup _) \<Rightarrow> (Some LookupFailed, lg')
         | Err Timeout \<Rightarrow> (Some LookupTimeout, lg'))"

definition run_connection ::
    "hello_limits \<Rightarrow> conn_world \<Rightarrow> connection_outcome option \<times> conn_log" where
  "run_connection limits w =
     (let lg = log_start w
      in case await_stage (w_hello_race w) (read_client_hello (w_client w) limits) of
           None \<Rightarrow> (Some ShutdownCancelled, lg)
         | Some Elapsed \<Rightarrow> (Some HelloTimeout, lg)
         | Some (Done (None, s)) \<Rightarrow> (None, lg\<lparr>log_unread := s\<rparr>)
         | Some (Done (Some (Err (Parse _)), s)) \<Rightarrow> (Some InvalidHello, lg\<lparr>log_unread := s\<rparr>)
         | Some (Done (Some (Err Closed), s)) \<Rightarrow> (Some ClientClosed, lg\<lparr>log_unread := s\<rparr>)
         | Some (Done (Some (Err (Io _)), s)) \<Rightarrow> (Some ClientClosed, lg\<lparr>log_unread := s\<rparr>)
         | Some (Done (Some (Ok (buf, hello)), s)) \<Rightarrow>
             (case info_sni hello of
                None \<Rightarrow> (Some MissingSni, lg\<lparr>log_unread := s, log_alert := Some (reject_unrecognized_name w)\<rparr>)
              | Some host \<Rightarrow>
                  run_lookup w host (rb_bytes buf) (lg\<lparr>log_unread := s, log_sni := Some host\<rparr>)))"

section \<open>The record of a connection\<close>

text \<open>\<open>Drop for ConnectionRecord\<close>, with the byte totals of the metered stream.\<close>

definition record_drop ::
    "listener_info \<Rightarrow> connection_outcome option \<Rightarrow> nat \<Rightarrow> nat \<Rightarrow> metric_event list" where
  "record_drop listener outcome bytes_read bytes_written =
     (if bytes_read > 0 then [BytesRead listener bytes_read] else []) @
     (if bytes_written > 0 then [BytesWritten listener bytes_written] else []) @
     [ConnectionClosed listener (case outcome of Some x \<Rightarrow> x | None \<Rightarrow> Aborted)]"

text \<open>
  \<open>aborted = Some n\<close> is a task that was aborted after its first \<open>n\<close> events; the record is
  dropped then too.
\<close>

definition handle_connection ::
    "hello_limits \<Rightarrow> conn_world \<Rightarrow> nat option \<Rightarrow> nat \<Rightarrow> nat \<Rightarrow> metric_event list" where
  "handle_connection limits w aborted bytes_read bytes_written =
     (let (outcome, lg) = run_connection limits w
      in case aborted of
           None \<Rightarrow>
             ConnectionOpened (w_listener w) # log_events lg @
             record_drop (w_listener w) outcome bytes_read bytes_written
         | Some n \<Rightarrow>
             ConnectionOpened (w_listener w) # take n (log_events lg) @
             record_drop (w_listener w) None bytes_read bytes_written)"

section \<open>Facts about the stages\<close>

lemma connect_any_Ok:
  "connect_any connect addrs last_error = Ok a \<longleftrightarrow>
   (\<exists>before after. addrs = before @ a # after \<and> connect a = Ok () \<and>
      (\<forall>x \<in> set before. \<not> is_ok (connect x)))"
proof (induction addrs arbitrary: last_error)
  case (Cons x addrs)
  show ?case
  proof (cases "connect x")
    case (Ok u)
    then show ?thesis by (auto simp: Cons_eq_append_conv)
  next
    case (Err e)
    have "(\<exists>before after. x # addrs = before @ a # after \<and> connect a = Ok () \<and>
          (\<forall>y \<in> set before. \<not> is_ok (connect y))) \<longleftrightarrow>
        (\<exists>before after. addrs = before @ a # after \<and> connect a = Ok () \<and>
          (\<forall>y \<in> set before. \<not> is_ok (connect y)))" (is "?l \<longleftrightarrow> ?r")
    proof
      assume ?l
      with Err show ?r by (auto simp: Cons_eq_append_conv)
    next
      assume ?r
      then obtain before after where "addrs = before @ a # after" "connect a = Ok ()"
        "\<forall>y \<in> set before. \<not> is_ok (connect y)" by blast
      with Err show ?l by (intro exI [of _ "x # before"] exI [of _ after]) simp
    qed
    with Err Cons.IH show ?thesis by simp
  qed
qed simp

lemma connect_any_Err:
  "connect_any connect addrs last_error = Err e \<longleftrightarrow>
   (\<forall>x \<in> set addrs. \<not> is_ok (connect x)) \<and>
   (if addrs = [] then e = (case last_error of Some e \<Rightarrow> e
      | None \<Rightarrow> \<lparr>io_kind = IoNotFound, io_message = ''no addresses to connect to''\<rparr>)
    else connect (last addrs) = Err e)"
proof (induction addrs arbitrary: last_error)
  case (Cons x addrs)
  then show ?case by (cases "connect x") auto
qed auto

lemma connect_and_replay_Ok:
  assumes "connect_and_replay w b buffered = Ok (addr, bytes)"
  shows "bytes = buffered \<and> w_connect w addr = Ok () \<and>
    (case backend_host b of
       Ip ip \<Rightarrow> addr = (ip, backend_port b)
     | Dns name \<Rightarrow> \<exists>addrs. w_resolve w (name, backend_port b) = Ok addrs \<and> addr \<in> set addrs)"
  using assms
  by (auto simp: connect_and_replay_def bind_ok_eq_Ok map_ok_eq_Ok connect_any_Ok
      split: backend_host.splits)

text \<open>What the last two stages add to a log, and how the run then ends.\<close>

definition proxied_outcomes :: "connection_outcome set" where
  "proxied_outcomes = {Proxied, ProxyError, IdleTimeout, ShutdownForced}"

lemma proxy_outcome_mem: "proxy_outcome e \<in> proxied_outcomes"
  by (cases e) (simp_all add: proxied_outcomes_def)

lemma proxy_outcome_alerts: "proxy_outcome e \<noteq> MissingSni \<and> proxy_outcome e \<noteq> UnknownHost"
  by (cases e) simp_all

lemma proxy_stage_None:
  "proxy_stage w = None \<longleftrightarrow> \<not> w_forced w \<and> \<not> w_idle w \<and> w_splice_available w \<and> w_admission w = None"
  using copy_choice_None [of "w_splice_available w" "w_admission w" "w_pipes w"]
  by (auto simp: proxy_stage_def proxy_poll_def split: option.splits)

lemma run_proxy_spec:
  assumes "run_proxy w lg = (r, lg')"
  shows "log_events lg' = log_events lg \<and> log_sni lg' = log_sni lg \<and> log_backend lg' = log_backend lg \<and>
    log_alert lg' = log_alert lg \<and> log_upstream lg' = log_upstream lg \<and> log_unread lg' = log_unread lg \<and>
    log_gate lg' = log_gate lg \<and>
    r = (if gate_closed (log_gate lg) then Some ShutdownCancelled
         else map_option proxy_outcome (proxy_stage w))"
  using assms by (auto simp: run_proxy_def gate_enter_def pass_drop_def split: if_splits)

lemma run_upstream_cases:
  assumes "run_upstream w route buffered lg = (r, lg')"
  obtains (cancelled) "r = Some ShutdownCancelled" "lg' = lg"
  | (failed) out where "r = Some out" "out \<in> {UpstreamConnectFailed, UpstreamTimeout}"
      "lg' = lg\<lparr>log_events := log_events lg @ [UpstreamConnect (w_listener w) False]\<rparr>"
  | (connected) up where "connect_and_replay w (match_backend route) buffered = Ok up"
      "run_proxy w (lg\<lparr>log_events := log_events lg @ [UpstreamConnect (w_listener w) True],
         log_upstream := Some up\<rparr>) = (r, lg')"
  using assms
  by (cases "w_upstream_race w"; cases "connect_and_replay w (match_backend route) buffered")
    (auto simp: run_upstream_def await_stage_def Let_def)

lemma run_lookup_cases:
  assumes "run_lookup w host buffered lg = (r, lg')"
  obtains (cancelled) "r = Some ShutdownCancelled" "lg' = lg" "w_lookup_cancelled w"
  | (panicked) "r = None" "lg' = lg" "\<not> w_lookup_cancelled w" "w_lookup_panics w (candidates_for_hostname host)"
  | (unknown) "r = Some UnknownHost" "\<not> w_lookup_panics w (candidates_for_hostname host)" "resolve_route (w_lookup w) host = Err NotFound"
      "lg' = lg\<lparr>log_events := log_events lg @ [RouteLookup (w_listener w) LookupNotFound], log_alert := Some (reject_unrecognized_name w)\<rparr>"
  | (failed) out ev where "r = Some out" "out \<in> {LookupFailed, LookupTimeout}"
      "\<not> w_lookup_panics w (candidates_for_hostname host)"
      "lg' = lg\<lparr>log_events := log_events lg @ [RouteLookup (w_listener w) ev]\<rparr>"
  | (routed) route where "\<not> w_lookup_panics w (candidates_for_hostname host)" "resolve_route (w_lookup w) host = Ok route"
      "run_upstream w route buffered
         (lg\<lparr>log_events := log_events lg @ [RouteLookup (w_listener w) LookupFound],
             log_backend := Some (match_backend route)\<rparr>) = (r, lg')"
proof (cases "w_lookup_cancelled w")
  case True
  with assms that(1) show thesis by (simp add: run_lookup_def)
next
  case False
  show thesis
  proof (cases "w_lookup_panics w (candidates_for_hostname host)")
    case True
    with False assms that(2) show thesis by (simp add: run_lookup_def)
  next
    case calm: False
    show thesis
    proof (cases "resolve_route (w_lookup w) host")
      case (Ok route)
      with calm False assms that(5) show thesis by (simp add: run_lookup_def)
    next
      case (Err e)
      with calm False assms that(3,4) show thesis by (cases e) (auto simp: run_lookup_def)
    qed
  qed
qed

lemma run_connection_cases:
  assumes "run_connection limits w = (r, lg)"
  obtains (early) out s where "r = Some out" "lg = (log_start w)\<lparr>log_unread := s\<rparr>"
      "out \<in> {ShutdownCancelled, HelloTimeout, InvalidHello, ClientClosed}"
  | (nameless) s where "r = Some MissingSni" "lg = (log_start w)\<lparr>log_unread := s, log_alert := Some (reject_unrecognized_name w)\<rparr>"
  | (named) buf hello s host where
      "read_client_hello (w_client w) limits = Some (Some (Ok (buf, hello)), s)" "info_sni hello = Some host"
      "run_lookup w host (rb_bytes buf) ((log_start w)\<lparr>log_unread := s, log_sni := Some host\<rparr>) = (r, lg)"
proof (cases "await_stage (w_hello_race w) (read_client_hello (w_client w) limits)")
  case None
  with assms show thesis
    by (intro early [of ShutdownCancelled "w_client w"]) (auto simp: run_connection_def log_start_def)
next
  case (Some x)
  show thesis
  proof (cases x)
    case Elapsed
    with Some assms show thesis
      by (intro early [of HelloTimeout "w_client w"]) (auto simp: run_connection_def log_start_def)
  next
    case (Done y)
    then have read: "read_client_hello (w_client w) limits = Some y"
      using Some by (auto simp: await_stage_def split: race.splits option.splits)
    from read_client_hello_agrees [of limits "w_client w", unfolded read]
    show thesis
    proof (cases rule: read_agreesE)
      case (failed e s)
      with Some Done assms show thesis by (cases e) (auto simp: run_connection_def intro: early)
    next
      case (hello b info s)
      with Some Done assms read show thesis
        by (cases "info_sni info") (auto simp: run_connection_def intro: nameless named)
    qed simp
  qed
qed

section \<open>What a run leaves behind\<close>

definition stage_events :: "listener_info \<Rightarrow> metric_event list \<Rightarrow> bool" where
  "stage_events li evs \<longleftrightarrow>
     evs = [] \<or> (\<exists>found. evs = [RouteLookup li found]) \<or>
     (\<exists>ok. evs = [RouteLookup li LookupFound, UpstreamConnect li ok])"

definition lookup_panicked :: "conn_world \<Rightarrow> conn_log \<Rightarrow> bool" where
  "lookup_panicked w lg \<longleftrightarrow>
     (\<exists>host. log_sni lg = Some host \<and> \<not> w_lookup_cancelled w \<and> w_lookup_panics w (candidates_for_hostname host))"

definition enters_proxy :: "conn_world \<Rightarrow> conn_log \<Rightarrow> bool" where
  "enters_proxy w lg \<longleftrightarrow> log_upstream lg \<noteq> None \<and> \<not> gate_closed (w_gate w)"

definition run_ok :: "conn_world \<Rightarrow> connection_outcome option \<Rightarrow> conn_log \<Rightarrow> bool" where
  "run_ok w r lg \<longleftrightarrow>
     stage_events (w_listener w) (log_events lg) \<and>
     log_alert lg = (if r \<in> {Some MissingSni, Some UnknownHost} then Some (reject_unrecognized_name w) else None) \<and>
     (log_upstream lg \<noteq> None \<longleftrightarrow> UpstreamConnect (w_listener w) True \<in> set (log_events lg)) \<and>
     (r \<in> Some ` proxied_outcomes \<longleftrightarrow> enters_proxy w lg \<and> proxy_stage w \<noteq> None) \<and>
     (r = None \<longleftrightarrow> lookup_panicked w lg \<or> enters_proxy w lg \<and> proxy_stage w = None) \<and>
     log_gate lg = w_gate w"

lemmas run_ok_simps = run_ok_def stage_events_def proxied_outcomes_def lookup_panicked_def enters_proxy_def

lemma run_upstream_ok:
  assumes "run_upstream w route buffered lg = (r, lg')" "log_events lg = [RouteLookup (w_listener w) LookupFound]"
    "log_alert lg = None" "log_upstream lg = None" "log_gate lg = w_gate w" "\<not> lookup_panicked w lg"
  shows "run_ok w r lg'"
  using assms(1)
proof (cases rule: run_upstream_cases)
  case cancelled
  with assms(2-6) show ?thesis by (auto simp: run_ok_simps)
next
  case (failed out)
  with assms(2-6) show ?thesis by (auto simp: run_ok_simps)
next
  case (connected up)
  from run_proxy_spec [OF connected(2)] assms(2-6) show ?thesis
    by (cases "gate_closed (w_gate w)"; cases "proxy_stage w")
      (auto simp: run_ok_simps proxy_outcome_mem [unfolded proxied_outcomes_def, simplified] proxy_outcome_alerts)
qed

lemma run_connection_ok:
  assumes "run_connection limits w = (r, lg)"
  shows "run_ok w r lg"
  using assms
proof (cases rule: run_connection_cases)
  case (early out s)
  then show ?thesis by (auto simp: run_ok_simps log_start_def)
next
  case (nameless s)
  then show ?thesis by (auto simp: run_ok_simps log_start_def)
next
  case (named buf hello s host)
  from named(3) show ?thesis
  proof (cases rule: run_lookup_cases)
    case (routed route)
    from run_upstream_ok [OF routed(3)] routed(1) show ?thesis by (simp add: log_start_def lookup_panicked_def)
  qed (auto simp: run_ok_simps log_start_def)
qed

lemma run_connection_upstream:
  assumes "run_connection limits w = (r, lg)" "log_upstream lg = Some (addr, bytes)"
  shows "\<exists>buf hello s host route.
    read_client_hello (w_client w) limits = Some (Some (Ok (buf, hello)), s) \<and>
    info_sni hello = Some host \<and> resolve_route (w_lookup w) host = Ok route \<and>
    connect_and_replay w (match_backend route) (rb_bytes buf) = Ok (addr, bytes) \<and>
    log_sni lg = Some host \<and> log_backend lg = Some (match_backend route) \<and> log_unread lg = s"
  using assms(1)
proof (cases rule: run_connection_cases)
  case (named buf hello s host)
  from named(3) show ?thesis
  proof (cases rule: run_lookup_cases)
    case (routed route)
    from routed(3) show ?thesis
    proof (cases rule: run_upstream_cases)
      case (connected up)
      from run_proxy_spec [OF connected(2)] assms(2) named routed(2) connected(1) show ?thesis by auto
    qed (use assms(2) in \<open>auto simp: log_start_def\<close>)
  qed (use assms(2) in \<open>auto simp: log_start_def\<close>)
qed (use assms(2) in \<open>auto simp: log_start_def\<close>)

lemma upstream_transparent:
  assumes "run_connection limits w = (r, lg)" "log_upstream lg = Some (addr, bytes)"
  shows "\<exists>info host route. bytes @ stream_data (log_unread lg) = stream_data (w_client w) \<and>
    parse_client_hello bytes limits = Some (Ok info) \<and> info_sni info = Some host \<and>
    resolve_route (w_lookup w) host = Ok route \<and> connect_and_replay w (match_backend route) bytes = Ok (addr, bytes)"
proof -
  obtain buf hello s host route where
    read: "read_client_hello (w_client w) limits = Some (Some (Ok (buf, hello)), s)"
    and sni: "info_sni hello = Some host" and route: "resolve_route (w_lookup w) host = Ok route"
    and up: "connect_and_replay w (match_backend route) (rb_bytes buf) = Ok (addr, bytes)"
    and unread: "log_unread lg = s"
    using run_connection_upstream [OF assms] by blast
  from read_client_hello_agrees [of limits "w_client w"]
  have "rb_bytes buf @ stream_data s = stream_data (w_client w)"
    "parse_client_hello (rb_bytes buf) limits = Some (Ok hello)"
    by (simp_all add: read read_agrees_def parse_client_hello_eq)
  moreover from connect_and_replay_Ok [OF up] have "rb_bytes buf = bytes" by simp
  ultimately show ?thesis using up sni route unread by auto
qed

text \<open>A run that connected upstream lost no race on its way.\<close>

lemma run_lookup_races:
  assumes "run_lookup w host buffered lg = (r, lg')" "log_upstream lg = None" "log_upstream lg' \<noteq> None"
  shows "\<not> w_lookup_cancelled w \<and> \<not> w_lookup_panics w (candidates_for_hostname host) \<and> w_upstream_race w = Ready"
  using assms
  by (auto simp: run_lookup_def run_upstream_def await_stage_def Let_def
      split: if_splits result.splits route_error.splits race.splits)

lemma run_connection_races:
  assumes "run_connection limits w = (r, lg)" "log_upstream lg = Some up"
  shows "w_hello_race w = Ready \<and> \<not> w_lookup_cancelled w \<and> w_upstream_race w = Ready \<and>
    (\<forall>host. log_sni lg = Some host \<longrightarrow> \<not> w_lookup_panics w (candidates_for_hostname host))"
proof -
  have "w_hello_race w = Ready"
    using assms by (cases "w_hello_race w") (auto simp: run_connection_def await_stage_def log_start_def Let_def)
  moreover from assms(1) have "\<not> w_lookup_cancelled w \<and> w_upstream_race w = Ready \<and>
      (\<forall>host. log_sni lg = Some host \<longrightarrow> \<not> w_lookup_panics w (candidates_for_hostname host))"
  proof (cases rule: run_connection_cases)
    case (named buf hello s host)
    from run_connection_upstream [OF assms(1), of "fst up" "snd up"] assms(2) named(1,2)
    have "log_sni lg = Some host" by auto
    with run_lookup_races [OF named(3)] assms(2) show ?thesis by (simp add: log_start_def)
  qed (use assms(2) in \<open>auto simp: log_start_def\<close>)
  ultimately show ?thesis by blast
qed

section \<open>A connection for the demonstration route\<close>

definition demo_wire :: "byte list" where
  "demo_wire = the (builder_build (builder_sni builder_new ''w.x.y''))"

definition demo_world :: conn_world where
  "demo_world = \<lparr>w_listener = listener_tcp (V4 [127, 0, 0, 1], 443), w_client = [Arrive demo_wire],
     w_hello_race = Ready, w_lookup = (\<lambda>c. Done (Ok (mem_hits demo_table c))), w_lookup_panics = (\<lambda>_. False),
     w_lookup_cancelled = False,
     w_resolve = (\<lambda>_. Ok [(V4 [10, 0, 0, 1], 443)]), w_connect = (\<lambda>_. Ok ()), w_nodelay = Ok (),
     w_write = Ok (), w_upstream_race = Ready, w_gate = gate_new, w_forced = False, w_idle = False,
     w_splice_available = False, w_admission = admission_new None (Some 1024), w_pipes = prepare 8192 (Ok (), 8192) (Ok (), 8192),
     w_proxy = ProxyFinished, w_alert_race = Ready,
     w_alert_write = Ok (), w_alert_shutdown = Ok (), w_alert_sent = 0\<rparr>"

lemma demo_hostname: "hostname_parse ''w.x.y'' = Ok (Hostname ''w.x.y'')"
proof -
  have "dns_name ''w.x.y''" by code_simp
  moreover have "parse_ip_addr ''w.x.y'' = None" by (rule parse_ip_addr_None) code_simp+
  ultimately show ?thesis
    using hostname_parse_valid [of "Hostname ''w.x.y''"] by (simp add: valid_hostname_def)
qed

lemma demo_route:
  "resolve_route (\<lambda>c. Done (Ok (mem_hits demo_table c))) (Hostname ''w.x.y'') =
     Ok \<lparr>match_key = demo_key, match_backend = demo_backend\<rparr>"
proof -
  have "route_key_wildcard_for (Hostname ''w.x.y'') = Some demo_key" by code_simp
  then show ?thesis
    by (simp add: mem.wildcard_second demo_table_get route_key_exact_def demo_key_def)
qed

lemma demo_read:
  "\<exists>buf s. read_client_hello (w_client demo_world) hello_limits_default =
     Some (Some (Ok (buf, \<lparr>info_sni = Some (Hostname ''w.x.y''), info_consumed = length demo_wire\<rparr>)), s)"
proof -
  obtain wire where wire: "builder_build (builder_sni builder_new ''w.x.y'') = Some wire"
    "parse_client_hello wire hello_limits_default =
       Some (Ok \<lparr>info_sni = Some (Hostname ''w.x.y''), info_consumed = length wire\<rparr>)"
    "length wire \<le> max_wire_bytes hello_limits_default"
    using builder_sni_wire [OF demo_hostname] by blast
  then have "hello_verdict hello_limits_default (max_wire_bytes hello_limits_default)
      (stream_data (w_client demo_world)) (stream_end (w_client demo_world)) =
      Some (Ok \<lparr>info_sni = Some (Hostname ''w.x.y''), info_consumed = length demo_wire\<rparr>)"
    by (simp add: demo_world_def demo_wire_def hello_verdict_def parse_client_hello_eq)
  with read_client_hello_agrees [of hello_limits_default "w_client demo_world"] show ?thesis
    by (elim read_agreesE) auto
qed

lemma demo_run:
  "\<exists>lg bytes. run_connection hello_limits_default demo_world = (Some Proxied, lg) \<and>
     log_upstream lg = Some ((V4 [10, 0, 0, 1], 443), bytes)"
proof -
  obtain buf s where read: "read_client_hello (w_client demo_world) hello_limits_default =
      Some (Some (Ok (buf, \<lparr>info_sni = Some (Hostname ''w.x.y''), info_consumed = length demo_wire\<rparr>)), s)"
    using demo_read by blast
  have "connect_and_replay demo_world demo_backend (rb_bytes buf) = Ok ((V4 [10, 0, 0, 1], 443), rb_bytes buf)"
    by (simp add: connect_and_replay_def demo_backend_def demo_world_def)
  moreover have "w_hello_race demo_world = Ready" "w_upstream_race demo_world = Ready"
    "\<not> w_lookup_cancelled demo_world" "w_gate demo_world = gate_new" "proxy_stage demo_world = Some ProxyFinished"
    "w_lookup demo_world = (\<lambda>c. Done (Ok (mem_hits demo_table c)))" "w_lookup_panics demo_world = (\<lambda>_. False)"
    by (simp_all add: demo_world_def proxy_stage_def proxy_poll_def copy_choice_def)
  ultimately show ?thesis
    by (simp add: run_connection_def await_stage_def read run_lookup_def demo_route run_upstream_def
        run_proxy_def gate_enter_def pass_drop_def gate_new_def log_start_def Let_def)
qed

text \<open>The events of a connection's task, however it ends.\<close>

definition byte_totals :: "listener_info \<Rightarrow> nat \<Rightarrow> nat \<Rightarrow> metric_event list" where
  "byte_totals li n k =
     (if n > 0 then [BytesRead li n] else []) @ (if k > 0 then [BytesWritten li k] else [])"

lemma handle_connection_split:
  obtains shown out where
    "handle_connection limits w aborted n k =
       ConnectionOpened (w_listener w) # (shown @ byte_totals (w_listener w) n k) @
       [ConnectionClosed (w_listener w) out]"
    "\<And>e. e \<in> set shown \<Longrightarrow>
       (\<exists>found. e = RouteLookup (w_listener w) found) \<or> (\<exists>b. e = UpstreamConnect (w_listener w) b)"
    "aborted \<noteq> None \<longrightarrow> out = Aborted"
proof -
  obtain r lg where run: "run_connection limits w = (r, lg)" by fastforce
  from run_connection_ok [OF this] have st: "stage_events (w_listener w) (log_events lg)"
    by (auto simp: run_ok_def)
  define shown where "shown = (case aborted of None \<Rightarrow> log_events lg | Some m \<Rightarrow> take m (log_events lg))"
  define out where "out = (case aborted of None \<Rightarrow> (case r of Some x \<Rightarrow> x | None \<Rightarrow> Aborted) | Some _ \<Rightarrow> Aborted)"
  have "set shown \<subseteq> set (log_events lg)"
    by (auto simp: shown_def split: option.splits dest: in_set_takeD)
  then have "(\<exists>found. e = RouteLookup (w_listener w) found) \<or> (\<exists>b. e = UpstreamConnect (w_listener w) b)"
    if "e \<in> set shown" for e
    using st that by (auto simp: stage_events_def)
  moreover have "handle_connection limits w aborted n k =
      ConnectionOpened (w_listener w) # (shown @ byte_totals (w_listener w) n k) @
      [ConnectionClosed (w_listener w) out]"
    by (auto simp: handle_connection_def run record_drop_def byte_totals_def shown_def out_def split: option.splits)
  moreover have "aborted \<noteq> None \<longrightarrow> out = Aborted" by (auto simp: out_def)
  ultimately show thesis using that by blast
qed

section \<open>Properties\<close>

text \<open>C2 (connection\_transparent): whenever a backend connection is made, it goes to the backend
that routing chose for the name in the client's own hello, and the bytes replayed to it,
followed by what is still unread, are exactly the bytes the client sent.\<close>

theorem connection_transparent:
  assumes "run_connection limits w = (r, lg)" "log_upstream lg = Some (addr, bytes)"
  shows "bytes @ stream_data (log_unread lg) = stream_data (w_client w) \<and>
    (\<exists>info host route. parse_client_hello bytes limits = Some (Ok info) \<and> info_sni info = Some host \<and>
       resolve_route (w_lookup w) host = Ok route \<and> w_connect w addr = Ok () \<and>
       (case backend_host (match_backend route) of
          Ip ip \<Rightarrow> addr = (ip, backend_port (match_backend route))
        | Dns name \<Rightarrow> \<exists>addrs. w_resolve w (name, backend_port (match_backend route)) = Ok addrs \<and>
            addr \<in> set addrs))"
proof -
  from upstream_transparent [OF assms] obtain info host route where
    up: "bytes @ stream_data (log_unread lg) = stream_data (w_client w)"
    "parse_client_hello bytes limits = Some (Ok info)" "info_sni info = Some host"
    "resolve_route (w_lookup w) host = Ok route"
    "connect_and_replay w (match_backend route) bytes = Ok (addr, bytes)" by blast
  with connect_and_replay_Ok [OF up(5)] show ?thesis by auto
qed

theorem connection_transparent_witness:
  "\<exists>lg addr bytes. run_connection hello_limits_default demo_world = (Some Proxied, lg) \<and>
     log_upstream lg = Some (addr, bytes) \<and> bytes @ stream_data (log_unread lg) = demo_wire"
proof -
  obtain lg bytes where run: "run_connection hello_limits_default demo_world = (Some Proxied, lg)"
    "log_upstream lg = Some ((V4 [10, 0, 0, 1], 443), bytes)"
    using demo_run by blast
  have "stream_data (w_client demo_world) = demo_wire" by (simp add: demo_world_def)
  with connection_transparent [OF run] run show ?thesis by auto
qed

text \<open>
  What it takes for a backend to be connected at an address: for a literal address that it
  accepts, for a name that it is the first resolved address to accept; and that the hello could
  be written there.
\<close>

definition backend_connects :: "conn_world \<Rightarrow> backend \<Rightarrow> socket_addr \<Rightarrow> bool" where
  "backend_connects w b addr \<longleftrightarrow>
     (case backend_host b of
        Ip ip \<Rightarrow> addr = (ip, backend_port b) \<and> is_ok (w_connect w addr)
      | Dns name \<Rightarrow>
          (case w_resolve w (name, backend_port b) of
             Ok addrs \<Rightarrow> find (\<lambda>a. is_ok (w_connect w a)) addrs = Some addr
           | Err _ \<Rightarrow> False)) \<and>
     is_ok (w_nodelay w) \<and> is_ok (w_write w)"

lemma is_ok_unit: "is_ok r \<longleftrightarrow> r = Ok ()"
  by (cases r) simp_all

lemma connect_any_find:
  "connect_any connect addrs last_error = Ok a \<longleftrightarrow> find (\<lambda>x. is_ok (connect x)) addrs = Some a"
  by (auto simp: connect_any_Ok find_Some_split is_ok_unit list_all_iff)

lemma connect_and_replay_iff:
  "connect_and_replay w b buffered = Ok (addr, bytes) \<longleftrightarrow> bytes = buffered \<and> backend_connects w b addr"
  by (cases addr)
    (auto simp: connect_and_replay_def backend_connects_def bind_ok_eq_Ok map_ok_eq_Ok connect_any_find
      is_ok_unit split: backend_host.splits result.splits)

lemma run_upstream_proxied:
  assumes "w_upstream_race w = Ready" "connect_and_replay w (match_backend route) buffered = Ok up"
    "\<not> gate_closed (log_gate lg)"
  shows "\<exists>lg'. run_upstream w route buffered lg = (map_option proxy_outcome (proxy_stage w), lg') \<and>
    log_upstream lg' = Some up"
  using assms
  by (simp add: run_upstream_def await_stage_def run_proxy_def gate_enter_def pass_drop_def Let_def)

text \<open>C4 (proxied\_exactly\_when): a connection enters the proxy stage towards an address, and ends as that stage
does, exactly when no deadline or shutdown came first, the first \<open>max_wire_bytes\<close> bytes the client
sends hold a hello with a name, the lookup does not panic, the name routes to a backend, that
backend connects at that address and the gate is open.\<close>

theorem proxied_exactly_when:
  "(\<exists>lg bytes. run_connection limits w = (map_option proxy_outcome (proxy_stage w), lg) \<and>
      log_upstream lg = Some (addr, bytes)) \<longleftrightarrow>
   (\<exists>info host route.
      w_hello_race w = Ready \<and>
      hello_verdict limits (max_wire_bytes limits) (stream_data (w_client w)) (stream_end (w_client w)) =
        Some (Ok info) \<and>
      info_sni info = Some host \<and> \<not> w_lookup_cancelled w \<and>
      \<not> w_lookup_panics w (candidates_for_hostname host) \<and>
      resolve_route (w_lookup w) host = Ok route \<and> w_upstream_race w = Ready \<and>
      backend_connects w (match_backend route) addr \<and> \<not> gate_closed (w_gate w))"
    (is "?l \<longleftrightarrow> ?r")
proof
  assume ?l
  then obtain lg bytes where run: "run_connection limits w = (map_option proxy_outcome (proxy_stage w), lg)"
    "log_upstream lg = Some (addr, bytes)" by blast
  from run_connection_upstream [OF run] obtain buf hello s host route where
    up: "read_client_hello (w_client w) limits = Some (Some (Ok (buf, hello)), s)" "info_sni hello = Some host"
      "resolve_route (w_lookup w) host = Ok route"
      "connect_and_replay w (match_backend route) (rb_bytes buf) = Ok (addr, bytes)" "log_sni lg = Some host" by blast
  from read_client_hello_agrees [of limits "w_client w"] up(1)
  have verdict: "hello_verdict limits (max_wire_bytes limits) (stream_data (w_client w))
      (stream_end (w_client w)) = Some (Ok hello)" by (simp add: read_agrees_def)
  note races = run_connection_races [OF run]
  with up(5) have "\<not> lookup_panicked w lg" by (auto simp: lookup_panicked_def)
  with run_connection_ok [OF run(1)] proxy_outcome_mem have "\<not> gate_closed (w_gate w)"
    by (cases "proxy_stage w") (auto simp: run_ok_def enters_proxy_def)
  moreover have "backend_connects w (match_backend route) addr" using up(4) by (simp add: connect_and_replay_iff)
  ultimately show ?r using up verdict races by blast
next
  assume ?r
  then obtain info host route where w: "w_hello_race w = Ready"
    "hello_verdict limits (max_wire_bytes limits) (stream_data (w_client w)) (stream_end (w_client w)) =
      Some (Ok info)"
    "info_sni info = Some host" "\<not> w_lookup_cancelled w" "resolve_route (w_lookup w) host = Ok route"
    "w_upstream_race w = Ready" "backend_connects w (match_backend route) addr" "\<not> gate_closed (w_gate w)"
    "\<not> w_lookup_panics w (candidates_for_hostname host)"
    by blast
  from read_client_hello_agrees [of limits "w_client w"] obtain buf s where
    read: "read_client_hello (w_client w) limits = Some (Some (Ok (buf, info)), s)"
    by (rule read_agreesE) (use w(2) in auto)
  have "connect_and_replay w (match_backend route) (rb_bytes buf) = Ok (addr, rb_bytes buf)"
    using w(7) by (simp add: connect_and_replay_iff)
  from run_upstream_proxied [OF w(6) this] w(8) have
    "\<exists>lg'. run_upstream w route (rb_bytes buf)
       (lg\<lparr>log_gate := w_gate w\<rparr>) = (map_option proxy_outcome (proxy_stage w), lg') \<and>
       log_upstream lg' = Some (addr, rb_bytes buf)" for lg by simp
  from this [of "\<lparr>log_events = [RouteLookup (w_listener w) LookupFound], log_sni = Some host,
      log_backend = Some (match_backend route), log_alert = None, log_upstream = None, log_unread = s,
      log_gate = w_gate w\<rparr>"] w read show ?l
    by (auto simp: run_connection_def await_stage_def run_lookup_def log_start_def Let_def)
qed

text \<open>C29 (connection\_outcomes): a run panics exactly when its lookup does, or when the proxy stage, neither
forced nor idle at once, finds \<open>splice\<close> available and cannot create its budget; the task then reports
the connection \<open>Aborted\<close>, else closed with the run's outcome. The \<open>unrecognized_name\<close> alert is
attempted exactly for a missing or unknown name, and the router itself writes nothing to the client
but a prefix of it, all of it when the socket takes it in time. A run ends as proxied, in one of its
four ways, exactly when its backend was connected, the gate was open and the stage did not panic; and
its pass is given back in every case.\<close>

theorem connection_outcomes:
  "\<exists>r lg. run_connection limits w = (r, lg) \<and>
     (r = None \<longleftrightarrow>
        (\<exists>host. log_sni lg = Some host \<and> \<not> w_lookup_cancelled w \<and>
           w_lookup_panics w (candidates_for_hostname host)) \<or>
        (log_upstream lg \<noteq> None \<and> \<not> gate_closed (w_gate w) \<and> \<not> w_forced w \<and> \<not> w_idle w \<and>
           w_splice_available w \<and> w_admission w = None)) \<and>
     last (handle_connection limits w None bytes_read bytes_written) =
       ConnectionClosed (w_listener w) (case r of Some outcome \<Rightarrow> outcome | None \<Rightarrow> Aborted) \<and>
     (log_alert lg \<noteq> None \<longleftrightarrow> r \<in> {Some MissingSni, Some UnknownHost}) \<and>
     alert_ok w (log_alert lg) \<and>
     (r \<in> Some ` {Proxied, ProxyError, IdleTimeout, ShutdownForced} \<longleftrightarrow>
        log_upstream lg \<noteq> None \<and> \<not> gate_closed (w_gate w) \<and> proxy_stage w \<noteq> None) \<and>
     log_gate lg = w_gate w"
proof -
  obtain r lg where run: "run_connection limits w = (r, lg)" by fastforce
  have "last (handle_connection limits w None bytes_read bytes_written) =
      ConnectionClosed (w_listener w) (case r of Some outcome \<Rightarrow> outcome | None \<Rightarrow> Aborted)"
    by (simp add: handle_connection_def run record_drop_def)
  moreover from run_connection_ok [OF run]
  have "r = None \<longleftrightarrow>
        (\<exists>host. log_sni lg = Some host \<and> \<not> w_lookup_cancelled w \<and>
           w_lookup_panics w (candidates_for_hostname host)) \<or>
        (log_upstream lg \<noteq> None \<and> \<not> gate_closed (w_gate w) \<and> \<not> w_forced w \<and> \<not> w_idle w \<and>
           w_splice_available w \<and> w_admission w = None)"
    unfolding run_ok_def lookup_panicked_def enters_proxy_def proxy_stage_None by blast
  moreover from run_connection_ok [OF run]
  have "log_alert lg \<noteq> None \<longleftrightarrow> r \<in> {Some MissingSni, Some UnknownHost}" "alert_ok w (log_alert lg)"
    "r \<in> Some ` {Proxied, ProxyError, IdleTimeout, ShutdownForced} \<longleftrightarrow>
        log_upstream lg \<noteq> None \<and> \<not> gate_closed (w_gate w) \<and> proxy_stage w \<noteq> None"
    "log_gate lg = w_gate w"
    by (auto simp: run_ok_def proxied_outcomes_def enters_proxy_def alert_ok_reject alert_ok_def [of w None])
  ultimately show ?thesis using run by blast
qed

text \<open>The test of the same name in \<open>tests/proxy.rs\<close>: the store panics at every lookup.\<close>

lemma panicking_connection_task_still_closes_its_books:
  "handle_connection hello_limits_default (demo_world\<lparr>w_lookup_panics := (\<lambda>_. True)\<rparr>) None n k =
     ConnectionOpened (w_listener demo_world) # byte_totals (w_listener demo_world) n k @
     [ConnectionClosed (w_listener demo_world) Aborted]"
proof -
  let ?w = "demo_world\<lparr>w_lookup_panics := (\<lambda>_. True)\<rparr>"
  obtain buf s where "read_client_hello (w_client ?w) hello_limits_default =
      Some (Some (Ok (buf, \<lparr>info_sni = Some (Hostname ''w.x.y''), info_consumed = length demo_wire\<rparr>)), s)"
    using demo_read by auto
  moreover have "w_hello_race ?w = Ready" "\<not> w_lookup_cancelled ?w" "w_lookup_panics ?w = (\<lambda>_. True)"
    by (simp_all add: demo_world_def)
  ultimately show ?thesis
    by (simp add: handle_connection_def run_connection_def await_stage_def run_lookup_def log_start_def
        record_drop_def byte_totals_def Let_def)
qed

text \<open>C17 (connection\_books): whether a connection's task finishes, panics or is aborted at any point,
its events start with one \<open>ConnectionOpened\<close> and end with one \<open>ConnectionClosed\<close>, with no other
of either between them and each byte total reported at most once.\<close>

theorem connection_books:
  "\<exists>mid out. handle_connection limits w aborted n k =
     ConnectionOpened (w_listener w) # mid @ [ConnectionClosed (w_listener w) out] \<and>
   filter (\<lambda>e. case e of ConnectionOpened _ \<Rightarrow> True | ConnectionClosed _ _ \<Rightarrow> True | _ \<Rightarrow> False) mid = [] \<and>
   filter (\<lambda>e. case e of BytesRead _ _ \<Rightarrow> True | _ \<Rightarrow> False) mid =
     (if n > 0 then [BytesRead (w_listener w) n] else []) \<and>
   filter (\<lambda>e. case e of BytesWritten _ _ \<Rightarrow> True | _ \<Rightarrow> False) mid =
     (if k > 0 then [BytesWritten (w_listener w) k] else []) \<and>
   (aborted \<noteq> None \<longrightarrow> out = Aborted)"
proof -
  obtain shown out where split: "handle_connection limits w aborted n k =
      ConnectionOpened (w_listener w) # (shown @ byte_totals (w_listener w) n k) @
      [ConnectionClosed (w_listener w) out]"
    and stage: "\<And>e. e \<in> set shown \<Longrightarrow>
      (\<exists>found. e = RouteLookup (w_listener w) found) \<or> (\<exists>b. e = UpstreamConnect (w_listener w) b)"
    and out: "aborted \<noteq> None \<longrightarrow> out = Aborted"
    by (rule handle_connection_split) blast
  have "filter (\<lambda>e. case e of ConnectionOpened _ \<Rightarrow> True | ConnectionClosed _ _ \<Rightarrow> True | _ \<Rightarrow> False) shown = []"
    "filter (\<lambda>e. case e of BytesRead _ _ \<Rightarrow> True | _ \<Rightarrow> False) shown = []"
    "filter (\<lambda>e. case e of BytesWritten _ _ \<Rightarrow> True | _ \<Rightarrow> False) shown = []"
    using stage by (fastforce simp: filter_empty_conv)+
  with split out show ?thesis
    by (intro exI [of _ "shown @ byte_totals (w_listener w) n k"] exI [of _ out]) (simp add: byte_totals_def)
qed

theorem connection_books_witness:
  "\<exists>mid. handle_connection hello_limits_default demo_world (Some 0) 5 0 =
     ConnectionOpened (w_listener demo_world) # mid @ [ConnectionClosed (w_listener demo_world) Aborted]"
  using connection_books [of hello_limits_default demo_world "Some 0" 5 0] by blast

text \<open>The connect loop returns the first address that accepts; it fails
only when every address refused, with the last refusal, or when there was none.\<close>

theorem first_address_wins:
  "case connect_any connect addrs None of
     Ok a \<Rightarrow> (\<exists>before after. addrs = before @ a # after \<and> connect a = Ok () \<and>
       filter (\<lambda>x. is_ok (connect x)) before = [])
   | Err e \<Rightarrow> filter (\<lambda>x. is_ok (connect x)) addrs = [] \<and>
       (if addrs = [] then io_kind e = IoNotFound else connect (last addrs) = Err e)"
  using connect_any_Ok [of connect addrs None] connect_any_Err [of connect addrs None]
  by (auto simp: filter_empty_conv split: result.splits if_splits)

end
