(* ===== verification/Router_System.thy ===== *)
theory Router_System
  imports Connection Server Otel
begin

text \<open>
  The router as a whole: \<open>Router::serve\<close> with its accept loop and its shutdown, the pipeline of each
  connection it spawned, and the Prometheus sink they all report to. A connection's task records
  the events of its run one by one, interleaved with everything else. The theorem relates what
  the metrics say with what the server does.
\<close>

section \<open>The composed system\<close>

text \<open>
  \<open>ct_pending\<close> are the events the task has yet to record. \<open>rt_accepted\<close> lists the listeners
  connections were accepted from; it is only there to state what the metrics should say.
\<close>

record conn_task =
  ct_id :: nat
  ct_world :: conn_world
  ct_aborted :: "nat option"
  ct_pending :: "metric_event list"

record router_sys =
  rt_server :: server_sys
  rt_tasks :: "conn_task list"
  rt_events :: "metric_event list"
  rt_accepted :: "listener_info list"

definition router_init :: "nat \<Rightarrow> router_sys" where
  "router_init max_connections =
     \<lparr>rt_server = serve_init max_connections, rt_tasks = [], rt_events = [], rt_accepted = []\<rparr>"

text \<open>Whether a connection's run gets to the proxy stage, so that its task holds a pass.\<close>

definition passes_gate :: "hello_limits \<Rightarrow> conn_world \<Rightarrow> bool" where
  "passes_gate limits w \<longleftrightarrow>
     log_upstream (snd (run_connection limits w)) \<noteq> None \<and> \<not> gate_closed (w_gate w)"

text \<open>
  \<open>server\<close> are the steps of \<open>serve\<close> and of the accept loop that touch no connection. A task ends once
  it has recorded all its events, holding a pass exactly if its run got one (one that panics or
  is aborted may end before it would have entered).
\<close>

inductive router_step :: "hello_limits \<Rightarrow> listener_info list \<Rightarrow> router_sys \<Rightarrow> router_sys \<Rightarrow> bool"
  for limits :: hello_limits and infos :: "listener_info list" where
  server:
    "server_step (length infos) (rt_server s) sv \<Longrightarrow> sv_tasks sv = sv_tasks (rt_server s) \<Longrightarrow>
     router_step limits infos s (s\<lparr>rt_server := sv\<rparr>)"
| accept:
    "sv_loop (rt_server s) = HasSlot \<Longrightarrow> \<not> sv_shutdown (rt_server s) \<Longrightarrow>
     accept_any (length infos) poll_accept (sv_next (rt_server s)) = Some (index, True, next_index) \<Longrightarrow>
     w_listener w = infos ! index \<Longrightarrow>
     router_step limits infos s
       (s\<lparr>rt_server := (rt_server s)\<lparr>sv_next := next_index,
            sv_tasks := (sv_spawned (rt_server s), False) # sv_tasks (rt_server s),
            sv_spawned := sv_spawned (rt_server s) + 1, sv_loop := WantSlot\<rparr>,
          rt_tasks := \<lparr>ct_id = sv_spawned (rt_server s), ct_world = w, ct_aborted = aborted,
            ct_pending = handle_connection limits w aborted bytes_read bytes_written\<rparr> # rt_tasks s,
          rt_accepted := infos ! index # rt_accepted s\<rparr>)"
| records:
    "t \<in> set (rt_tasks s) \<Longrightarrow> ct_pending t = event # events \<Longrightarrow>
     router_step limits infos s
       (s\<lparr>rt_tasks := t\<lparr>ct_pending := events\<rparr> # remove1 t (rt_tasks s), rt_events := rt_events s @ [event]\<rparr>)"
| enters:
    "t \<in> set (rt_tasks s) \<Longrightarrow> passes_gate limits (ct_world t) \<Longrightarrow>
     (ct_id t, False) \<in> set (sv_tasks (rt_server s)) \<Longrightarrow>
     server_step (length infos) (rt_server s) sv \<Longrightarrow>
     sv_tasks sv = (ct_id t, True) # remove1 (ct_id t, False) (sv_tasks (rt_server s)) \<Longrightarrow>
     router_step limits infos s (s\<lparr>rt_server := sv\<rparr>)"
| ends:
    "t \<in> set (rt_tasks s) \<Longrightarrow> ct_pending t = [] \<Longrightarrow>
     holds_pass = passes_gate limits (ct_world t) \<or> ct_aborted t \<noteq> None \<Longrightarrow>
     (ct_id t, holds_pass) \<in> set (sv_tasks (rt_server s)) \<Longrightarrow>
     server_step (length infos) (rt_server s) sv \<Longrightarrow>
     sv_tasks sv = remove1 (ct_id t, holds_pass) (sv_tasks (rt_server s)) \<Longrightarrow>
     router_step limits infos s (s\<lparr>rt_server := sv, rt_tasks := remove1 t (rt_tasks s)\<rparr>)"
| cache_reports:
    "router_step limits infos s (s\<lparr>rt_events := rt_events s @ [CacheMetric e]\<rparr>)"

abbreviation router_reachable :: "hello_limits \<Rightarrow> listener_info list \<Rightarrow> nat \<Rightarrow> router_sys \<Rightarrow> bool" where
  "router_reachable limits infos max_connections \<equiv>
     (router_step limits infos)\<^sup>*\<^sup>* (router_init max_connections)"

interpretation server_part: simulation "router_step limits infos" "server_step (length infos)" rt_server
  for limits infos
proof
  fix s s'
  assume "router_step limits infos s s'"
  then show "server_step (length infos) (rt_server s) (rt_server s') \<or> rt_server s' = rt_server s"
  proof cases
    case (accept poll_accept index next_index w aborted bytes_read bytes_written)
    from server_step.accept [OF accept(2-4)] accept(1) show ?thesis by simp
  qed auto
qed

lemma router_server:
  "router_reachable limits infos max_connections s \<Longrightarrow>
   server_reachable (length infos) max_connections (rt_server s)"
  using server_part.run_of_part [of limits infos "router_init max_connections" s]
  by (simp add: router_init_def)

section \<open>What a task still has to report\<close>

definition plain_events :: "metric_event list \<Rightarrow> bool" where
  "plain_events events \<longleftrightarrow> list_all (\<lambda>e. \<forall>labels. \<not> opens labels e \<and> \<not> closes labels e) events"

text \<open>Everything, all but the opening, or nothing.\<close>

definition pending_ok :: "listener_info \<Rightarrow> metric_event list \<Rightarrow> bool" where
  "pending_ok li events \<longleftrightarrow>
     events = [] \<or>
     (\<exists>mid out. plain_events mid \<and>
        (events = mid @ [ConnectionClosed li out] \<or>
         events = ConnectionOpened li # mid @ [ConnectionClosed li out]))"

lemma pending_ok_handle: "pending_ok (w_listener w) (handle_connection limits w aborted n k)"
proof -
  obtain shown out where split: "handle_connection limits w aborted n k =
      ConnectionOpened (w_listener w) # (shown @ byte_totals (w_listener w) n k) @
      [ConnectionClosed (w_listener w) out]"
    and stage: "\<And>e. e \<in> set shown \<Longrightarrow>
      (\<exists>found. e = RouteLookup (w_listener w) found) \<or> (\<exists>b. e = UpstreamConnect (w_listener w) b)"
    by (rule handle_connection_split) blast
  have "plain_events (shown @ byte_totals (w_listener w) n k)"
    using stage by (fastforce simp: plain_events_def list_all_iff byte_totals_def)
  with split show ?thesis unfolding pending_ok_def by blast
qed

lemma pending_ok_tl: "pending_ok li (e # events) \<Longrightarrow> pending_ok li events"
  unfolding pending_ok_def plain_events_def by (auto simp: Cons_eq_append_conv)

lemma pending_counts:
  assumes "pending_ok li events"
  shows "length (filter (opens labels) events) \<le> length (filter (closes labels) events) \<and>
    length (filter (closes labels) events) \<le> 1"
proof -
  have "filter (opens labels) mid = [] \<and> filter (closes labels) mid = []" if "plain_events mid" for mid
    using that by (auto simp: plain_events_def list_all_iff filter_empty_conv)
  with assms show ?thesis by (auto simp: pending_ok_def)
qed

section \<open>The invariant\<close>

definition outstanding :: "(metric_event \<Rightarrow> bool) \<Rightarrow> router_sys \<Rightarrow> nat" where
  "outstanding P s = sum_list (map (\<lambda>t. length (filter P (ct_pending t))) (rt_tasks s))"

definition accepted_on :: "labels \<Rightarrow> router_sys \<Rightarrow> nat" where
  "accepted_on labels s = length (filter (\<lambda>li. tcp_labels li = labels) (rt_accepted s))"

definition router_ok :: "router_sys \<Rightarrow> bool" where
  "router_ok s \<longleftrightarrow>
     length (rt_tasks s) = length (sv_tasks (rt_server s)) \<and>
     (\<forall>t \<in> set (rt_tasks s). pending_ok (w_listener (ct_world t)) (ct_pending t)) \<and>
     (\<forall>labels.
        length (filter (opens labels) (rt_events s)) + outstanding (opens labels) s = accepted_on labels s \<and>
        length (filter (closes labels) (rt_events s)) + outstanding (closes labels) s = accepted_on labels s)"

lemma outstanding_remove1:
  "t \<in> set (rt_tasks s) \<Longrightarrow>
   outstanding P s = length (filter P (ct_pending t)) +
     outstanding P (s\<lparr>rt_tasks := remove1 t (rt_tasks s)\<rparr>)"
  by (simp add: outstanding_def sum_list_map_remove1)

lemma handle_counts:
  "length (filter (opens labels) (handle_connection limits w aborted n k)) =
     (if tcp_labels (w_listener w) = labels then 1 else 0) \<and>
   length (filter (closes labels) (handle_connection limits w aborted n k)) =
     (if tcp_labels (w_listener w) = labels then 1 else 0)"
proof -
  obtain shown out where split: "handle_connection limits w aborted n k =
      ConnectionOpened (w_listener w) # (shown @ byte_totals (w_listener w) n k) @
      [ConnectionClosed (w_listener w) out]"
    and stage: "\<And>e. e \<in> set shown \<Longrightarrow>
      (\<exists>found. e = RouteLookup (w_listener w) found) \<or> (\<exists>b. e = UpstreamConnect (w_listener w) b)"
    by (rule handle_connection_split) blast
  have "filter (opens labels) shown = []" "filter (closes labels) shown = []"
    using stage by (fastforce simp: filter_empty_conv)+
  with split show ?thesis by (simp add: byte_totals_def)
qed

lemma router_step_ok:
  assumes "router_step limits infos s s'" "router_ok s"
  shows "router_ok s'"
  using assms(1)
proof cases
  case (server sv)
  with assms(2) show ?thesis by (simp add: router_ok_def outstanding_def accepted_on_def)
next
  case (accept poll_accept index next_index w aborted bytes_read bytes_written)
  note counts = handle_counts [of _ limits w aborted bytes_read bytes_written]
  from accept(1,5) assms(2) pending_ok_handle [of w limits aborted bytes_read bytes_written] show ?thesis
    by (simp add: router_ok_def outstanding_def accepted_on_def counts)
next
  case (records t event events)
  have "pending_ok (w_listener (ct_world t)) (ct_pending t)" using assms(2) records(2) by (simp add: router_ok_def)
  then have ok: "pending_ok (w_listener (ct_world t)) events" using records(3) pending_ok_tl by simp
  have rest: "\<forall>t' \<in> set (remove1 t (rt_tasks s)). pending_ok (w_listener (ct_world t')) (ct_pending t')"
    using assms(2) by (auto simp: router_ok_def dest: set_remove1_subset [THEN subsetD])
  have len: "length (rt_tasks s) = Suc (length (remove1 t (rt_tasks s)))" by (rule length_remove1_mem [OF records(2)])
  have moved: "length (filter P (rt_events s')) + outstanding P s' =
      length (filter P (rt_events s)) + outstanding P s" for P
    using records(1,3) outstanding_remove1 [OF records(2), of P] by (simp add: outstanding_def)
  have "accepted_on labels s' = accepted_on labels s" for labels
    using records(1) by (simp add: accepted_on_def)
  moreover have "rt_tasks s' = t\<lparr>ct_pending := events\<rparr> # remove1 t (rt_tasks s)" "rt_server s' = rt_server s"
    using records(1) by simp_all
  ultimately show ?thesis using assms(2) ok rest len by (simp add: router_ok_def moved)
next
  case (enters t sv)
  with assms(2) length_remove1_mem [OF enters(4)] show ?thesis
    by (simp add: router_ok_def outstanding_def accepted_on_def)
next
  case (ends t holds_pass sv)
  have rest: "\<forall>t' \<in> set (remove1 t (rt_tasks s)). pending_ok (w_listener (ct_world t')) (ct_pending t')"
    using assms(2) by (auto simp: router_ok_def dest: set_remove1_subset [THEN subsetD])
  have "outstanding P s' = outstanding P s" for P
    using ends(1,3) outstanding_remove1 [OF ends(2), of P] by (simp add: outstanding_def)
  with ends(1) assms(2) rest length_remove1_mem [OF ends(2)] length_remove1_mem [OF ends(5)] ends(7) show ?thesis
    by (simp add: router_ok_def accepted_on_def)
next
  case (cache_reports e)
  with assms(2) show ?thesis by (simp add: router_ok_def outstanding_def accepted_on_def)
qed

lemma router_ok_reachable: "router_reachable limits infos max_connections s \<Longrightarrow> router_ok s"
proof (induction rule: rtranclp_induct)
  case base
  show ?case by (simp add: router_ok_def router_init_def serve_init_def outstanding_def accepted_on_def)
qed (rule router_step_ok)

text \<open>Every event is about a listener of the router.\<close>

definition all_tcp :: "router_sys \<Rightarrow> bool" where
  "all_tcp s \<longleftrightarrow> list_all tcp_event (rt_events s) \<and> (\<forall>t \<in> set (rt_tasks s). list_all tcp_event (ct_pending t))"

lemma handle_tcp:
  assumes "li_network (w_listener w) = ''tcp''"
  shows "list_all tcp_event (handle_connection limits w aborted n k)"
proof -
  obtain shown out where split: "handle_connection limits w aborted n k =
      ConnectionOpened (w_listener w) # (shown @ byte_totals (w_listener w) n k) @
      [ConnectionClosed (w_listener w) out]"
    and stage: "\<And>e. e \<in> set shown \<Longrightarrow>
      (\<exists>found. e = RouteLookup (w_listener w) found) \<or> (\<exists>b. e = UpstreamConnect (w_listener w) b)"
    by (rule handle_connection_split) blast
  have "list_all tcp_event shown"
    using stage assms by (fastforce simp: list_all_iff tcp_event_def event_listener_def)
  with split assms show ?thesis by (simp add: byte_totals_def tcp_event_def event_listener_def)
qed

lemma accept_any_index: "accept_any n poll_accept start = Some (index, r, start') \<Longrightarrow> index < n"
  using accept_scan_Some [of n poll_accept start "[0..<n]" index r start']
  by (cases n) (auto simp: accept_any_def)

lemma router_step_tcp:
  assumes "router_step limits infos s s'" "list_all (\<lambda>li. li_network li = ''tcp'') infos" "all_tcp s"
  shows "all_tcp s'"
  using assms(1)
proof cases
  case (accept poll_accept index next_index w aborted bytes_read bytes_written)
  have "index < length infos" by (rule accept_any_index [OF accept(4)])
  with assms(2) accept(5) have "li_network (w_listener w) = ''tcp''" by (simp add: list_all_length)
  from handle_tcp [OF this] accept(1) assms(3) show ?thesis by (simp add: all_tcp_def)
next
  case (records t event events)
  with assms(3) have "list_all tcp_event (event # events)" by (auto simp: all_tcp_def)
  with records(1) assms(3) show ?thesis
    by (auto simp: all_tcp_def dest: set_remove1_subset [THEN subsetD])
next
  case (ends t holds_pass sv)
  with assms(3) show ?thesis by (auto simp: all_tcp_def dest: set_remove1_subset [THEN subsetD])
next
  case (cache_reports e)
  with assms(3) show ?thesis by (simp add: all_tcp_def tcp_event_def event_listener_def)
qed (use assms(3) in \<open>simp_all add: all_tcp_def\<close>)

lemma all_tcp_reachable:
  assumes "list_all (\<lambda>li. li_network li = ''tcp'') infos"
  shows "router_reachable limits infos max_connections s \<Longrightarrow> all_tcp s"
proof (induction rule: rtranclp_induct)
  case base
  show ?case by (simp add: all_tcp_def router_init_def)
next
  case (step s s')
  from router_step_tcp [OF step(2) assms step(3)] show ?case .
qed

lemma outstanding_bounds:
  assumes "router_ok s"
  shows "outstanding (opens labels) s \<le> outstanding (closes labels) s \<and>
    outstanding (closes labels) s \<le> length (rt_tasks s)"
proof -
  have "length (filter (opens labels) (ct_pending t)) \<le> length (filter (closes labels) (ct_pending t)) \<and>
      length (filter (closes labels) (ct_pending t)) \<le> 1" if "t \<in> set (rt_tasks s)" for t
    using assms that pending_counts by (auto simp: router_ok_def)
  then have "outstanding (opens labels) s \<le> outstanding (closes labels) s"
    "outstanding (closes labels) s \<le> sum_list (map (\<lambda>t. 1) (rt_tasks s))"
    unfolding outstanding_def by (auto intro: sum_list_mono)
  then show ?thesis by (simp add: sum_list_triv)
qed

section \<open>Properties\<close>

text \<open>C12 (router\_books): at any moment the open-connections gauge of a listener is between zero and the
number of connection tasks, which is at most \<open>max_connections\<close>; and once \<open>serve\<close> has returned every gauge is
zero and each connection accepted on a listener was reported opened once and closed once.\<close>

theorem router_books:
  assumes "router_reachable limits infos max_connections s" "list_all (\<lambda>li. li_network li = ''tcp'') infos"
    and "gauge = series OpenConnections labels (fold otel_record (rt_events s) otel_new)"
  shows "0 \<le> gauge \<and> gauge \<le> int (length (sv_tasks (rt_server s))) \<and>
    length (sv_tasks (rt_server s)) \<le> max_connections \<and>
    (sv_serve (rt_server s) = ServeReturned \<longrightarrow>
       gauge = 0 \<and>
       length (filter (opens labels) (rt_events s)) = accepted_on labels s \<and>
       length (filter (closes labels) (rt_events s)) = accepted_on labels s)"
proof -
  have ok: "router_ok s" and tcp: "list_all tcp_event (rt_events s)"
    using router_ok_reachable [OF assms(1)] all_tcp_reachable [OF assms(2,1)] by (simp_all add: all_tcp_def)
  note sv = router_server [OF assms(1)]
  have g: "gauge = int (outstanding (closes labels) s) - int (outstanding (opens labels) s)"
    unfolding assms(3) gauge_value [OF tcp] using ok by (auto simp: router_ok_def) (smt (verit) of_nat_add)
  have "length (sv_tasks (rt_server s)) \<le> max_connections"
    using serve_pool.bounded [OF sv] by (simp add: serve_init_def held_by_loop_def)
  moreover have "outstanding P s = 0" if "sv_serve (rt_server s) = ServeReturned" for P
    using server_reachable_ok [OF sv] ok that by (simp add: server_ok_def router_ok_def outstanding_def)
  ultimately show ?thesis
    using g outstanding_bounds [OF ok, of labels] ok by (auto simp: router_ok_def)
qed

theorem router_books_witness:
  "\<exists>s. router_reachable hello_limits_default [w_listener demo_world] 1 s \<and>
     rt_events s = [ConnectionOpened (w_listener demo_world)] \<and>
     series OpenConnections (tcp_labels (w_listener demo_world)) (fold otel_record (rt_events s) otel_new) \<le> 1"
proof -
  let ?li = "w_listener demo_world"
  let ?step = "router_step hello_limits_default [?li]"
  define s1 where "s1 = (router_init 1)\<lparr>rt_server := (serve_init 1)\<lparr>sv_free := 0, sv_loop := HasSlot\<rparr>\<rparr>"
  have "server_step 1 (serve_init 1) ((serve_init 1)\<lparr>sv_free := 0, sv_loop := HasSlot\<rparr>)"
    using server_step.acquire [of "serve_init 1" 1] by (simp add: serve_init_def)
  then have step1: "?step (router_init 1) s1"
    using router_step.server [of "[?li]" "router_init 1"] by (simp add: s1_def router_init_def serve_init_def)
  have "accept_any (length [?li]) (\<lambda>_. Some True) (sv_next (rt_server s1)) = Some (0, True, 0)"
    by (simp add: accept_any_def s1_def serve_init_def Let_def)
  note accept = router_step.accept [where limits = hello_limits_default and w = demo_world and aborted = None
      and bytes_read = 0 and bytes_written = 0, OF _ _ this]
  let ?evs = "handle_connection hello_limits_default demo_world None 0 0"
  obtain s2 where step2: "?step s1 s2" and s2: "rt_events s2 = []" "rt_tasks s2 =
      [\<lparr>ct_id = 0, ct_world = demo_world, ct_aborted = None, ct_pending = ?evs\<rparr>]"
    using accept by (fastforce simp: s1_def serve_init_def router_init_def)
  obtain rest where evs: "?evs = ConnectionOpened ?li # rest"
    using handle_connection_split [of hello_limits_default demo_world None 0 0] by (metis append_Cons)
  let ?t = "\<lparr>ct_id = 0, ct_world = demo_world, ct_aborted = None, ct_pending = ?evs\<rparr>"
  obtain s3 where step3: "?step s2 s3" and s3: "rt_events s3 = [ConnectionOpened ?li]"
    using router_step.records [of ?t s2 "ConnectionOpened ?li" rest hello_limits_default "[?li]"] s2 evs by fastforce
  have reach: "router_reachable hello_limits_default [?li] 1 s3"
    using step1 step2 step3 by (meson converse_rtranclp_into_rtranclp rtranclp.rtrancl_refl)
  have "list_all (\<lambda>li. li_network li = ''tcp'') [?li]" by (simp add: demo_world_def listener_tcp_def)
  from router_books [OF reach this refl, of "tcp_labels ?li"] reach s3 show ?thesis
    by (intro exI [of _ s3]) linarith
qed

end
