(* ===== verification/Program.thy ===== *)
theory Program
  imports Process Router_System
begin

text \<open>
  The program from its configuration file to the bytes at a backend: the process of \<open>Process\<close> with
  the connections of \<open>Router_System\<close> in it. A connection's lookup reads the route table that is in
  use at that moment, while reloads replace it. The theorem says which file a connection was
  routed by.
\<close>

section \<open>The composed program\<close>

text \<open>
  The server is the process's; \<open>pg_tasks\<close>, \<open>pg_events\<close> and \<open>pg_accepted\<close> are the rest of a \<open>router_sys\<close>.
  \<open>pg_served\<close> lists the connections whose lookup has finished, each with the number of signals the
  reload task had seen by then; it is only there to state the theorem.
\<close>

record program_sys =
  pg_process :: process_sys
  pg_tasks :: "conn_task list"
  pg_events :: "metric_event list"
  pg_accepted :: "listener_info list"
  pg_served :: "(conn_world \<times> nat) list"

definition program_init :: "'t program_env \<Rightarrow> program_sys" where
  "program_init env =
     \<lparr>pg_process = process_init env, pg_tasks = [], pg_events = [], pg_accepted = [], pg_served = []\<rparr>"

definition router_of :: "program_sys \<Rightarrow> router_sys" where
  "router_of s =
     \<lparr>rt_server = ps_server (pg_process s), rt_tasks = pg_tasks s, rt_events = pg_events s, rt_accepted = pg_accepted s\<rparr>"

definition with_router :: "program_sys \<Rightarrow> router_sys \<Rightarrow> program_sys" where
  "with_router s r =
     s\<lparr>pg_process := (pg_process s)\<lparr>ps_run := (ps_run (pg_process s))\<lparr>run_server := rt_server r\<rparr>\<rparr>,
       pg_tasks := rt_tasks r, pg_events := rt_events r, pg_accepted := rt_accepted r\<rparr>"

lemma router_of_with_router: "router_of (with_router s r) = r"
  by (cases r) (simp add: router_of_def with_router_def)

lemma with_router_process:
  "ps_hangups (pg_process (with_router s r)) = ps_hangups (pg_process s)"
  "ps_lookup (pg_process (with_router s r)) = ps_lookup (pg_process s)"
  by (simp_all add: with_router_def)

definition env_limits :: "'t program_env \<Rightarrow> hello_limits" where
  "env_limits env = rc_hello_limits (ba_router (pe_app env))"

text \<open>
  \<open>process\<close> is a step that touches no connection; \<open>connections\<close> a step of the router that is not the
  end of a lookup. A lookup ends in the poll it starts in, the table being in memory, and is
  recorded in that poll.
\<close>

inductive program_step :: "'t program_env \<Rightarrow> program_sys \<Rightarrow> program_sys \<Rightarrow> bool" for env :: "'t program_env" where
  process:
    "process_step env (pg_process s) p \<Longrightarrow> sv_tasks (ps_server p) = sv_tasks (ps_server (pg_process s)) \<Longrightarrow>
     program_step env s (s\<lparr>pg_process := p\<rparr>)"
| connections:
    "router_step (env_limits env) (ba_listeners (pe_app env)) (router_of s) r \<Longrightarrow>
     sv_shutdown (rt_server r) = sv_shutdown (ps_server (pg_process s)) \<Longrightarrow>
     (\<nexists>li found. rt_events r = pg_events s @ [RouteLookup li found]) \<Longrightarrow>
     program_step env s (with_router s r)"
| looks_up:
    "t \<in> set (pg_tasks s) \<Longrightarrow> ct_pending t = RouteLookup li found # events \<Longrightarrow>
     w_lookup (ct_world t) = (\<lambda>c. Done (file_lookup (ps_lookup (pg_process s)) c)) \<Longrightarrow>
     program_step env s
       (s\<lparr>pg_tasks := t\<lparr>ct_pending := events\<rparr> # remove1 t (pg_tasks s),
          pg_events := pg_events s @ [RouteLookup li found],
          pg_served := (ct_world t, length (ps_hangups (pg_process s))) # pg_served s\<rparr>)"

abbreviation program_reachable :: "'t program_env \<Rightarrow> program_sys \<Rightarrow> bool" where
  "program_reachable env \<equiv> (program_step env)\<^sup>*\<^sup>* (program_init env)"

lemma process_step_server:
  "process_step env p p' \<Longrightarrow>
   server_step (env_listeners env) (ps_server p) (ps_server p') \<or> ps_server p' = ps_server p"
  using app_part.step_or_stutter [of env p p'] router_part.step_or_stutter [of "env_listeners env" "ps_run p" "ps_run p'"]
  by auto

interpretation process_part: simulation "program_step env" "process_step env" pg_process
  for env :: "'t program_env"
proof
  fix s s'
  assume "program_step env s s'"
  then show "process_step env (pg_process s) (pg_process s') \<or> pg_process s' = pg_process s"
  proof cases
    case (connections r)
    from server_part.step_or_stutter [OF connections(2)]
    have "server_step (env_listeners env) (ps_server (pg_process s)) (rt_server r) \<or>
        rt_server r = ps_server (pg_process s)"
      by (simp add: router_of_def env_listeners_def)
    then show ?thesis
    proof
      assume "server_step (env_listeners env) (ps_server (pg_process s)) (rt_server r)"
      from process_step.serving [OF this connections(3)] connections(1) show ?thesis by (simp add: with_router_def)
    next
      assume "rt_server r = ps_server (pg_process s)"
      with connections(1) show ?thesis by (simp add: with_router_def)
    qed
  qed simp_all
qed

interpretation connections_part:
  simulation "program_step env" "router_step (env_limits env) (ba_listeners (pe_app env))" router_of
  for env :: "'t program_env"
proof
  fix s s'
  assume "program_step env s s'"
  then show "router_step (env_limits env) (ba_listeners (pe_app env)) (router_of s) (router_of s') \<or>
      router_of s' = router_of s"
  proof cases
    case (process p)
    from process_step_server [OF process(2)]
    have "server_step (length (ba_listeners (pe_app env))) (rt_server (router_of s)) (ps_server p) \<or>
        ps_server p = ps_server (pg_process s)"
      by (simp add: router_of_def env_listeners_def)
    then show ?thesis
    proof
      assume "server_step (length (ba_listeners (pe_app env))) (rt_server (router_of s)) (ps_server p)"
      from router_step.server [OF this] process(1,3) show ?thesis by (simp add: router_of_def)
    qed (use process(1) in \<open>simp add: router_of_def\<close>)
  next
    case (connections r)
    then show ?thesis by (simp add: router_of_with_router)
  next
    case (looks_up t li found events)
    then have "t \<in> set (rt_tasks (router_of s))" by (simp add: router_of_def)
    from router_step.records [OF this looks_up(3)] looks_up(1) show ?thesis by (simp add: router_of_def)
  qed
qed

lemma program_process: "program_reachable env s \<Longrightarrow> process_reachable env (pg_process s)"
  using process_part.run_of_part [of env "program_init env" s] by (simp add: program_init_def)

lemma program_router:
  "program_reachable env s \<Longrightarrow>
   router_reachable (env_limits env) (ba_listeners (pe_app env)) (env_connections env) (router_of s)"
  using connections_part.run_of_part [of env "program_init env" s]
  by (simp add: program_init_def router_of_def process_init_def app_init_def router_init_def)

section \<open>The table a connection was routed by\<close>

abbreviation reloaded :: "'t program_env \<Rightarrow> hangup list \<Rightarrow> file_route_lookup" where
  "reloaded env events \<equiv>
     sighup_loop (pe_toml env) (pe_path env) (ba_startup (pe_app env)) events (ba_lookup (pe_app env))"

lemma lookup_in_use: "process_ok env p \<Longrightarrow> ps_lookup p = reloaded env (ps_hangups p)"
  by (auto simp: process_ok_def split: if_splits)

definition served_ok :: "'t program_env \<Rightarrow> program_sys \<Rightarrow> bool" where
  "served_ok env s \<longleftrightarrow>
     (\<forall>(w, k) \<in> set (pg_served s). k \<le> length (ps_hangups (pg_process s)) \<and>
        w_lookup w = (\<lambda>c. Done (file_lookup (reloaded env (take k (ps_hangups (pg_process s)))) c)))"

lemma process_step_hangups:
  "process_step env p p' \<Longrightarrow> ps_hangups p' = ps_hangups p \<or> (\<exists>event. ps_hangups p' = ps_hangups p @ [event])"
  by (erule process_step.cases) auto

lemma served_ok_reachable: "program_reachable env s \<Longrightarrow> served_ok env s"
proof (induction rule: rtranclp_induct)
  case base
  show ?case by (simp add: served_ok_def program_init_def)
next
  case (step s s')
  note ok = process_reachable_ok [OF program_process [OF step(1)]]
  from step(2) show ?case
  proof cases
    case (process p)
    from process_step_hangups [OF process(2)] step(3) process(1) show ?thesis
      by (fastforce simp: served_ok_def)
  next
    case (connections r)
    with step(3) show ?thesis by (simp add: served_ok_def with_router_def)
  next
    case (looks_up t li found events)
    with step(3) lookup_in_use [OF ok] show ?thesis by (auto simp: served_ok_def)
  qed
qed

text \<open>The contents of the file at the signals before the reload task stopped.\<close>

fun hangup_read :: "hangup \<Rightarrow> (string \<Rightarrow> (string, io_error) result) option" where
  "hangup_read (Hangup read_file) = Some read_file"
| "hangup_read _ = None"

definition reads_seen :: "hangup list \<Rightarrow> (string \<Rightarrow> (string, io_error) result) list" where
  "reads_seen events = List.map_filter hangup_read (takeWhile (\<lambda>event. \<not> stops_reload event) events)"

text \<open>The last of these contents that is a valid file.\<close>

definition file_in_force ::
    "(string \<Rightarrow> (raw_config, 't) result) \<Rightarrow> string \<Rightarrow> (string \<Rightarrow> (string, io_error) result) list \<Rightarrow>
     (string \<Rightarrow> (string, io_error) result) option" where
  "file_in_force toml path reads = find (\<lambda>read_file. is_ok (app_config_load read_file toml path)) (rev reads)"

lemma sighup_loop_in_force:
  assumes "app_config_load read0 toml path = Ok config0"
  shows "\<exists>read_file config. file_in_force toml path (read0 # reads_seen events) = Some read_file \<and>
    app_config_load read_file toml path = Ok config \<and>
    sighup_loop toml path startup events (file_new (app_routes config0)) = file_new (app_routes config)"
  using assms
proof (induction events arbitrary: read0 config0)
  case Nil
  then show ?case by (simp add: file_in_force_def reads_seen_def List.map_filter_def)
next
  case (Cons event events)
  show ?case
  proof (cases event)
    case (Hangup read1)
    have seen: "reads_seen (event # events) = read1 # reads_seen events"
      by (simp add: Hangup reads_seen_def List.map_filter_def)
    show ?thesis
    proof (cases "app_config_load read1 toml path")
      case (Ok config1)
      from Cons.IH [OF Ok] obtain read_file config where
        "file_in_force toml path (read1 # reads_seen events) = Some read_file"
        "app_config_load read_file toml path = Ok config"
        "sighup_loop toml path startup events (file_new (app_routes config1)) = file_new (app_routes config)" by blast
      moreover from this(1) have "file_in_force toml path (read0 # reads_seen (event # events)) = Some read_file"
        by (simp add: file_in_force_def seen find_append_case Ok split: option.splits)
      ultimately show ?thesis
        by (simp add: Hangup Ok reload_from_path_def file_replace_def file_new_def Let_def)
    next
      case (Err e)
      from Cons.IH [OF Cons.prems] obtain read_file config where
        c: "file_in_force toml path (read0 # reads_seen events) = Some read_file"
        "app_config_load read_file toml path = Ok config"
        "sighup_loop toml path startup events (file_new (app_routes config0)) = file_new (app_routes config)" by blast
      have "file_in_force toml path (read0 # reads_seen (event # events)) =
          file_in_force toml path (read0 # reads_seen events)"
        by (simp add: file_in_force_def seen Err find_append_case split: option.splits)
      with c show ?thesis by (simp add: Hangup Err reload_from_path_def)
    qed
  qed (use Cons in \<open>auto simp: file_in_force_def reads_seen_def List.map_filter_def\<close>)
qed

section \<open>What the file says\<close>

text \<open>What it means that a file routes a name: an entry covers it, and an exact entry comes first.\<close>

definition file_routes :: "raw_config \<Rightarrow> hostname \<Rightarrow> backend \<Rightarrow> bool" where
  "file_routes raw h b \<longleftrightarrow>
     (\<exists>route \<in> set (raw_routes raw). \<exists>key. parse_route route = Some (key, b) \<and> key_matches key h \<and>
        (key_wildcard key \<longrightarrow>
           (\<forall>route' \<in> set (raw_routes raw). \<forall>b'. parse_route route' \<noteq> Some (route_key_exact h, b'))))"

lemma resolved_by_file:
  assumes "app_config_load read_file toml path = Ok config"
    and "resolve_route (\<lambda>c. Done (file_lookup (file_new (app_routes config)) c)) h = Ok m"
  shows "\<exists>source raw. read_file path = Ok source \<and> toml source = Ok raw \<and> file_routes raw h (match_backend m)"
proof -
  let ?s = "file_new (app_routes config)"
  obtain source raw where loaded: "read_file path = Ok source" "toml source = Ok raw"
    and get: "\<And>key b. file_get ?s key = Some b \<longleftrightarrow> (\<exists>route \<in> set (raw_routes raw). parse_route route = Some (key, b))"
    and valid: "\<And>key b. file_get ?s key = Some b \<Longrightarrow> valid_route_key key"
    using loaded_lookup [OF assms(1)] by blast
  have res: "resolve_route (\<lambda>c. Done (Ok (file_hits ?s c))) h = Ok m" using assms(2) by (simp add: file_lookup_hits)
  from route_file.resolve_sound [OF valid res]
  have "file_get ?s (match_key m) = Some (match_backend m)" and covers: "key_matches (match_key m) h" by auto
  then obtain route where route: "route \<in> set (raw_routes raw)" "parse_route route = Some (match_key m, match_backend m)"
    unfolding get by blast
  have none: "file_get ?s (route_key_exact h) = None" if "key_wildcard (match_key m)"
  proof (cases "file_get ?s (route_key_exact h)")
    case (Some b)
    from route_file.exact_first [OF this] res that show ?thesis by (auto simp: route_key_exact_def)
  qed
  have "parse_route route' \<noteq> Some (route_key_exact h, b')"
    if "key_wildcard (match_key m)" "route' \<in> set (raw_routes raw)" for route' b'
  proof
    assume "parse_route route' = Some (route_key_exact h, b')"
    with that(2) have "file_get ?s (route_key_exact h) = Some b'" unfolding get by blast
    with none [OF that(1)] show False by simp
  qed
  with route covers have "file_routes raw h (match_backend m)" unfolding file_routes_def by blast
  with loaded show ?thesis by blast
qed

section \<open>A run\<close>

definition demo_conn :: conn_world where
  "demo_conn = demo_world\<lparr>w_listener := listener_tcp (V4 [0, 0, 0, 0], 8080),
     w_lookup := (\<lambda>c. Done (file_lookup (ba_lookup demo_bound) c))\<rparr>"

lemma demo_conn_run:
  "\<exists>lg bytes. run_connection hello_limits_default demo_conn = (Some Proxied, lg) \<and>
     log_upstream lg = Some ((V4 [10, 0, 0, 1], 443), bytes) \<and>
     log_events lg = [RouteLookup (w_listener demo_conn) LookupFound, UpstreamConnect (w_listener demo_conn) True]"
proof -
  obtain buf s where read: "read_client_hello (w_client demo_conn) hello_limits_default =
      Some (Some (Ok (buf, \<lparr>info_sni = Some (Hostname ''w.x.y''), info_consumed = length demo_wire\<rparr>)), s)"
    using demo_read by (auto simp: demo_conn_def)
  have "route_key_wildcard_for (Hostname ''w.x.y'') = Some demo_key" by code_simp
  then have "resolve_route (w_lookup demo_conn) (Hostname ''w.x.y'') = Ok \<lparr>match_key = demo_key, match_backend = web_backend\<rparr>"
    by (simp add: demo_conn_def file_lookup_hits route_file.wildcard_second file_get_new mem_get_def demo_bound_def
        demo_app_def route_key_exact_def demo_key_def)
  moreover have "connect_and_replay demo_conn web_backend (rb_bytes buf) = Ok ((V4 [10, 0, 0, 1], 443), rb_bytes buf)"
    by (simp add: connect_and_replay_def web_backend_def demo_conn_def demo_world_def)
  moreover have "w_hello_race demo_conn = Ready" "w_upstream_race demo_conn = Ready"
    "\<not> w_lookup_cancelled demo_conn" "w_gate demo_conn = gate_new" "proxy_stage demo_conn = Some ProxyFinished"
    "w_lookup_panics demo_conn = (\<lambda>_. False)"
    by (simp_all add: demo_conn_def demo_world_def proxy_stage_def proxy_poll_def copy_choice_def)
  ultimately show ?thesis
    by (simp add: run_connection_def await_stage_def read run_lookup_def run_upstream_def
        run_proxy_def gate_enter_def pass_drop_def gate_new_def log_start_def Let_def)
qed

lemma demo_program_serves:
  "\<exists>s. program_reachable demo_program s \<and> (demo_conn, 0) \<in> set (pg_served s) \<and>
     ps_hangups (pg_process s) = []"
proof -
  let ?step = "program_step demo_program" and ?li = "w_listener demo_conn"
  let ?evs = "handle_connection hello_limits_default demo_conn None 0 0"
  have infos: "ba_listeners (pe_app demo_program) = [?li]" "env_listeners demo_program = 1"
    "env_limits demo_program = hello_limits_default" "env_connections demo_program = 10000"
    by (simp_all add: demo_program_def demo_bound_def demo_conn_def env_listeners_def env_limits_def env_connections_def
        router_config_default_def)
  define sv1 where "sv1 = (serve_init 10000)\<lparr>sv_free := 9999, sv_loop := HasSlot\<rparr>"
  have "server_step 1 (serve_init 10000) sv1"
    using server_step.acquire [of "serve_init 10000" 1] by (simp add: serve_init_def sv1_def)
  then obtain s1 where step1: "?step (program_init demo_program) s1"
    and s1: "ps_server (pg_process s1) = sv1" "pg_tasks s1 = []" "pg_events s1 = []"
      "ps_hangups (pg_process s1) = []" "ps_lookup (pg_process s1) = ba_lookup demo_bound"
    using program_step.process [OF process_step.serving, of demo_program "program_init demo_program" sv1] infos
    by (fastforce simp: program_init_def process_init_def app_init_def sv1_def serve_init_def demo_program_def)
  have "accept_any (length [?li]) (\<lambda>_. Some True) (sv_next (rt_server (router_of s1))) = Some (0, True, 0)"
    by (simp add: accept_any_def router_of_def s1 sv1_def serve_init_def Let_def)
  note accept = router_step.accept [where limits = hello_limits_default and w = demo_conn and aborted = None
      and bytes_read = 0 and bytes_written = 0, OF _ _ this]
  then obtain r where r: "router_step hello_limits_default [?li] (router_of s1) r"
    "rt_tasks r = [\<lparr>ct_id = 0, ct_world = demo_conn, ct_aborted = None, ct_pending = ?evs\<rparr>]" "rt_events r = []"
    "\<not> sv_shutdown (rt_server r)"
    by (fastforce simp: router_of_def s1 sv1_def serve_init_def)
  obtain rest where evs: "?evs = ConnectionOpened ?li # RouteLookup ?li LookupFound # rest"
    using demo_conn_run by (auto simp: handle_connection_def)
  have "?step s1 (with_router s1 r)"
    using program_step.connections [of demo_program s1 r] r infos s1 by (simp add: sv1_def serve_init_def)
  then obtain s2 where step2: "?step s1 s2" and s2: "router_of s2 = r" "ps_hangups (pg_process s2) = []"
      "ps_lookup (pg_process s2) = ba_lookup demo_bound"
    using s1 that [of "with_router s1 r"] by (simp add: router_of_with_router with_router_process)
  let ?t = "\<lparr>ct_id = 0, ct_world = demo_conn, ct_aborted = None, ct_pending = ?evs\<rparr>"
  from router_step.records [of ?t r "ConnectionOpened ?li" "RouteLookup ?li LookupFound # rest" hello_limits_default "[?li]"] r evs
  obtain r' where r': "router_step hello_limits_default [?li] r r'"
    "rt_tasks r' = [?t\<lparr>ct_pending := RouteLookup ?li LookupFound # rest\<rparr>]" "rt_events r' = [ConnectionOpened ?li]"
    "\<not> sv_shutdown (rt_server r')"
    by fastforce
  have s2r: "pg_tasks s2 = rt_tasks r" "pg_events s2 = []" "ps_server (pg_process s2) = rt_server r"
    using s2(1) r(3) by (auto simp: router_of_def)
  have "?step s2 (with_router s2 r')"
    using program_step.connections [of demo_program s2 r'] r' r(4) infos s2 s2r by simp
  then obtain s3 where step3: "?step s2 s3" and s3: "router_of s3 = r'" "ps_hangups (pg_process s3) = []"
      "ps_lookup (pg_process s3) = ba_lookup demo_bound"
    using s2 that [of "with_router s2 r'"] by (simp add: router_of_with_router with_router_process)
  have t: "?t\<lparr>ct_pending := RouteLookup ?li LookupFound # rest\<rparr> \<in> set (pg_tasks s3)"
    using s3(1) r'(2) by (auto simp: router_of_def)
  obtain s4 where step4: "?step s3 s4" and s4: "pg_served s4 = (demo_conn, 0) # pg_served s3" "ps_hangups (pg_process s4) = []"
    using program_step.looks_up [OF t, of ?li LookupFound rest demo_program] s3
    by (fastforce simp: demo_conn_def)
  have "program_reachable demo_program s4"
    using step1 step2 step3 step4 by (meson converse_rtranclp_into_rtranclp rtranclp.rtrancl_refl)
  with s4 show ?thesis by (intro exI [of _ s4]) simp
qed

section \<open>Properties\<close>

text \<open>C3 (program\_routes\_by\_file): from the moment the program has bound its listeners with a configuration it
loaded, whatever signals arrive, whatever the file holds at each of them, and however connections,
reloads and shutdown interleave: a connection that finished its lookup and reached a backend reached
the backend which the last valid file seen before its lookup gives for the name in the client's own
hello, an exact entry before a wildcard; and the backend was sent exactly the first bytes the client sent.\<close>

theorem program_routes_by_file:
  assumes "app_config_load read0 (pe_toml env) (pe_path env) = Ok config0"
    and "bound_app_bind bind_addr otel config0 = Ok (pe_app env)"
    and "program_reachable env s" "(w, k) \<in> set (pg_served s)"
    and "run_connection (env_limits env) w = (outcome, lg)" "log_upstream lg = Some (addr, bytes)"
  shows "\<exists>read_file source raw info host b.
    file_in_force (pe_toml env) (pe_path env)
      (read0 # reads_seen (take k (ps_hangups (pg_process s)))) = Some read_file \<and>
    read_file (pe_path env) = Ok source \<and> pe_toml env source = Ok raw \<and>
    parse_client_hello bytes (env_limits env) = Some (Ok info) \<and> info_sni info = Some host \<and>
    file_routes raw host b \<and> backend_connects w b addr \<and>
    bytes @ stream_data (log_unread lg) = stream_data (w_client w)"
proof -
  let ?events = "take k (ps_hangups (pg_process s))"
  have start: "ba_lookup (pe_app env) = file_new (app_routes config0)"
    using assms(2) by (auto simp: bound_app_bind_def bind_ok_eq_Ok dest!: sym [of _ "pe_app env"])
  from sighup_loop_in_force [OF assms(1), of ?events "ba_startup (pe_app env)"] obtain read_file config where
    force: "file_in_force (pe_toml env) (pe_path env) (read0 # reads_seen ?events) = Some read_file"
      "app_config_load read_file (pe_toml env) (pe_path env) = Ok config"
      "reloaded env ?events = file_new (app_routes config)"
    unfolding start by blast
  have lookup: "w_lookup w = (\<lambda>c. Done (file_lookup (file_new (app_routes config)) c))"
    using served_ok_reachable [OF assms(3)] assms(4) force(3) by (auto simp: served_ok_def)
  from upstream_transparent [OF assms(5,6)] obtain info host route where up:
    "bytes @ stream_data (log_unread lg) = stream_data (w_client w)"
    "parse_client_hello bytes (env_limits env) = Some (Ok info)" "info_sni info = Some host"
    "resolve_route (w_lookup w) host = Ok route" "backend_connects w (match_backend route) addr"
    unfolding connect_and_replay_iff by blast
  from resolved_by_file [OF force(2) up(4) [unfolded lookup]] obtain source raw where
    "read_file (pe_path env) = Ok source" "pe_toml env source = Ok raw" "file_routes raw host (match_backend route)"
    by blast
  with force(1) up show ?thesis by blast
qed

theorem program_routes_by_file_witness:
  "\<exists>raw info host b bytes. parse_client_hello bytes hello_limits_default = Some (Ok info) \<and>
     info_sni info = Some host \<and> raw = demo_raw \<and> file_routes raw host b"
proof -
  obtain s where s: "program_reachable demo_program s" "(demo_conn, 0) \<in> set (pg_served s)"
    using demo_program_serves by blast
  obtain lg bytes where run: "run_connection hello_limits_default demo_conn = (Some Proxied, lg)"
    "log_upstream lg = Some ((V4 [10, 0, 0, 1], 443), bytes)"
    using demo_conn_run by blast
  have limits: "env_limits demo_program = hello_limits_default"
    by (simp add: demo_program_def demo_bound_def env_limits_def router_config_default_def)
  have "app_config_load (\<lambda>_. Ok ''demo'') (pe_toml demo_program) (pe_path demo_program) = Ok demo_app"
    using demo_app_loads by (simp add: demo_program_def)
  moreover have "bound_app_bind (\<lambda>addr. Ok addr) (Ok ()) demo_app = Ok (pe_app demo_program)"
    using demo_bound_binds by (simp add: demo_program_def)
  ultimately show ?thesis
    using program_routes_by_file [OF _ _ s, of "\<lambda>_. Ok ''demo''" demo_app "\<lambda>addr. Ok addr" "Ok ()" "Some Proxied" lg] run
    unfolding limits by (auto simp: demo_program_def)
qed

end
