(* ===== verification/Admin_Clock.thy ===== *)
theory Admin_Clock
  imports Admin "HOL-Library.Sublist"
begin

text \<open>
  The admin listener in time (\<open>AdminServer::serve\<close>, \<open>accept_with_slot\<close>, \<open>spawn_connection\<close> in
  \<open>app:admin.rs\<close>): when each client of the accept queue gets its slot, until shutdown; and the unit
  tests of the module.
\<close>

section \<open>Taking the next client\<close>

text \<open>
  What \<open>accept()\<close> yields, with the instant it is there: a client or an error. \<open>http\<close> is the HTTP server:
  how long it serves a client under a header timeout, \<^term>\<open>None\<close> if for ever.
\<close>

datatype 'c admin_arrival = Client nat 'c | AcceptError nat

fun arrives :: "'c admin_arrival \<Rightarrow> nat" where
  "arrives (Client instant c) = instant"
| "arrives (AcceptError instant) = instant"

definition admin_hold :: "admin_limits \<Rightarrow> (nat \<Rightarrow> 'c \<Rightarrow> nat option) \<Rightarrow> 'c \<Rightarrow> nat" where
  "admin_hold limits http c =
     (case http (al_header_timeout limits) c of
        Some t \<Rightarrow> min t (al_connection_timeout limits)
      | None \<Rightarrow> al_connection_timeout limits)"

text \<open>
  For every slot the instant it is free again, and the instant the loop comes back to \<open>select!\<close>. The
  slot is taken before the client; an error gives it back and costs a pause.
\<close>

record admin_clock =
  ac_slots :: "nat list"
  ac_now :: nat

definition admin_clock_start :: "admin_limits \<Rightarrow> admin_clock" where
  "admin_clock_start limits = \<lparr>ac_slots = replicate (al_max_connections limits) 0, ac_now = 0\<rparr>"

definition ADMIN_BACKOFF :: nat where "ADMIN_BACKOFF = from_millis 50"

definition admin_turn :: "admin_clock \<Rightarrow> 'c admin_arrival \<Rightarrow> nat" where
  "admin_turn clock next_arrival =
     max (ac_now clock) (max (min_list (ac_slots clock)) (arrives next_arrival))"

definition admin_accept ::
    "admin_limits \<Rightarrow> (nat \<Rightarrow> 'c \<Rightarrow> nat option) \<Rightarrow> 'c admin_arrival \<Rightarrow> admin_clock \<Rightarrow> admin_clock" where
  "admin_accept limits http next_arrival clock =
     (let turn = admin_turn clock next_arrival
      in case next_arrival of
           Client _ c \<Rightarrow>
             \<lparr>ac_slots = (turn + admin_hold limits http c) # remove1 (min_list (ac_slots clock)) (ac_slots clock),
              ac_now = turn\<rparr>
         | AcceptError _ \<Rightarrow> clock\<lparr>ac_now := turn + ADMIN_BACKOFF\<rparr>)"

definition admin_serves ::
    "admin_limits \<Rightarrow> (nat \<Rightarrow> 'c \<Rightarrow> nat option) \<Rightarrow> 'c admin_arrival list \<Rightarrow> admin_clock \<Rightarrow> admin_clock" where
  "admin_serves limits http arrivals clock = fold (admin_accept limits http) arrivals clock"

lemma admin_hold_bound: "admin_hold limits http c \<le> al_connection_timeout limits"
  by (simp add: admin_hold_def split: option.splits)

section \<open>How long a client waits\<close>

fun clients_of :: "'c admin_arrival list \<Rightarrow> 'c list" where
  "clients_of [] = []"
| "clients_of (Client _ c # rest) = c # clients_of rest"
| "clients_of (AcceptError _ # rest) = clients_of rest"

definition accept_errors :: "'c admin_arrival list \<Rightarrow> nat" where
  "accept_errors arrivals = length arrivals - length (clients_of arrivals)"

lemma clients_of_append [simp]: "clients_of (xs @ ys) = clients_of xs @ clients_of ys"
  by (induction xs rule: clients_of.induct) auto

lemma length_clients_of: "length (clients_of arrivals) \<le> length arrivals"
  by (induction arrivals rule: clients_of.induct) auto

lemma accept_errors_simps [simp]:
  "accept_errors [] = 0" "accept_errors (Client instant c # rest) = accept_errors rest"
  "accept_errors (AcceptError instant # rest) = Suc (accept_errors rest)"
  using length_clients_of [of rest] by (simp_all add: accept_errors_def)

text \<open>\<open>free\<close> slots are free by \<open>T\<close>, all of them by \<open>T + D\<close>, and the loop is back by \<open>T\<close>.\<close>

definition slots_by :: "nat \<Rightarrow> nat \<Rightarrow> nat \<Rightarrow> nat \<Rightarrow> admin_clock \<Rightarrow> bool" where
  "slots_by k free T D clock \<longleftrightarrow>
     length (ac_slots clock) = k \<and> 0 < k \<and> free \<le> length (filter (\<lambda>instant. instant \<le> T) (ac_slots clock)) \<and>
     (\<forall>instant \<in> set (ac_slots clock). instant \<le> T + D) \<and> ac_now clock \<le> T"

lemma slots_by_turn:
  assumes "slots_by k free T D clock" "0 < free" "arrives a \<le> T"
  shows "admin_turn clock a \<le> T" "min_list (ac_slots clock) \<le> T" "min_list (ac_slots clock) \<in> set (ac_slots clock)"
proof -
  have ne: "ac_slots clock \<noteq> []" using assms(1) by (auto simp: slots_by_def)
  then have min: "min_list (ac_slots clock) = Min (set (ac_slots clock))" by (rule min_list_Min)
  with ne show "min_list (ac_slots clock) \<in> set (ac_slots clock)" by simp
  have "filter (\<lambda>instant. instant \<le> T) (ac_slots clock) \<noteq> []" using assms(1,2) by (auto simp: slots_by_def)
  then obtain instant where "instant \<in> set (ac_slots clock)" "instant \<le> T" by (auto simp: filter_empty_conv)
  then show "min_list (ac_slots clock) \<le> T" using min by (auto intro: order_trans [OF Min_le])
  with assms show "admin_turn clock a \<le> T" by (simp add: admin_turn_def slots_by_def)
qed

lemma slots_by_client:
  assumes "slots_by k (Suc free) T D clock" "instant \<le> T" "admin_hold limits http c \<le> D"
  shows "slots_by k free T D (admin_accept limits http (Client instant c) clock)"
proof -
  let ?slot = "min_list (ac_slots clock)"
  from slots_by_turn [OF assms(1), of "Client instant c"] assms(2)
  have turn: "admin_turn clock (Client instant c) \<le> T" "?slot \<le> T" "?slot \<in> set (ac_slots clock)" by simp_all
  have "length (filter (\<lambda>instant. instant \<le> T) (ac_slots clock)) = Suc (length (filter (\<lambda>instant. instant \<le> T) (remove1 ?slot (ac_slots clock))))"
    using turn(2,3) length_remove1_mem [of ?slot "filter (\<lambda>instant. instant \<le> T) (ac_slots clock)"] by (simp add: filter_remove1)
  with assms(1,3) turn length_remove1_mem [OF turn(3)] show ?thesis
    by (auto simp: slots_by_def admin_accept_def Let_def dest: notin_set_remove1 set_remove1_subset [THEN subsetD])
qed

lemma slots_by_error:
  assumes "slots_by k (Suc free) T D clock" "instant \<le> T"
  shows "slots_by k (Suc free) (T + ADMIN_BACKOFF) D (admin_accept limits http (AcceptError instant) clock)"
proof -
  have "length (filter (\<lambda>instant. instant \<le> T) slots) \<le> length (filter (\<lambda>instant. instant \<le> T + ADMIN_BACKOFF) slots)" for slots :: "nat list"
    by (induction slots) auto
  from this [of "ac_slots clock"] slots_by_turn [OF assms(1), of "AcceptError instant"] assms show ?thesis
    by (auto simp: slots_by_def admin_accept_def Let_def intro: trans_le_add1 elim: le_trans)
qed

lemma slots_by_all: "slots_by k free T D clock \<Longrightarrow> slots_by k k (T + D) D clock"
  by (auto simp: slots_by_def filter_id_conv [THEN iffD2])

definition wait_rounds :: "nat \<Rightarrow> nat \<Rightarrow> nat \<Rightarrow> nat" where
  "wait_rounds k free n = (if n < free then 0 else (n - free) div k + 1)"

lemma wait_rounds_Suc: "wait_rounds k (Suc free) (Suc n) = wait_rounds k free n"
  by (simp add: wait_rounds_def)

lemma wait_rounds_shift: "0 < k \<Longrightarrow> wait_rounds k 0 n = Suc (wait_rounds k k n)"
  by (auto simp: wait_rounds_def div_if)

lemma turn_after:
  assumes "slots_by k free T D clock" "\<forall>a \<in> set (a # ahead). arrives a \<le> T"
    and "\<forall>c \<in> set (clients_of ahead). admin_hold limits http c \<le> D"
  shows "admin_turn (admin_serves limits http ahead clock) a \<le>
    T + wait_rounds k free (length (clients_of ahead)) * D + accept_errors ahead * ADMIN_BACKOFF"
  using assms
proof (induction ahead arbitrary: free T clock)
  case Nil
  have "0 < k" using Nil(1) by (simp add: slots_by_def)
  show ?case
  proof (cases free)
    case 0
    from slots_by_turn(1) [OF slots_by_all [OF Nil(1)] \<open>0 < k\<close>, of a] Nil(2) 0 show ?thesis
      by (simp add: wait_rounds_def admin_serves_def)
  next
    case (Suc f)
    with slots_by_turn(1) [OF Nil(1), of a] Nil(2) show ?thesis by (simp add: wait_rounds_def admin_serves_def)
  qed
next
  case (Cons b ahead)
  have k: "0 < k" using Cons.prems(1) by (simp add: slots_by_def)
  have step: "admin_turn (admin_serves limits http (b # ahead) clock) a \<le>
      S + wait_rounds k free (length (clients_of (b # ahead))) * D + accept_errors (b # ahead) * ADMIN_BACKOFF"
    if "slots_by k free S D clock" "0 < free" "T \<le> S" for free S
  proof -
    from that(2) obtain f where f: "free = Suc f" by (cases free) auto
    show ?thesis
    proof (cases b)
      case (Client instant c)
      have later: "\<forall>a \<in> set (a # ahead). arrives a \<le> S" using Cons.prems(2) that(3) by (auto intro: le_trans)
      from slots_by_client [OF that(1) [unfolded f], of instant limits http c] Cons.prems(2,3) that(3)
      have "slots_by k f S D (admin_accept limits http b clock)" by (simp add: Client)
      from Cons.IH [OF this later] Cons.prems(3) show ?thesis
        by (simp add: Client f admin_serves_def wait_rounds_Suc)
    next
      case (AcceptError instant)
      from slots_by_error [OF that(1) [unfolded f], of instant limits http] Cons.prems(2) that(3)
      have "slots_by k free (S + ADMIN_BACKOFF) D (admin_accept limits http b clock)" by (simp add: AcceptError f)
      moreover have "\<forall>a \<in> set (a # ahead). arrives a \<le> S + ADMIN_BACKOFF"
        using Cons.prems(2) that(3) by (auto intro: le_trans trans_le_add1)
      ultimately show ?thesis
        using Cons.IH [of free "S + ADMIN_BACKOFF" "admin_accept limits http b clock"] Cons.prems(3)
        by (simp add: AcceptError admin_serves_def)
    qed
  qed
  show ?case
  proof (cases "0 < free")
    case True
    from step [OF Cons.prems(1) True order_refl] show ?thesis .
  next
    case False
    from step [OF slots_by_all [OF Cons.prems(1)] k] False show ?thesis
      by (simp add: wait_rounds_shift [OF k])
  qed
qed

text \<open>At every instant all slots are free again within the longest hold.\<close>

lemma serves_slots_by:
  assumes "0 < al_max_connections limits" "\<forall>c \<in> set (clients_of served). admin_hold limits http c \<le> D"
  shows "slots_by (al_max_connections limits) 0 (ac_now (admin_serves limits http served (admin_clock_start limits))) D
    (admin_serves limits http served (admin_clock_start limits))"
  using assms(2)
proof (induction served rule: rev_induct)
  case Nil
  from assms(1) show ?case by (simp add: slots_by_def admin_serves_def admin_clock_start_def)
next
  case (snoc a served)
  let ?clock = "admin_serves limits http served (admin_clock_start limits)"
  have ok: "slots_by (al_max_connections limits) 0 (ac_now ?clock) D ?clock" using snoc by simp
  then have ne: "ac_slots ?clock \<noteq> []" by (auto simp: slots_by_def)
  then have "min_list (ac_slots ?clock) \<in> set (ac_slots ?clock)" by (simp add: min_list_Min)
  from length_remove1_mem [OF this] ok snoc.prems show ?case
    by (cases a)
      (force simp: slots_by_def admin_serves_def admin_accept_def admin_turn_def Let_def
        dest: notin_set_remove1 set_remove1_subset [THEN subsetD])+
qed

lemma slots_by_later: "slots_by k 0 T D clock \<Longrightarrow> T \<le> T' \<Longrightarrow> slots_by k 0 T' D clock"
  by (auto simp: slots_by_def intro: le_trans)

lemma admin_wait:
  fixes client :: 'c and ahead :: "'c admin_arrival list"
  assumes "0 < al_max_connections limits"
    and "clock = admin_serves limits http served (admin_clock_start limits)" "ac_now clock \<le> instant"
    and "\<forall>a \<in> set ahead. arrives a \<le> instant"
    and "\<forall>c \<in> set (clients_of (served @ ahead)). admin_hold limits http c \<le> D"
  shows "admin_turn (admin_serves limits http ahead clock) (Client instant client) \<le>
    instant + (length (clients_of ahead) div al_max_connections limits + 1) * D + accept_errors ahead * ADMIN_BACKOFF"
proof -
  have "slots_by (al_max_connections limits) 0 (ac_now clock) D clock"
    unfolding assms(2) using assms(1,5) by (intro serves_slots_by) auto
  from turn_after [OF slots_by_later [OF this assms(3)], where a = "Client instant client" and ahead = ahead and limits = limits and http = http] assms(4,5)
  show ?thesis by (simp add: wait_rounds_def)
qed

section \<open>The timed listener is a run of the untimed one\<close>

text \<open>The slots at an instant, as the state of \<open>admin_step\<close>: the free ones and the tasks that hold one.\<close>

definition admin_at :: "nat \<Rightarrow> admin_clock \<Rightarrow> admin_sys" where
  "admin_at t clock =
     \<lparr>as_free = length (filter (\<lambda>instant. instant \<le> t) (ac_slots clock)), as_holding = False,
      as_tasks = length (filter (\<lambda>instant. t < instant) (ac_slots clock)), as_pc = AdminServing\<rparr>"

lemma tasks_end:
  "admin_step\<^sup>*\<^sup>* \<lparr>as_free = f, as_holding = False, as_tasks = n + k, as_pc = AdminServing\<rparr>
     \<lparr>as_free = f + n, as_holding = False, as_tasks = k, as_pc = AdminServing\<rparr>"
proof (induction n arbitrary: f)
  case (Suc n)
  have "admin_step \<lparr>as_free = f, as_holding = False, as_tasks = Suc n + k, as_pc = AdminServing\<rparr>
      \<lparr>as_free = Suc f, as_holding = False, as_tasks = n + k, as_pc = AdminServing\<rparr>"
    using admin_step.task_ends [of "\<lparr>as_free = f, as_holding = False, as_tasks = Suc n + k, as_pc = AdminServing\<rparr>"] by simp
  from converse_rtranclp_into_rtranclp [of admin_step, OF this Suc.IH [of "Suc f"]] show ?case by simp
qed simp

lemma admin_time_passes:
  assumes "t \<le> t'"
  shows "admin_step\<^sup>*\<^sup>* (admin_at t clock) (admin_at t' clock)"
proof -
  have "length (filter (\<lambda>instant. instant \<le> t') slots) =
      length (filter (\<lambda>instant. instant \<le> t) slots) + length (filter (\<lambda>instant. t < instant \<and> instant \<le> t') slots) \<and>
    length (filter (\<lambda>instant. t < instant) slots) =
      length (filter (\<lambda>instant. t < instant \<and> instant \<le> t') slots) + length (filter (\<lambda>instant. t' < instant) slots)"
    for slots using assms by (induction slots) auto
  with tasks_end show ?thesis by (simp add: admin_at_def)
qed

lemma admin_accept_refines:
  assumes "ac_slots clock \<noteq> []"
  shows "admin_step\<^sup>*\<^sup>* (admin_at (ac_now clock) clock)
    (admin_at (ac_now (admin_accept limits http a clock)) (admin_accept limits http a clock))"
proof -
  let ?turn = "admin_turn clock a" and ?slot = "min_list (ac_slots clock)"
  have wait: "admin_step\<^sup>*\<^sup>* (admin_at (ac_now clock) clock) (admin_at ?turn clock)"
    by (rule admin_time_passes) (simp add: admin_turn_def)
  show ?thesis
  proof (cases a)
    case (AcceptError instant)
    have "admin_step\<^sup>*\<^sup>* (admin_at ?turn clock) (admin_at (?turn + ADMIN_BACKOFF) clock)" by (rule admin_time_passes) simp
    with wait show ?thesis by (simp add: AcceptError admin_accept_def admin_at_def)
  next
    case (Client instant c)
    let ?s = "admin_at ?turn clock" and ?rest = "remove1 ?slot (ac_slots clock)"
    have slot: "?slot \<in> set (ac_slots clock)" "?slot \<le> ?turn" using assms by (simp_all add: min_list_Min admin_turn_def)
    have counts: "length (filter (\<lambda>instant. instant \<le> ?turn) (ac_slots clock)) = Suc (length (filter (\<lambda>instant. instant \<le> ?turn) ?rest))"
      "filter (\<lambda>instant. ?turn < instant) (ac_slots clock) = filter (\<lambda>instant. ?turn < instant) ?rest"
      using slot length_remove1_mem [of ?slot "filter (\<lambda>instant. instant \<le> ?turn) (ac_slots clock)"]
      by (simp_all add: filter_remove1 remove1_idem)
    have "admin_step ?s (?s\<lparr>as_free := as_free ?s - 1, as_holding := True\<rparr>)"
      by (rule admin_step.acquire_slot) (simp_all add: admin_at_def counts)
    moreover have "admin_step (?s\<lparr>as_free := as_free ?s - 1, as_holding := True\<rparr>)
        (?s\<lparr>as_free := as_free ?s - 1, as_tasks := as_tasks ?s + 1\<rparr>)"
      using admin_step.spawn_connection [of "?s\<lparr>as_free := as_free ?s - 1, as_holding := True\<rparr>"] by (simp add: admin_at_def)
    ultimately have taken: "admin_step\<^sup>*\<^sup>* ?s (?s\<lparr>as_free := as_free ?s - 1, as_tasks := as_tasks ?s + 1\<rparr>)" by simp
    let ?s' = "admin_at ?turn (admin_accept limits http a clock)"
    have "admin_step\<^sup>*\<^sup>* (?s\<lparr>as_free := as_free ?s - 1, as_tasks := as_tasks ?s + 1\<rparr>) ?s'"
      using tasks_end [of "as_free ?s - 1" 1 "as_tasks ?s"]
      by (simp add: Client admin_accept_def admin_at_def counts [unfolded Client] Let_def)
    with wait taken show ?thesis by (simp add: Client admin_accept_def Let_def)
  qed
qed

section \<open>Unit tests\<close>

text \<open>\<open>get\<close> is the request and what the server answers; a test reads the status and the body.\<close>

definition admin_get :: "admin_routes \<Rightarrow> (string, 'e) result \<Rightarrow> string \<Rightarrow> http_response" where
  "admin_get routes encoded path = admin_handle routes encoded GET path"

text \<open>The clients are numbered; the last one asks for the health path. \<open>started\<close> is when it connects.\<close>

definition idle_connections_cannot_starve_health_checks ::
    "(nat \<Rightarrow> nat \<Rightarrow> nat option) \<Rightarrow> nat list \<Rightarrow> nat \<Rightarrow> bool" where
  "idle_connections_cannot_starve_health_checks http idle started \<longleftrightarrow>
     (let limits = \<lparr>al_max_connections = 4, al_header_timeout = from_millis 200, al_connection_timeout = from_secs 5\<rparr>;
          clock = admin_serves limits http (map2 Client idle [0..<4]) (admin_clock_start limits);
          turn = admin_turn clock (Client started (4 :: nat));
          health = admin_get \<lparr>ar_health_path = ''/health'', ar_health = health_new\<rparr> (Ok [] :: (string, unit) result) ''/health''
      in (case http (al_header_timeout limits) 4 of
            Some t \<Rightarrow> t \<le> al_connection_timeout limits \<and> turn + t < started + from_secs 1
          | None \<Rightarrow> False) \<and>
         resp_status health = 200)"

lemma idle_connections_cannot_starve_health_checks_pass:
  assumes "length idle = 4" "\<forall>instant \<in> set idle. instant \<le> started"
    and "\<forall>c < 4. \<exists>t \<le> from_millis 200. http (from_millis 200) c = Some t"
    and "http (from_millis 200) 4 = Some t" "t < from_millis 600"
  shows "idle_connections_cannot_starve_health_checks http idle started"
proof -
  let ?limits = "\<lparr>al_max_connections = 4, al_header_timeout = from_millis 200, al_connection_timeout = from_secs 5\<rparr>"
  obtain a b c d where idle: "idle = [a, b, c, d]" using assms(1) by (auto simp: length_Suc_conv numeral_eq_Suc)
  have ahead: "map2 Client idle [0..<4] = [Client a 0, Client b 1, Client c 2, Client d 3]"
    by (simp add: idle upt_rec)
  have hold: "admin_hold ?limits http c \<le> from_millis 200" if "c < 4" for c
    using assms(3) that by (auto simp: admin_hold_def)
  have "\<forall>c \<in> set (clients_of ([] @ map2 Client idle [0..<4])). admin_hold ?limits http c \<le> from_millis 200"
    by (simp add: ahead hold)
  moreover have "\<forall>x \<in> set (map2 Client idle [0..<4]). arrives x \<le> started" unfolding ahead using assms(2) by (simp add: idle)
  moreover have "ac_now (admin_clock_start ?limits) \<le> started" by (simp add: admin_clock_start_def)
  ultimately have "admin_turn (admin_serves ?limits http (map2 Client idle [0..<4]) (admin_clock_start ?limits)) (Client started (4 :: nat)) \<le>
      started + 2 * from_millis 200"
    using admin_wait [of ?limits "admin_clock_start ?limits" http "[]" started "map2 Client idle [0..<4]" "from_millis 200" 4]
    by (simp add: ahead admin_serves_def)
  with assms(4,5) show ?thesis
    by (simp add: idle_connections_cannot_starve_health_checks_def Let_def admin_get_def admin_handle_def health_new_def
        is_draining_def text_response_def from_millis_def from_secs_def NANOS_def)
qed

text \<open>\<open>encoded\<close> is the text of a registry with the counter \<open>test_total\<close> at one.\<close>

definition serves_health_metrics_and_404 :: "string \<Rightarrow> bool" where
  "serves_health_metrics_and_404 encoded \<longleftrightarrow>
     (let routes = \<lparr>ar_health_path = ''/health'', ar_health = health_new\<rparr>;
          registry = (Ok encoded :: (string, unit) result);
          metrics = admin_get routes registry ''/metrics'';
          after = admin_get (routes\<lparr>ar_health := set_draining (ar_health routes)\<rparr>) registry ''/health''
      in resp_status (admin_get routes registry ''/health'') = 200 \<and>
         resp_status metrics = 200 \<and> sublist ''test_total 1'' (resp_body metrics) \<and>
         resp_status (admin_get routes registry ''/nope'') = 404 \<and>
         resp_status after = 503 \<and> suffix (''draining'' @ newline) (resp_body after))"

lemma serves_health_metrics_and_404_pass:
  "sublist ''test_total 1'' encoded \<Longrightarrow> serves_health_metrics_and_404 encoded"
  by (simp add: serves_health_metrics_and_404_def Let_def admin_get_def admin_handle_def health_new_def is_draining_def
      set_draining_def text_response_def admin_metrics_def)

section \<open>Properties\<close>

text \<open>C34 (admin\_not\_starved): a client of the admin listener gets a slot within one connection timeout for
every \<open>max_connections\<close> clients that are ahead of it when it connects, and one more, whatever those
clients do; each failing \<open>accept\<close> before it adds fifty milliseconds.\<close>

theorem admin_not_starved:
  fixes client :: 'c and ahead :: "'c admin_arrival list"
  assumes "0 < al_max_connections limits"
    and "clock = admin_serves limits http served (admin_clock_start limits)" "ac_now clock \<le> instant"
    and "\<forall>a \<in> set ahead. arrives a \<le> instant"
  shows "admin_turn (admin_serves limits http ahead clock) (Client instant client) \<le>
    instant + (length (clients_of ahead) div al_max_connections limits + 1) * al_connection_timeout limits +
    accept_errors ahead * from_millis 50"
  using admin_wait [OF assms, of "al_connection_timeout limits" client] admin_hold_bound [of limits http]
  by (simp add: ADMIN_BACKOFF_def)

theorem admin_not_starved_witness:
  "admin_turn (admin_serves admin_limits_default (\<lambda>_ _. None) (replicate 300 (Client 0 ()))
     (admin_clock_start admin_limits_default)) (Client 7 ()) \<le> 7 + 2 * from_secs 5"
proof -
  have clients: "clients_of (replicate n (Client 0 ())) = replicate n ()" "accept_errors (replicate n (Client 0 ())) = 0" for n
    by (induction n) simp_all
  have limits: "0 < al_max_connections admin_limits_default" "al_max_connections admin_limits_default = 256"
    "al_connection_timeout admin_limits_default = from_secs 5"
    by (simp_all add: admin_limits_default_def)
  have start: "admin_clock_start admin_limits_default =
      admin_serves admin_limits_default (\<lambda>_ _. None) ([] :: unit admin_arrival list) (admin_clock_start admin_limits_default)"
    by (simp add: admin_serves_def)
  have "ac_now (admin_clock_start admin_limits_default) \<le> 7" by (simp add: admin_clock_start_def)
  from admin_not_starved [OF limits(1) start this, of "replicate 300 (Client 0 ())" "()"] show ?thesis
    by (simp add: clients limits(2,3))
qed

end
