(* ===== verification/Cache_Invariant.thy ===== *)
theory Cache_Invariant
  imports Route_Cache
begin

text \<open>
  The invariant of the caching lookup and its consequences: bounded memory, an index that
  agrees with the entries, one load per candidate set, every slot owned by a running load,
  and results of invalidated loads that are never cached.
\<close>

section \<open>Association lists\<close>

lemma map_of_alist_delete: "map_of (AList.delete k al) k' = (if k' = k then None else map_of al k')"
  by (simp add: delete_conv')

lemma map_of_alist_update: "map_of (AList.update k v al) k' = (if k' = k then Some v else map_of al k')"
  by (simp add: update_conv)

lemma length_alist_delete:
  "distinct (map fst al) \<Longrightarrow>
   length (AList.delete k al) = length al - (if map_of al k = None then 0 else 1)"
proof (induction al)
  case (Cons x al)
  show ?case
  proof (cases "fst x = k")
    case True
    with Cons.prems have "k \<notin> fst ` set al" by auto
    with True show ?thesis by simp
  next
    case False
    moreover have "0 < length al" if "map_of al k \<noteq> None" using that by (cases al) auto
    ultimately show ?thesis using Cons by (auto simp: Suc_diff_le)
  qed
qed simp

lemma length_alist_update:
  "length (AList.update k v al) = length al + (if map_of al k = None then 1 else 0)"
  by (induction al) auto

lemmas alist_simps = map_of_alist_delete map_of_alist_update length_alist_delete length_alist_update
  distinct_delete distinct_update

lemma index_get_add [simp]:
  "set (index_get (index_add c k idx) k') = set (index_get idx k') \<union> (if k' = k then {c} else {})"
  by (auto simp: index_add_def index_get_def alist_simps)

lemma index_get_remove [simp]:
  "set (index_get (index_remove c k idx) k') = set (index_get idx k') - (if k' = k then {c} else {})"
proof -
  have "removeAll c cs = [] \<longleftrightarrow> set cs \<subseteq> {c}" for cs :: "route_candidates list"
    by (simp flip: set_empty)
  then show ?thesis
    by (auto simp: index_remove_def index_get_def alist_simps Let_def split: option.splits)
qed

lemma index_get_fold_add [simp]:
  "set (index_get (fold (index_add c) ks idx) k) =
     set (index_get idx k) \<union> (if k \<in> set ks then {c} else {})"
  by (induction ks arbitrary: idx) auto

lemma index_get_fold_remove [simp]:
  "set (index_get (fold (index_remove c) ks idx) k) =
     set (index_get idx k) - (if k \<in> set ks then {c} else {})"
  by (induction ks arbitrary: idx) auto

lemma index_get_delete [simp]:
  "set (index_get (AList.delete key idx) k) = (if k = key then {} else set (index_get idx k))"
  by (simp add: index_get_def alist_simps)

section \<open>The invariant of the state\<close>

definition index_ok :: "cache_state \<Rightarrow> bool" where
  "index_ok st \<longleftrightarrow>
     (\<forall>k c. c \<in> set (index_get (cs_index st) k) \<longleftrightarrow>
        map_of (cs_entries st) c \<noteq> None \<and> k \<in> set (cand_keys c))"

text \<open>Every entry has its record in the order, and no id occurs twice there.\<close>

definition order_ok :: "cache_state \<Rightarrow> bool" where
  "order_ok st \<longleftrightarrow>
     distinct (map snd (cs_order st)) \<and>
     (\<forall>c e. map_of (cs_entries st) c = Some e \<longrightarrow> (c, ent_id e) \<in> set (cs_order st)) \<and>
     (\<forall>r \<in> set (cs_order st). snd r < cs_next_id st)"

definition state_ok :: "cache_config \<Rightarrow> cache_state \<Rightarrow> bool" where
  "state_ok cfg st \<longleftrightarrow>
     distinct (map fst (cs_entries st)) \<and> distinct (map fst (cs_inflight st)) \<and>
     length (cs_entries st) \<le> cfg_max_entries cfg \<and> index_ok st \<and> order_ok st \<and>
     length (cs_order st) \<le> cfg_max_entries cfg * 2 \<and>
     (\<forall>c lid. map_of (cs_inflight st) c = Some lid \<longrightarrow> lid < cs_next_id st)"

lemma remove_entry_simps [simp]:
  "cs_order (remove_entry c st) = cs_order st"
  "cs_inflight (remove_entry c st) = cs_inflight st"
  "cs_next_id (remove_entry c st) = cs_next_id st"
  "cs_running_loads (remove_entry c st) = cs_running_loads st"
  "cs_last_purge (remove_entry c st) = cs_last_purge st"
  "map_of (cs_entries (remove_entry c st)) c' = (if c' = c then None else map_of (cs_entries st) c')"
  by (auto simp: remove_entry_def alist_simps)

lemma fold_remove_entry_simps [simp]:
  "cs_order (fold remove_entry cs st) = cs_order st"
  "cs_inflight (fold remove_entry cs st) = cs_inflight st"
  "cs_next_id (fold remove_entry cs st) = cs_next_id st"
  "cs_running_loads (fold remove_entry cs st) = cs_running_loads st"
  "map_of (cs_entries (fold remove_entry cs st)) c =
     (if c \<in> set cs then None else map_of (cs_entries st) c)"
  by (induction cs arbitrary: st) auto

lemma length_remove_entry_le: "length (cs_entries (remove_entry c st)) \<le> length (cs_entries st)"
  by (simp add: remove_entry_def length_delete_le)

lemma distinct_remove_entry:
  "distinct (map fst (cs_entries st)) \<Longrightarrow> distinct (map fst (cs_entries (remove_entry c st)))"
  by (simp add: remove_entry_def distinct_delete)

lemma fold_remove_entry_ok:
  "length (cs_entries (fold remove_entry cs st)) \<le> length (cs_entries st)"
  "distinct (map fst (cs_entries st)) \<Longrightarrow> distinct (map fst (cs_entries (fold remove_entry cs st)))"
  by (induction cs arbitrary: st)
    (auto intro: distinct_remove_entry order.trans [OF _ length_remove_entry_le])

lemma index_remove_entry:
  "set (index_get (cs_index (remove_entry c st)) k) =
     set (index_get (cs_index st) k) -
     (if map_of (cs_entries st) c \<noteq> None \<and> k \<in> set (cand_keys c) then {c} else {})"
  by (auto simp: remove_entry_def)

lemma index_ok_remove_entry: "index_ok st \<Longrightarrow> index_ok (remove_entry c st)"
  unfolding index_ok_def by (auto simp: index_remove_entry)

lemma index_fold_remove_entry:
  "set (index_get (cs_index (fold remove_entry cs st)) k) =
     set (index_get (cs_index st) k) -
     {c \<in> set cs. map_of (cs_entries st) c \<noteq> None \<and> k \<in> set (cand_keys c)}"
  by (induction cs arbitrary: st) (auto simp: index_remove_entry)

lemma index_ok_fold_remove_entry: "index_ok st \<Longrightarrow> index_ok (fold remove_entry cs st)"
  by (induction cs arbitrary: st) (auto intro: index_ok_remove_entry)

lemma order_ok_remove_entry: "order_ok st \<Longrightarrow> order_ok (remove_entry c st)"
  by (simp add: order_ok_def)

lemma state_ok_remove_entry: "state_ok cfg st \<Longrightarrow> state_ok cfg (remove_entry c st)"
  using length_remove_entry_le [of c st]
  by (auto simp: state_ok_def distinct_remove_entry index_ok_remove_entry order_ok_remove_entry)

section \<open>Making room\<close>

text \<open>What eviction may change: it only removes entries and drops order records.\<close>

definition shrinks :: "cache_state \<Rightarrow> cache_state \<Rightarrow> bool" where
  "shrinks st st' \<longleftrightarrow>
     cs_inflight st' = cs_inflight st \<and> cs_next_id st' = cs_next_id st \<and>
     cs_running_loads st' = cs_running_loads st \<and>
     (\<forall>c. map_of (cs_entries st') c = None \<or> map_of (cs_entries st') c = map_of (cs_entries st) c) \<and>
     length (cs_entries st') \<le> length (cs_entries st) \<and> set (cs_order st') \<subseteq> set (cs_order st)"

lemma shrinks_refl [simp]: "shrinks st st"
  by (simp add: shrinks_def)

lemma shrinks_trans: "shrinks a b \<Longrightarrow> shrinks b c \<Longrightarrow> shrinks a c"
  by (fastforce simp: shrinks_def)

lemma order_ok_pop:
  assumes ok: "order_ok st" and order: "cs_order st = r # rest"
    and removed: "is_live (st\<lparr>cs_order := rest\<rparr>) r \<Longrightarrow> map_of (cs_entries st') (fst r) = None"
    and same: "\<And>c e. map_of (cs_entries st') c = Some e \<Longrightarrow> map_of (cs_entries st) c = Some e"
    and rest: "cs_order st' = rest" "cs_next_id st' = cs_next_id st"
  shows "order_ok st'"
proof -
  have "(c, ent_id e) \<in> set rest" if "map_of (cs_entries st') c = Some e" for c e
  proof (rule ccontr)
    assume "(c, ent_id e) \<notin> set rest"
    with ok order same [OF that] have r: "r = (c, ent_id e)" by (auto simp: order_ok_def)
    with same [OF that] have "is_live (st\<lparr>cs_order := rest\<rparr>) r" by (simp add: is_live_def)
    from removed [OF this] that r show False by simp
  qed
  with ok order rest show ?thesis by (simp add: order_ok_def)
qed

lemma evict_loop_ok:
  assumes "distinct (map fst (cs_entries st))" "index_ok st" "order_ok st" "0 < cfg_max_entries cfg"
  shows "distinct (map fst (cs_entries (evict_loop cfg st))) \<and> index_ok (evict_loop cfg st) \<and>
    order_ok (evict_loop cfg st) \<and> length (cs_entries (evict_loop cfg st)) < cfg_max_entries cfg \<and>
    length (cs_order (evict_loop cfg st)) \<le> length (cs_order st) \<and> shrinks st (evict_loop cfg st)"
  using assms
proof (induction cfg st rule: evict_loop.induct)
  case (1 cfg st)
  show ?case
  proof (cases "length (cs_entries st) \<ge> cfg_max_entries cfg")
    case False
    with "1.prems" show ?thesis by (simp add: evict_loop.simps)
  next
    case full: True
    show ?thesis
    proof (cases "cs_order st")
      case Nil
      with "1.prems"(3) have "map_of (cs_entries st) c = None" for c
        by (cases "map_of (cs_entries st) c") (auto simp: order_ok_def)
      then have "map_of (cs_entries st) = Map.empty" by (simp add: fun_eq_iff)
      then have "cs_entries st = []" by simp
      with full "1.prems" show ?thesis by simp
    next
      case (Cons r rest)
      let ?st = "st\<lparr>cs_order := rest\<rparr>"
      let ?next = "if is_live ?st r then remove_entry (fst r) ?st else ?st"
      have loop: "evict_loop cfg st = evict_loop cfg ?next"
        using full Cons by (simp add: evict_loop.simps [of cfg st] Let_def)
      have idx: "index_ok ?st" using "1.prems"(2) by (simp add: index_ok_def)
      have step: "distinct (map fst (cs_entries ?next))" "index_ok ?next"
        using "1.prems"(1) idx
        by (auto simp: distinct_remove_entry index_ok_remove_entry)
      have ord: "order_ok ?next"
        by (rule order_ok_pop [OF "1.prems"(3) Cons]) (auto split: if_splits)
      have "shrinks st ?next" "length (cs_order ?next) \<le> length (cs_order st)"
        using Cons length_remove_entry_le [of "fst r" ?st] by (auto simp: shrinks_def)
      with "1.IH" [OF full Cons refl step ord "1.prems"(4)] show ?thesis
        unfolding loop by (auto intro: shrinks_trans)
    qed
  qed
qed

lemma order_ok_shrink:
  assumes "order_ok st" "cs_order st' = cs_order st" "cs_next_id st' = cs_next_id st"
    and "\<And>c e. map_of (cs_entries st') c = Some e \<Longrightarrow> map_of (cs_entries st) c = Some e"
  shows "order_ok st'"
  using assms by (auto simp: order_ok_def)

lemma make_room_ok:
  assumes "distinct (map fst (cs_entries st))" "index_ok st" "order_ok st" "0 < cfg_max_entries cfg"
  shows "distinct (map fst (cs_entries (make_room cfg now st))) \<and> index_ok (make_room cfg now st) \<and>
    order_ok (make_room cfg now st) \<and>
    length (cs_entries (make_room cfg now st)) < cfg_max_entries cfg \<and>
    length (cs_order (make_room cfg now st)) \<le> length (cs_order st) \<and>
    shrinks st (make_room cfg now st)"
proof (cases "length (cs_entries st) < cfg_max_entries cfg")
  case True
  with assms show ?thesis by (simp add: make_room_def)
next
  case False
  let ?dead = "dead_entries now st"
  let ?purged = "(fold remove_entry ?dead st)\<lparr>cs_last_purge := Some now\<rparr>"
  obtain st1 where st1: "make_room cfg now st = evict_loop cfg st1" "st1 = ?purged \<or> st1 = st"
    using False by (auto simp: make_room_def Let_def)
  have "distinct (map fst (cs_entries ?purged))" "shrinks st ?purged"
    using assms(1) fold_remove_entry_ok [where cs = ?dead] by (auto simp: shrinks_def)
  moreover have "index_ok ?purged"
    using index_ok_fold_remove_entry [OF assms(2), of ?dead] by (simp add: index_ok_def)
  moreover have "order_ok ?purged"
    by (rule order_ok_shrink [OF assms(3)]) (auto split: if_splits)
  moreover have "length (cs_order ?purged) = length (cs_order st)" by simp
  ultimately have "distinct (map fst (cs_entries st1))" "index_ok st1" "order_ok st1"
    "shrinks st st1" "length (cs_order st1) = length (cs_order st)"
    using st1(2) assms by auto
  with evict_loop_ok [of st1 cfg] assms(4) show ?thesis
    unfolding st1(1) by (auto intro: shrinks_trans)
qed

section \<open>Operations keep the invariant\<close>

lemma live_order_length:
  assumes "order_ok st"
  shows "length (filter (is_live st) (cs_order st)) \<le> length (cs_entries st)"
proof -
  let ?live = "filter (is_live st) (cs_order st)"
  have d: "distinct ?live" using assms by (auto simp: order_ok_def distinct_map)
  have inj: "inj_on fst (set ?live)"
    by (auto simp: inj_on_def is_live_def split: option.splits)
  have "fst ` set ?live \<subseteq> fst ` set (cs_entries st)"
    by (auto simp: is_live_def image_iff dest!: map_of_SomeD split: option.splits) force
  then have "card (fst ` set ?live) \<le> card (fst ` set (cs_entries st))"
    by (intro card_mono) auto
  also have "\<dots> \<le> length (cs_entries st)"
    by (metis card_length length_map set_map)
  finally show ?thesis using card_image [OF inj] distinct_card [OF d] by simp
qed

text \<open>The insertion without the final compaction of the order.\<close>

definition insert_core ::
    "cache_config \<Rightarrow> nat \<Rightarrow> route_candidates \<Rightarrow> cache_entry \<Rightarrow> cache_state \<Rightarrow> cache_state" where
  "insert_core cfg now c e st =
     (let st2 = (if map_of (cs_entries st) c = None
                 then let st' = make_room cfg now st
                      in st'\<lparr>cs_index := fold (index_add c) (cand_keys c) (cs_index st')\<rparr>
                 else st)
      in st2\<lparr>cs_entries := AList.update c e (cs_entries st2),
             cs_order := cs_order st2 @ [(c, ent_id e)]\<rparr>)"

lemma cache_insert_core:
  assumes "cfg_max_entries cfg \<noteq> 0"
  shows "\<exists>e. ent_hits e = hits \<and> ent_id e = cs_next_id st \<and>
    (let st3 = insert_core cfg now c e (snd (take_id st))
     in cache_insert env cfg now c hits st =
          (if length (cs_order st3) > cfg_max_entries cfg * 2
           then st3\<lparr>cs_order := filter (is_live st3) (cs_order st3)\<rparr> else st3))"
  using assms
  by (intro exI [of _ "\<lparr>ent_hits = hits,
        ent_expires = later env now (if hits = [] then cfg_negative_ttl cfg
          else jittered (env_hash env) (cfg_ttl cfg) (cfg_jitter cfg) (cs_next_id st)),
        ent_stale_until = later env (later env now (if hits = [] then cfg_negative_ttl cfg
          else jittered (env_hash env) (cfg_ttl cfg) (cfg_jitter cfg) (cs_next_id st)))
          (case cfg_stale_if_error cfg of None \<Rightarrow> 0 | Some d \<Rightarrow> d),
        ent_id = cs_next_id st\<rparr>"])
    (simp add: cache_insert_def insert_core_def take_id_def Let_def)

lemma order_ok_push:
  assumes "order_ok st" "\<forall>r \<in> set (cs_order st). snd r < ent_id e" "ent_id e < cs_next_id st"
  shows "order_ok (st\<lparr>cs_entries := AList.update c e (cs_entries st),
    cs_order := cs_order st @ [(c, ent_id e)]\<rparr>)"
  using assms by (auto simp: order_ok_def alist_simps)

lemma insert_core_ok:
  assumes ok: "distinct (map fst (cs_entries st))" "index_ok st" "order_ok st"
    and room: "length (cs_entries st) \<le> cfg_max_entries cfg" "0 < cfg_max_entries cfg"
    and fresh: "\<forall>r \<in> set (cs_order st). snd r < ent_id e" "ent_id e < cs_next_id st"
  shows "distinct (map fst (cs_entries (insert_core cfg now c e st))) \<and>
    index_ok (insert_core cfg now c e st) \<and> order_ok (insert_core cfg now c e st) \<and>
    length (cs_entries (insert_core cfg now c e st)) \<le> cfg_max_entries cfg \<and>
    cs_inflight (insert_core cfg now c e st) = cs_inflight st \<and>
    cs_next_id (insert_core cfg now c e st) = cs_next_id st \<and>
    cs_running_loads (insert_core cfg now c e st) = cs_running_loads st"
proof (cases "map_of (cs_entries st) c = None")
  case True
  let ?mr = "make_room cfg now st"
  have mr: "distinct (map fst (cs_entries ?mr))" "index_ok ?mr" "order_ok ?mr"
    "length (cs_entries ?mr) < cfg_max_entries cfg" and sh: "shrinks st ?mr"
    using make_room_ok [OF ok room(2)] by blast+
  from sh True have none: "map_of (cs_entries ?mr) c = None" by (auto simp: shrinks_def)
  from sh fresh have "\<forall>r \<in> set (cs_order ?mr). snd r < ent_id e" "ent_id e < cs_next_id ?mr"
    by (auto simp: shrinks_def)
  from order_ok_push [OF mr(3) this, of c]
  have "order_ok (insert_core cfg now c e st)"
    using True by (simp add: insert_core_def order_ok_def Let_def)
  moreover have "index_ok (insert_core cfg now c e st)"
    using True mr(2) none by (auto simp: insert_core_def index_ok_def alist_simps Let_def)
  ultimately show ?thesis
    using True mr none sh by (simp add: insert_core_def alist_simps shrinks_def Let_def)
next
  case False
  moreover have "index_ok (insert_core cfg now c e st)"
    using False ok(2) by (auto simp: insert_core_def index_ok_def alist_simps)
  moreover have "order_ok (insert_core cfg now c e st)"
    using False order_ok_push [OF ok(3) fresh] by (auto simp: insert_core_def)
  ultimately show ?thesis using ok room by (auto simp: insert_core_def alist_simps)
qed

lemma state_ok_insert:
  assumes "state_ok cfg st"
  shows "state_ok cfg (cache_insert env cfg now c hits st) \<and>
    cs_inflight (cache_insert env cfg now c hits st) = cs_inflight st \<and>
    cs_next_id st \<le> cs_next_id (cache_insert env cfg now c hits st) \<and>
    cs_running_loads (cache_insert env cfg now c hits st) = cs_running_loads st"
proof (cases "cfg_max_entries cfg = 0")
  case True
  with assms show ?thesis by (simp add: cache_insert_def)
next
  case False
  let ?st = "snd (take_id st)"
  have st: "distinct (map fst (cs_entries ?st))" "index_ok ?st" "order_ok ?st"
    "length (cs_entries ?st) \<le> cfg_max_entries cfg"
    using assms by (auto simp: state_ok_def take_id_def index_ok_def order_ok_def)
  obtain e where e: "ent_id e = cs_next_id st" and ins: "cache_insert env cfg now c hits st =
      (let st3 = insert_core cfg now c e ?st
       in if length (cs_order st3) > cfg_max_entries cfg * 2
          then st3\<lparr>cs_order := filter (is_live st3) (cs_order st3)\<rparr> else st3)"
    using cache_insert_core [OF False, of hits st now c env] by (auto simp: Let_def)
  let ?st3 = "insert_core cfg now c e ?st"
  have core: "distinct (map fst (cs_entries ?st3))" "index_ok ?st3" "order_ok ?st3"
    "length (cs_entries ?st3) \<le> cfg_max_entries cfg" "cs_inflight ?st3 = cs_inflight st"
    "cs_next_id ?st3 = cs_next_id st + 1" "cs_running_loads ?st3 = cs_running_loads st"
    using insert_core_ok [OF st, of e now c] False assms
    by (auto simp: e state_ok_def order_ok_def take_id_def)
  let ?cut = "?st3\<lparr>cs_order := filter (is_live ?st3) (cs_order ?st3)\<rparr>"
  have "order_ok ?cut"
    using core(3) by (auto simp: order_ok_def is_live_def distinct_map inj_on_def)
  moreover have "index_ok ?cut" using core(2) by (simp add: index_ok_def)
  moreover have "length (cs_order ?cut) \<le> cfg_max_entries cfg"
    using live_order_length [OF core(3)] core(4) by simp
  ultimately show ?thesis
    using core assms unfolding ins by (auto simp: state_ok_def Let_def less_Suc_eq)
qed

lemma map_of_filter_key:
  "distinct (map fst al) \<Longrightarrow> map_of (filter (\<lambda>(c, _). P c) al) c = (if P c then map_of al c else None)"
  by (induction al) (auto simp: map_of_eq_None_iff split: if_splits)

lemma distinct_filter_keys: "distinct (map fst al) \<Longrightarrow> distinct (map fst (filter P al))"
  by (induction al) auto

text \<open>After an invalidation no entry and no slot has the key among its candidates.\<close>

lemma invalidate_entries:
  assumes "index_ok st"
  shows "map_of (cs_entries (cache_invalidate key st)) c =
    (if key \<in> set (cand_keys c) then None else map_of (cs_entries st) c)"
proof -
  have "c \<in> set (index_get (cs_index st) key) \<longleftrightarrow>
      map_of (cs_entries st) c \<noteq> None \<and> key \<in> set (cand_keys c)"
    using assms by (simp add: index_ok_def)
  then show ?thesis by (auto simp: cache_invalidate_def Let_def)
qed

lemma invalidate_inflight:
  "distinct (map fst (cs_inflight st)) \<Longrightarrow>
   map_of (cs_inflight (cache_invalidate key st)) c =
     (if key \<in> set (cand_keys c) then None else map_of (cs_inflight st) c)"
  by (simp add: cache_invalidate_def Let_def map_of_filter_key [where P = "\<lambda>c. key \<notin> set (cand_keys c)"])

lemma invalidate_simps [simp]:
  "cs_next_id (cache_invalidate key st) = cs_next_id st"
  "cs_running_loads (cache_invalidate key st) = cs_running_loads st"
  "cs_order (cache_invalidate key st) = cs_order st"
  by (simp_all add: cache_invalidate_def Let_def)

lemma index_ok_invalidate:
  assumes "index_ok st"
  shows "index_ok (cache_invalidate key st)"
proof -
  have "c \<in> set (index_get (cs_index (cache_invalidate key st)) k) \<longleftrightarrow>
      map_of (cs_entries st) c \<noteq> None \<and> key \<notin> set (cand_keys c) \<and> k \<in> set (cand_keys c)" for k c
    using assms
    by (auto simp: cache_invalidate_def Let_def index_fold_remove_entry index_ok_def)
  then show ?thesis
    unfolding index_ok_def by (auto simp: invalidate_entries [OF assms])
qed

lemma state_ok_invalidate:
  assumes "state_ok cfg st"
  shows "state_ok cfg (cache_invalidate key st)"
proof -
  have idx: "index_ok st" and inf: "distinct (map fst (cs_inflight st))"
    using assms by (simp_all add: state_ok_def)
  have "order_ok (cache_invalidate key st)"
    by (rule order_ok_shrink [of st]) (use assms idx in \<open>auto simp: state_ok_def invalidate_entries
        split: if_splits\<close>)
  moreover have "length (cs_entries (cache_invalidate key st)) \<le> length (cs_entries st)"
    "distinct (map fst (cs_entries (cache_invalidate key st)))"
    using assms fold_remove_entry_ok [where cs = "index_get (cs_index st) key"
        and st = "st\<lparr>cs_index := AList.delete key (cs_index st)\<rparr>"]
    by (auto simp: cache_invalidate_def Let_def state_ok_def)
  moreover have "distinct (map fst (cs_inflight (cache_invalidate key st)))"
    using inf by (simp add: cache_invalidate_def Let_def distinct_filter_keys)
  ultimately show ?thesis
    using assms index_ok_invalidate [OF idx, of key] invalidate_inflight [OF inf, of key]
    by (auto simp: state_ok_def split: if_splits)
qed

lemma state_ok_clear: "state_ok cfg (cache_clear st)"
  by (simp add: state_ok_def cache_clear_def index_ok_def order_ok_def index_get_def)

lemma state_ok_new: "state_ok cfg cache_new"
  by (simp add: state_ok_def cache_new_def index_ok_def order_ok_def index_get_def)

lemma state_ok_start_load:
  "state_ok cfg st \<Longrightarrow> state_ok cfg (snd (start_load c st))"
  by (auto simp: state_ok_def start_load_def take_id_def alist_simps index_ok_def order_ok_def
      less_Suc_eq)

lemma state_ok_running: "state_ok cfg st \<Longrightarrow> state_ok cfg (st\<lparr>cs_running_loads := n\<rparr>)"
  by (simp add: state_ok_def index_ok_def order_ok_def)

lemma state_ok_inflight_delete:
  "state_ok cfg st \<Longrightarrow> state_ok cfg (st\<lparr>cs_inflight := AList.delete c (cs_inflight st)\<rparr>)"
  by (auto simp: state_ok_def index_ok_def order_ok_def alist_simps split: if_splits)

lemma finish_load_ok:
  assumes "state_ok cfg st" and "finish_load env cfg now c lid res st = Some (st', ev)"
  shows "state_ok cfg st' \<and> cs_running_loads st = cs_running_loads st' + 1 \<and>
    cs_next_id st \<le> cs_next_id st' \<and>
    (\<forall>c'. map_of (cs_inflight st') c' =
       (if c' = c \<and> map_of (cs_inflight st) c = Some lid then None else map_of (cs_inflight st) c'))"
proof -
  let ?st1 = "st\<lparr>cs_running_loads := cs_running_loads st - 1\<rparr>"
  let ?st2 = "if map_of (cs_inflight st) c = Some lid
    then ?st1\<lparr>cs_inflight := AList.delete c (cs_inflight st)\<rparr> else ?st1"
  have ok2: "state_ok cfg ?st2"
    using state_ok_inflight_delete [OF state_ok_running [OF assms(1), of "cs_running_loads st - 1"], of c]
      state_ok_running [OF assms(1), of "cs_running_loads st - 1"] by simp
  have pos: "cs_running_loads st \<noteq> 0" using assms(2) by (simp add: finish_load_def split: if_splits)
  have st': "st' = cache_insert env cfg now c hits ?st2 \<or> st' = ?st2 \<or> st' = remove_entry c ?st2"
    if "res = Ok hits \<or> (\<exists>e. res = Err e)" for hits
    using assms(2) that by (auto simp: finish_load_def Let_def split: if_splits option.splits)
  have infl: "map_of (cs_inflight ?st2) c' =
      (if c' = c \<and> map_of (cs_inflight st) c = Some lid then None else map_of (cs_inflight st) c')" for c'
    by (auto simp: alist_simps)
  obtain hits where "st' = cache_insert env cfg now c hits ?st2 \<or> st' = ?st2 \<or> st' = remove_entry c ?st2"
    using st' by (cases res) blast+
  then show ?thesis
    using state_ok_insert [OF ok2, of env now c hits] state_ok_remove_entry [OF ok2, of c] ok2 infl pos
    by (elim disjE) (auto split: if_splits)
qed

section \<open>Reachable states\<close>

definition sys_ok :: "cache_config \<Rightarrow> cache_sys \<Rightarrow> bool" where
  "sys_ok cfg s \<longleftrightarrow>
     state_ok cfg (sys_state s) \<and>
     cs_running_loads (sys_state s) = length (sys_guards s) \<and>
     cs_running_loads (sys_state s) \<le> cfg_max_inflight_loads cfg \<and>
     distinct (map fst (sys_guards s)) \<and>
     (\<forall>g \<in> set (sys_guards s). fst g < cs_next_id (sys_state s)) \<and>
     (\<forall>c lid. map_of (cs_inflight (sys_state s)) c = Some lid \<longrightarrow> (lid, c) \<in> set (sys_guards s))"

lemma join_or_load_cases:
  obtains (same) r where "join_or_load cfg c stale st = (r, st)" "\<And>lid x. r \<noteq> Waiting lid x Miss"
  | (start) "map_of (cs_inflight st) c = None" "cs_running_loads st < cfg_max_inflight_loads cfg"
      "join_or_load cfg c stale st = (Waiting (cs_next_id st) stale Miss, snd (start_load c st))"
proof (cases "map_of (cs_inflight st) c")
  case None
  then show ?thesis
  proof (cases "cs_running_loads st \<ge> cfg_max_inflight_loads cfg")
    case True
    with None same show ?thesis by (auto simp: join_or_load_def)
  next
    case False
    with None start show ?thesis by (simp add: join_or_load_def start_load_def take_id_def Let_def)
  qed
next
  case (Some lid)
  with same show ?thesis by (auto simp: join_or_load_def)
qed

lemma lookup_begin_cases:
  assumes "cached_lookup_begin cfg now c st = (r, st')"
  obtains (same) "st' = st" "\<And>lid x. r \<noteq> Waiting lid x Miss"
  | (start) stale where "map_of (cs_inflight st) c = None"
      "cs_running_loads st < cfg_max_inflight_loads cfg"
      "r = Waiting (cs_next_id st) stale Miss" "st' = snd (start_load c st)"
proof -
  let ?stale = "case map_of (cs_entries st) c of None \<Rightarrow> None
    | Some e \<Rightarrow> if now < ent_stale_until e then Some (ent_hits e) else None"
  consider (join) "cached_lookup_begin cfg now c st = join_or_load cfg c ?stale st"
    | (answer) res ev where "cached_lookup_begin cfg now c st = (Answered res ev, st)"
    by (cases "map_of (cs_entries st) c"; cases "now < ent_expires (the (map_of (cs_entries st) c))")
      (simp_all add: cached_lookup_begin_def Let_def)
  then show thesis
  proof cases
    case join
    show thesis
    proof (cases rule: join_or_load_cases [of cfg c ?stale st])
      case (same r')
      with join assms that(1) show thesis by simp
    next
      case start
      with join assms that(2) show thesis by simp
    qed
  next
    case answer
    with assms that(1) show thesis by auto
  qed
qed

lemma cache_step_ok:
  assumes "cache_step env cfg s s'" and ok: "sys_ok cfg s"
  shows "sys_ok cfg s'"
  using assms(1)
proof cases
  case (lookup c r st)
  from lookup(2) show ?thesis
  proof (cases rule: lookup_begin_cases)
    case same
    then have "s' = s" using lookup(1) by (cases r) (auto split: cache_event.splits)
    with ok show ?thesis by simp
  next
    case (start stale)
    have s': "s' = s\<lparr>sys_state := snd (start_load c (sys_state s)),
        sys_guards := (cs_next_id (sys_state s), c) # sys_guards s\<rparr>"
      using lookup(1) start by simp
    show ?thesis
      using ok start(1,2) state_ok_start_load [of cfg "sys_state s" c] unfolding s' sys_ok_def
      by (auto simp: start_load_def take_id_def alist_simps less_Suc_eq)
  qed
next
  case (finish lid c out st ev)
  have g: "(lid, c) \<in> set (sys_guards s)" and d: "distinct (map fst (sys_guards s))"
    using finish ok by (simp_all add: sys_ok_def)
  have st: "state_ok cfg st" "cs_running_loads (sys_state s) = cs_running_loads st + 1"
    "cs_next_id (sys_state s) \<le> cs_next_id st"
    and infl: "\<And>c'. map_of (cs_inflight st) c' = (if c' = c \<and> map_of (cs_inflight (sys_state s)) c = Some lid
      then None else map_of (cs_inflight (sys_state s)) c')"
    using finish_load_ok [OF _ finish(3)] ok by (auto simp: sys_ok_def)
  have "(lid', c') \<in> set (remove1 (lid, c) (sys_guards s))"
    if "map_of (cs_inflight st) c' = Some lid'" for c' lid'
  proof -
    have "(lid', c') \<in> set (sys_guards s)" "(lid', c') \<noteq> (lid, c)"
      using that ok by (auto simp: infl sys_ok_def split: if_splits)
    then show ?thesis by (simp add: in_set_remove1)
  qed
  moreover have "distinct (map fst (remove1 (lid, c) (sys_guards s)))"
    using d by (simp add: distinct_map inj_on_def distinct_remove1)
  moreover have "\<forall>g \<in> set (remove1 (lid, c) (sys_guards s)). fst g < cs_next_id st"
    using ok st(3) by (auto simp: sys_ok_def intro: order.strict_trans2 dest: set_remove1_subset [THEN subsetD])
  ultimately show ?thesis
    using finish(1) st ok length_remove1_mem [OF g] by (simp add: sys_ok_def)
next
  case (invalidate k)
  have "distinct (map fst (cs_inflight (sys_state s)))" using ok by (simp add: sys_ok_def state_ok_def)
  from invalidate_inflight [OF this, of k] invalidate ok state_ok_invalidate show ?thesis
    by (auto simp: sys_ok_def split: if_splits)
next
  case clear
  with ok state_ok_clear show ?thesis by (simp add: sys_ok_def cache_clear_def)
next
  case (tick d)
  with ok show ?thesis by (simp add: sys_ok_def)
qed

lemma sys_ok_init: "sys_ok cfg sys_init"
  by (simp add: sys_ok_def sys_init_def state_ok_new) (simp add: cache_new_def)

lemma sys_ok_reachable: "cache_reachable env cfg s \<Longrightarrow> sys_ok cfg s"
  by (induction rule: rtranclp_induct) (auto intro: sys_ok_init cache_step_ok)

section \<open>Where entries come from\<close>

definition entry_expiry :: "cache_env \<Rightarrow> cache_config \<Rightarrow> nat \<Rightarrow> route_hits \<Rightarrow> nat \<Rightarrow> nat" where
  "entry_expiry env cfg t hits i =
     later env t (if hits = [] then cfg_negative_ttl cfg else jittered (env_hash env) (cfg_ttl cfg) (cfg_jitter cfg) i)"

definition entry_stale :: "cache_env \<Rightarrow> cache_config \<Rightarrow> nat \<Rightarrow> route_hits \<Rightarrow> nat \<Rightarrow> nat" where
  "entry_stale env cfg t hits i =
     later env (entry_expiry env cfg t hits i) (case cfg_stale_if_error cfg of None \<Rightarrow> 0 | Some d \<Rightarrow> d)"

lemma cache_insert_entries:
  assumes "state_ok cfg st" "map_of (cs_entries (cache_insert env cfg now c hits st)) c' = Some e"
  shows "map_of (cs_entries st) c' = Some e \<or>
    (c' = c \<and> ent_hits e = hits \<and>
     ent_expires e = entry_expiry env cfg now hits (cs_next_id st) \<and>
     ent_stale_until e = entry_stale env cfg now hits (cs_next_id st))"
proof (cases "cfg_max_entries cfg = 0")
  case True
  with assms(2) show ?thesis by (simp add: cache_insert_def)
next
  case False
  let ?st = "snd (take_id st)"
  have st: "distinct (map fst (cs_entries ?st))" "index_ok ?st" "order_ok ?st"
    using assms(1) by (auto simp: state_ok_def take_id_def index_ok_def order_ok_def)
  have "shrinks ?st (make_room cfg now ?st)"
    using make_room_ok [OF st, of cfg now] False by auto
  then have "map_of (cs_entries (make_room cfg now ?st)) c' = None \<or>
      map_of (cs_entries (make_room cfg now ?st)) c' = map_of (cs_entries st) c'"
    by (auto simp: shrinks_def take_id_def)
  with assms(2) False show ?thesis
    by (auto simp: cache_insert_def take_id_def alist_simps entry_expiry_def entry_stale_def Let_def
        split: if_splits)
qed

lemma finish_load_entries:
  assumes "state_ok cfg st" "finish_load env cfg now c lid res st = Some (st', ev)"
    "map_of (cs_entries st') c' = Some e"
  shows "map_of (cs_entries st) c' = Some e \<or>
    (c' = c \<and> res = Ok (ent_hits e) \<and> map_of (cs_inflight st) c = Some lid \<and>
     (\<exists>i. ent_expires e = entry_expiry env cfg now (ent_hits e) i \<and>
          ent_stale_until e = entry_stale env cfg now (ent_hits e) i))"
proof -
  let ?st1 = "st\<lparr>cs_running_loads := cs_running_loads st - 1\<rparr>"
  let ?st2 = "if map_of (cs_inflight st) c = Some lid
    then ?st1\<lparr>cs_inflight := AList.delete c (cs_inflight st)\<rparr> else ?st1"
  have ok2: "state_ok cfg ?st2"
    using state_ok_inflight_delete [OF state_ok_running [OF assms(1), of "cs_running_loads st - 1"], of c]
      state_ok_running [OF assms(1), of "cs_running_loads st - 1"] by simp
  have same: "cs_entries ?st2 = cs_entries st" by simp
  show ?thesis
  proof (cases res)
    case (Ok hits)
    show ?thesis
    proof (cases "map_of (cs_inflight st) c = Some lid")
      case True
      with assms(2) Ok have "st' = cache_insert env cfg now c hits ?st2"
        by (auto simp: finish_load_def Let_def split: if_splits)
      with cache_insert_entries [OF ok2, of env now c hits c' e] assms(3) same True Ok show ?thesis by auto
    next
      case False
      with assms(2,3) Ok show ?thesis by (auto simp: finish_load_def Let_def split: if_splits)
    qed
  next
    case (Err x)
    with assms(2,3) show ?thesis
      by (auto simp: finish_load_def Let_def split: if_splits option.splits)
  qed
qed

definition origin_ok :: "cache_env \<Rightarrow> cache_config \<Rightarrow> cache_sys \<Rightarrow> bool" where
  "origin_ok env cfg s \<longleftrightarrow>
     (\<forall>c e. map_of (cs_entries (sys_state s)) c = Some e \<longrightarrow>
        (\<exists>lid t i. (lid, c, Ok (ent_hits e), t) \<in> set (sys_sent s) \<and>
           ent_expires e = entry_expiry env cfg t (ent_hits e) i \<and>
           ent_stale_until e = entry_stale env cfg t (ent_hits e) i))"

lemma origin_ok_weaken:
  assumes "origin_ok env cfg s" "set (sys_sent s) \<subseteq> set (sys_sent s')"
    "\<And>c e. map_of (cs_entries (sys_state s')) c = Some e \<Longrightarrow> map_of (cs_entries (sys_state s)) c = Some e"
  shows "origin_ok env cfg s'"
  using assms unfolding origin_ok_def by blast

lemma lookup_begin_entries:
  "cached_lookup_begin cfg now c st = (r, st') \<Longrightarrow> cs_entries st' = cs_entries st"
  by (erule lookup_begin_cases) (simp_all add: start_load_def take_id_def)

lemma cache_step_origin:
  assumes "cache_step env cfg s s'" and ok: "sys_ok cfg s" and orig: "origin_ok env cfg s"
  shows "origin_ok env cfg s'"
  using assms(1)
proof cases
  case (lookup c r st)
  show ?thesis
    by (rule origin_ok_weaken [OF orig]) (use lookup lookup_begin_entries in auto)
next
  case (finish lid c out st ev)
  have st: "state_ok cfg (sys_state s)" using ok by (simp add: sys_ok_def)
  show ?thesis
    unfolding origin_ok_def
  proof (intro allI impI)
    fix c' e assume "map_of (cs_entries (sys_state s')) c' = Some e"
    with finish(1) have "map_of (cs_entries st) c' = Some e" by simp
    from finish_load_entries [OF st finish(3) this]
    show "\<exists>lid t i. (lid, c', Ok (ent_hits e), t) \<in> set (sys_sent s') \<and>
        ent_expires e = entry_expiry env cfg t (ent_hits e) i \<and>
        ent_stale_until e = entry_stale env cfg t (ent_hits e) i"
    proof
      assume "map_of (cs_entries (sys_state s)) c' = Some e"
      with orig finish(1) show ?thesis unfolding origin_ok_def by fastforce
    next
      assume "c' = c \<and> load_outcome out = Ok (ent_hits e) \<and>
        map_of (cs_inflight (sys_state s)) c = Some lid \<and>
        (\<exists>i. ent_expires e = entry_expiry env cfg (sys_clock s) (ent_hits e) i \<and>
             ent_stale_until e = entry_stale env cfg (sys_clock s) (ent_hits e) i)"
      with finish(1) show ?thesis by fastforce
    qed
  qed
next
  case (invalidate k)
  have "index_ok (sys_state s)" using ok by (simp add: sys_ok_def state_ok_def)
  from invalidate_entries [OF this] show ?thesis
    by (intro origin_ok_weaken [OF orig]) (use invalidate in \<open>auto split: if_splits\<close>)
next
  case clear
  then show ?thesis by (simp add: origin_ok_def cache_clear_def)
next
  case (tick d)
  show ?thesis by (rule origin_ok_weaken [OF orig]) (use tick in auto)
qed

lemma origin_ok_reachable: "cache_reachable env cfg s \<Longrightarrow> origin_ok env cfg s"
proof (induction rule: rtranclp_induct)
  case base
  show ?case by (simp add: origin_ok_def sys_init_def cache_new_def)
next
  case (step s s')
  with cache_step_origin sys_ok_reachable show ?case by blast
qed

section \<open>Disowned loads\<close>

definition disowned :: "nat \<Rightarrow> cache_sys \<Rightarrow> bool" where
  "disowned lid s \<longleftrightarrow>
     lid < cs_next_id (sys_state s) \<and> (\<forall>c. map_of (cs_inflight (sys_state s)) c \<noteq> Some lid)"

lemma disowned_step:
  assumes "cache_step env cfg s s'" and ok: "sys_ok cfg s" and dis: "disowned lid s"
  shows "disowned lid s'"
  using assms(1)
proof cases
  case (lookup c r st)
  from lookup(2) show ?thesis
    by (cases rule: lookup_begin_cases)
      (use lookup(1) dis in \<open>auto simp: disowned_def start_load_def take_id_def alist_simps\<close>)
next
  case (finish lid' c out st ev)
  from finish_load_ok [OF _ finish(3)] ok finish(1) dis show ?thesis
    by (fastforce simp: disowned_def sys_ok_def split: if_splits)
next
  case (invalidate k)
  have "distinct (map fst (cs_inflight (sys_state s)))" using ok by (simp add: sys_ok_def state_ok_def)
  from invalidate_inflight [OF this, of k] invalidate dis show ?thesis
    by (auto simp: disowned_def split: if_splits)
next
  case clear
  with dis show ?thesis by (simp add: disowned_def cache_clear_def)
next
  case (tick d)
  with dis show ?thesis by (simp add: disowned_def)
qed

lemma disowned_steps:
  "(cache_step env cfg)\<^sup>*\<^sup>* s s' \<Longrightarrow> sys_ok cfg s \<Longrightarrow> disowned lid s \<Longrightarrow> disowned lid s' \<and> sys_ok cfg s'"
  by (induction rule: rtranclp_induct) (auto intro: disowned_step cache_step_ok)

lemma disowned_not_cached:
  assumes "disowned lid s" "finish_load env cfg now c lid (Ok hits) (sys_state s) = Some (st', ev)"
  shows "cs_entries st' = cs_entries (sys_state s)"
  using assms by (auto simp: disowned_def finish_load_def Let_def split: if_splits)

lemma invalidate_disowns:
  assumes ok: "sys_ok cfg s" and g: "(lid, c) \<in> set (sys_guards s)" and k: "k \<in> set (cand_keys c)"
  shows "disowned lid (s\<lparr>sys_state := cache_invalidate k (sys_state s)\<rparr>)"
proof -
  have d: "distinct (map fst (cs_inflight (sys_state s)))" using ok by (simp add: sys_ok_def state_ok_def)
  have "c' = c" if "map_of (cs_inflight (sys_state s)) c' = Some lid" for c'
    using that ok g by (auto simp: sys_ok_def dest: eq_key_imp_eq_value)
  with g k ok invalidate_inflight [OF d, of k] show ?thesis
    by (auto simp: disowned_def sys_ok_def split: if_splits)
qed

lemma inflight_le_guards:
  assumes "sys_ok cfg s"
  shows "length (cs_inflight (sys_state s)) \<le> length (sys_guards s)"
proof -
  let ?inf = "cs_inflight (sys_state s)"
  have d: "distinct (map fst ?inf)" using assms by (simp add: sys_ok_def state_ok_def)
  have "(\<lambda>(c, lid). (lid, c)) ` set ?inf \<subseteq> set (sys_guards s)"
    using assms d by (auto simp: sys_ok_def)
  then have "card ((\<lambda>(c, lid). (lid, c)) ` set ?inf) \<le> card (set (sys_guards s))"
    by (intro card_mono) auto
  also have "\<dots> \<le> length (sys_guards s)" by (rule card_length)
  also have "card ((\<lambda>(c, lid). (lid, c)) ` set ?inf) = card (set ?inf)"
    by (rule card_image) (auto simp: inj_on_def)
  also have "card (set ?inf) = length ?inf" using d by (simp add: distinct_card distinct_map)
  finally show ?thesis .
qed

section \<open>A running example\<close>

definition demo_env :: cache_env where
  "demo_env = \<lparr>env_instant_max = 2 ^ 62, env_hash = (\<lambda>_. 0)\<rparr>"

definition demo_cfg :: cache_config where
  "demo_cfg = \<lparr>cfg_ttl = 30000000000, cfg_negative_ttl = 5, cfg_jitter = Finite 0, cfg_max_entries = 2,
     cfg_stale_if_error = Some 60, cfg_load_timeout = 10, cfg_max_inflight_loads = 4\<rparr>"

definition demo_candidates :: route_candidates where
  "demo_candidates = \<lparr>cand_exact = route_key_exact (Hostname ''w.x.y''), cand_wildcard = Some demo_key\<rparr>"

definition demo_loading :: cache_sys where
  "demo_loading = sys_init\<lparr>sys_state := snd (start_load demo_candidates cache_new),
     sys_guards := [(0, demo_candidates)]\<rparr>"

definition demo_entry :: cache_entry where
  "demo_entry = \<lparr>ent_hits = [(demo_key, demo_backend)], ent_expires = 30000000000, ent_stale_until = 30000000060, ent_id = 1\<rparr>"

lemma demo_loading_reachable: "cache_reachable demo_env demo_cfg demo_loading"
proof (rule r_into_rtranclp)
  have "cached_lookup_begin demo_cfg (sys_clock sys_init) demo_candidates (sys_state sys_init) =
      (Waiting 0 None Miss, snd (start_load demo_candidates cache_new))"
    by (simp add: cached_lookup_begin_def join_or_load_def sys_init_def cache_new_def demo_cfg_def
        start_load_def take_id_def Let_def)
  from cache_step.lookup [OF this, of demo_env]
  show "cache_step demo_env demo_cfg sys_init demo_loading"
    by (simp add: demo_loading_def sys_init_def)
qed

lemma demo_loading_guard: "(0, demo_candidates) \<in> set (sys_guards demo_loading)"
  by (simp add: demo_loading_def)

lemma demo_loading_inflight: "map_of (cs_inflight (sys_state demo_loading)) demo_candidates = Some 0"
  by (simp add: demo_loading_def start_load_def take_id_def cache_new_def)

lemma demo_lifetime: "jittered hash_one 30000000000 (Finite 0) lid = 30000000000"
  using jittered_none [of 30 hash_one lid] by simp

lemma demo_load_ends:
  obtains st ev where
    "finish_load demo_env demo_cfg 0 demo_candidates 0 (Ok [(demo_key, demo_backend)]) (sys_state demo_loading) = Some (st, ev)"
    "map_of (cs_entries st) demo_candidates = Some demo_entry" "cs_inflight st = []" "cs_running_loads st = 0"
  by (simp add: finish_load_def demo_loading_def start_load_def take_id_def cache_new_def
      cache_insert_def demo_cfg_def make_room_def demo_env_def later_def demo_entry_def demo_lifetime Let_def)

lemma demo_loaded:
  "\<exists>s. cache_reachable demo_env demo_cfg s \<and> sys_clock s = 0 \<and>
     map_of (cs_entries (sys_state s)) demo_candidates = Some demo_entry \<and>
     cs_inflight (sys_state s) = [] \<and> cs_running_loads (sys_state s) = 0"
proof -
  let ?res = "Ok [(demo_key, demo_backend)] :: load_result"
  obtain st ev where fin: "finish_load demo_env demo_cfg 0 demo_candidates 0 ?res (sys_state demo_loading) =
      Some (st, ev)" and e: "map_of (cs_entries st) demo_candidates = Some demo_entry"
      "cs_inflight st = []" "cs_running_loads st = 0"
    by (rule demo_load_ends)
  have "finish_load demo_env demo_cfg (sys_clock demo_loading) demo_candidates 0
      (load_outcome (Some (Done ?res))) (sys_state demo_loading) = Some (st, ev)"
    using fin by (simp add: load_outcome_def) (simp add: demo_loading_def sys_init_def)
  note step = cache_step.finish [OF demo_loading_guard this]
  show ?thesis
    by (rule exI, rule conjI, rule rtranclp.rtrancl_into_rtrancl [OF demo_loading_reachable step])
      (use e in \<open>simp add: demo_loading_def sys_init_def\<close>)
qed

section \<open>Properties\<close>

text \<open>C19 (cache\_bounded): in every reachable state the cache holds at most \<open>max_entries\<close> entries
and twice as many eviction records, at most \<open>max_inflight_loads\<close> loads run, and no more
slots than loads exist.\<close>

theorem cache_bounded:
  assumes "cache_reachable env cfg s"
  shows "cache_len (sys_state s) \<le> cfg_max_entries cfg \<and>
    length (cs_order (sys_state s)) \<le> 2 * cfg_max_entries cfg \<and>
    length (sys_guards s) \<le> cfg_max_inflight_loads cfg \<and>
    length (cs_inflight (sys_state s)) \<le> length (sys_guards s)"
  using sys_ok_reachable [OF assms] inflight_le_guards
  by (auto simp: sys_ok_def state_ok_def cache_len_def)

theorem cache_bounded_witness: "length (sys_guards demo_loading) \<le> cfg_max_inflight_loads demo_cfg"
  using cache_bounded [OF demo_loading_reachable] by simp

text \<open>The key index lists, under each key, exactly the cached candidate
sets that contain the key, so \<open>invalidate\<close> misses no entry.\<close>

theorem cache_index_exact:
  assumes "cache_reachable env cfg s"
  shows "(c \<in> set (index_get (cs_index (sys_state s)) k) \<longleftrightarrow>
      map_of (cs_entries (sys_state s)) c \<noteq> None \<and> k \<in> set (cand_keys c)) \<and>
    (k \<in> set (cand_keys c) \<longrightarrow> map_of (cs_entries (cache_invalidate k (sys_state s))) c = None)"
  using sys_ok_reachable [OF assms] invalidate_entries [of "sys_state s" k c]
  by (auto simp: sys_ok_def state_ok_def index_ok_def)

theorem cache_index_exact_witness:
  "\<exists>s :: cache_sys. demo_candidates \<in> set (index_get (cs_index (sys_state s)) demo_key) \<and>
     map_of (cs_entries (cache_invalidate demo_key (sys_state s))) demo_candidates = None"
proof -
  obtain s where s: "cache_reachable demo_env demo_cfg s"
    "map_of (cs_entries (sys_state s)) demo_candidates = Some demo_entry"
    using demo_loaded by blast
  have k: "demo_key \<in> set (cand_keys demo_candidates)"
    by (simp add: set_cand_keys demo_candidates_def)
  show ?thesis
    by (rule exI [of _ s]) (use cache_index_exact [OF s(1), of demo_candidates demo_key] s(2) k in auto)
qed

text \<open>In every reachable state an in-flight slot belongs to a running load
for the same candidates; when that load ends, in whatever way, its counter does not
underflow and the slot is free again.\<close>

theorem slots_are_owned:
  assumes "cache_reachable env cfg s" "map_of (cs_inflight (sys_state s)) c = Some lid"
  shows "(lid, c) \<in> set (sys_guards s) \<and>
    (\<exists>st ev. finish_load env cfg now c lid res (sys_state s) = Some (st, ev) \<and>
       map_of (cs_inflight st) c = None)"
proof -
  have ok: "sys_ok cfg s" by (rule sys_ok_reachable [OF assms(1)])
  with assms(2) have g: "(lid, c) \<in> set (sys_guards s)" by (simp add: sys_ok_def)
  then have "0 < length (sys_guards s)" by (cases "sys_guards s") auto
  with ok obtain st ev where fin: "finish_load env cfg now c lid res (sys_state s) = Some (st, ev)"
    by (auto simp: sys_ok_def finish_load_def Let_def)
  from finish_load_ok [OF _ this] ok assms(2) have "map_of (cs_inflight st) c = None"
    by (simp add: sys_ok_def)
  with g fin show ?thesis by blast
qed

theorem slots_are_owned_witness: "(0, demo_candidates) \<in> set (sys_guards demo_loading)"
  using slots_are_owned [OF demo_loading_reachable demo_loading_inflight] by simp

text \<open>While a load for some candidates is in flight, no lookup of these
candidates starts another: it is answered from the cache or joins that load.\<close>

theorem single_flight:
  assumes "map_of (cs_inflight st) c = Some lid"
  shows "snd (cached_lookup_begin cfg now c st) = st \<and>
    (case fst (cached_lookup_begin cfg now c st) of
       Answered res ev \<Rightarrow>
         (\<exists>e. map_of (cs_entries st) c = Some e \<and> now < ent_expires e \<and> res = Ok (ent_hits e))
     | Waiting l stale ev \<Rightarrow> l = lid \<and> ev = Coalesced)"
  using assms by (auto simp: cached_lookup_begin_def join_or_load_def Let_def split: option.splits)

theorem single_flight_witness:
  "snd (cached_lookup_begin demo_cfg 0 demo_candidates (sys_state demo_loading)) = sys_state demo_loading"
  using single_flight [OF demo_loading_inflight] by blast

text \<open>C14 (invalidated\_load\_not\_cached): the result of a load that was running when one of its keys
was invalidated is never cached, whatever happens between the invalidation and its end.\<close>

theorem invalidated_load_not_cached:
  assumes "cache_reachable env cfg s" "(lid, c) \<in> set (sys_guards s)" "k \<in> set (cand_keys c)"
    and "(cache_step env cfg)\<^sup>*\<^sup>* (s\<lparr>sys_state := cache_invalidate k (sys_state s)\<rparr>) s'"
    and "finish_load env cfg now c lid (Ok hits) (sys_state s') = Some (st', ev)"
  shows "cs_entries st' = cs_entries (sys_state s')"
proof -
  let ?s = "s\<lparr>sys_state := cache_invalidate k (sys_state s)\<rparr>"
  have ok: "sys_ok cfg s" by (rule sys_ok_reachable [OF assms(1)])
  have "sys_ok cfg ?s" by (rule cache_step_ok [OF cache_step.invalidate ok])
  with disowned_steps [OF assms(4)] invalidate_disowns [OF ok assms(2,3)] have "disowned lid s'" by blast
  from disowned_not_cached [OF this assms(5)] show ?thesis .
qed

theorem invalidated_load_not_cached_witness:
  "\<exists>st' ev. finish_load demo_env demo_cfg 0 demo_candidates 0 (Ok [(demo_key, demo_backend)])
     (cache_invalidate demo_key (sys_state demo_loading)) = Some (st', ev) \<and> cs_entries st' = []"
proof -
  let ?s = "demo_loading\<lparr>sys_state := cache_invalidate demo_key (sys_state demo_loading)\<rparr>"
  have k: "demo_key \<in> set (cand_keys demo_candidates)"
    by (simp add: set_cand_keys demo_candidates_def)
  have run: "cs_running_loads (sys_state ?s) = 1" "cs_entries (sys_state ?s) = []"
    by (simp_all add: demo_loading_def start_load_def take_id_def cache_new_def cache_invalidate_def
        index_get_def)
  then obtain st' ev where fin: "finish_load demo_env demo_cfg 0 demo_candidates 0
      (Ok [(demo_key, demo_backend)]) (sys_state ?s) = Some (st', ev)"
    by (auto simp: finish_load_def Let_def)
  from invalidated_load_not_cached [OF demo_loading_reachable demo_loading_guard k rtranclp.rtrancl_refl fin]
    run(2) fin show ?thesis by auto
qed

text \<open>The stale hits a lookup may fall back on, and the three ways in which it begins.\<close>

definition usable_stale :: "nat \<Rightarrow> route_candidates \<Rightarrow> cache_state \<Rightarrow> route_hits option" where
  "usable_stale now c st =
     (case map_of (cs_entries st) c of
        None \<Rightarrow> None
      | Some e \<Rightarrow> if now < ent_stale_until e then Some (ent_hits e) else None)"

definition saturated_for :: "cache_config \<Rightarrow> route_candidates \<Rightarrow> cache_state \<Rightarrow> bool" where
  "saturated_for cfg c st \<longleftrightarrow>
     map_of (cs_inflight st) c = None \<and> cfg_max_inflight_loads cfg \<le> cs_running_loads st"

lemma lookup_begin_ways:
  assumes "cached_lookup_begin cfg now c st = (step, st')"
  obtains (live) e where "map_of (cs_entries st) c = Some e" "now < ent_expires e"
      "step = Answered (Ok (ent_hits e)) [if ent_hits e = [] then NegativeHit else Hit]"
  | (sheds) "\<And>e. map_of (cs_entries st) c = Some e \<Longrightarrow> ent_expires e \<le> now" "saturated_for cfg c st"
      "step = Answered (fst (shed (usable_stale now c st))) (snd (shed (usable_stale now c st)))"
  | (waits) lid ev where "\<And>e. map_of (cs_entries st) c = Some e \<Longrightarrow> ent_expires e \<le> now"
      "step = Waiting lid (usable_stale now c st) ev" "ev \<in> {Miss, Coalesced}"
proof (cases "\<exists>e. map_of (cs_entries st) c = Some e \<and> now < ent_expires e")
  case True
  with assms live show thesis by (auto simp: cached_lookup_begin_def Let_def)
next
  case False
  then have old: "\<And>e. map_of (cs_entries st) c = Some e \<Longrightarrow> ent_expires e \<le> now" by (auto simp: not_less)
  from False have "cached_lookup_begin cfg now c st = join_or_load cfg c (usable_stale now c st) st"
    by (auto simp: cached_lookup_begin_def usable_stale_def Let_def split: option.splits)
  with assms have join: "join_or_load cfg c (usable_stale now c st) st = (step, st')" by simp
  show thesis
  proof (cases "saturated_for cfg c st")
    case True
    with join sheds [OF old] show thesis by (auto simp: join_or_load_def saturated_for_def)
  next
    case False
    with join have "\<exists>lid ev. step = Waiting lid (usable_stale now c st) ev \<and> ev \<in> {Miss, Coalesced}"
      by (auto simp: join_or_load_def saturated_for_def start_load_def take_id_def split: option.splits if_splits)
    with waits [OF old] show thesis by blast
  qed
qed

lemma usable_stale_Some:
  "usable_stale now c st = Some hits \<longleftrightarrow>
   (\<exists>e. map_of (cs_entries st) c = Some e \<and> now < ent_stale_until e \<and> hits = ent_hits e)"
  by (auto simp: usable_stale_def split: option.splits if_splits)

text \<open>An expired entry that is still usable, traced to the load that brought it.\<close>

lemma stale_origin:
  assumes "cache_reachable env cfg s" "usable_stale (sys_clock s) c (sys_state s) = Some hits"
    and "\<And>e. map_of (cs_entries (sys_state s)) c = Some e \<Longrightarrow> ent_expires e \<le> sys_clock s"
  shows "\<exists>lid t i. (lid, c, Ok hits, t) \<in> set (sys_sent s) \<and>
    entry_expiry env cfg t hits i \<le> sys_clock s \<and> sys_clock s < entry_stale env cfg t hits i"
proof -
  from assms(2) obtain e where e: "map_of (cs_entries (sys_state s)) c = Some e" "sys_clock s < ent_stale_until e"
    "hits = ent_hits e" by (auto simp: usable_stale_Some)
  with origin_ok_reachable [OF assms(1)] assms(3) [OF e(1)] show ?thesis unfolding origin_ok_def by metis
qed

lemma live_origin:
  assumes "cache_reachable env cfg s" "map_of (cs_entries (sys_state s)) c = Some e" "sys_clock s < ent_expires e"
  shows "\<exists>lid t i. (lid, c, Ok (ent_hits e), t) \<in> set (sys_sent s) \<and>
    sys_clock s < entry_expiry env cfg t (ent_hits e) i"
  using origin_ok_reachable [OF assms(1)] assms(2,3) unfolding origin_ok_def by metis

text \<open>C6 (cache\_answers\_authentic): whatever a lookup answers without waiting for a load was sent by a finished
load for the same candidates. It is served as a hit only until the expiry computed from the time that
load ended; after that only when the lookup is shed, that is when nothing is in flight for its
candidates and as many loads run as may, and then only within the stale window.\<close>

theorem cache_answers_authentic:
  assumes "cache_reachable env cfg s"
    and "cached_lookup_begin cfg (sys_clock s) c (sys_state s) = (Answered (Ok hits) evs, st)"
  shows "\<exists>lid t i. (lid, c, Ok hits, t) \<in> set (sys_sent s) \<and>
    ((evs = [if hits = [] then NegativeHit else Hit] \<and> sys_clock s < entry_expiry env cfg t hits i) \<or>
     (evs = [Shed, StaleServed] \<and> saturated_for cfg c (sys_state s) \<and>
        entry_expiry env cfg t hits i \<le> sys_clock s \<and> sys_clock s < entry_stale env cfg t hits i))"
  using assms(2)
proof (cases rule: lookup_begin_ways)
  case (live e)
  with live_origin [OF assms(1) live(1,2)] show ?thesis by auto
next
  case sheds
  from sheds(3) have "usable_stale (sys_clock s) c (sys_state s) = Some hits" "evs = [Shed, StaleServed]"
    by (auto simp: shed_def split: option.splits)
  with stale_origin [OF assms(1) _ sheds(1)] sheds(2) show ?thesis by blast
qed simp

theorem cache_answers_authentic_witness:
  "\<exists>(s :: cache_sys) lid t. (lid, demo_candidates, Ok [(demo_key, demo_backend)], t) \<in> set (sys_sent s)"
proof -
  obtain s where s: "cache_reachable demo_env demo_cfg s" "sys_clock s = 0"
    "map_of (cs_entries (sys_state s)) demo_candidates = Some demo_entry"
    using demo_loaded by blast
  then have "cached_lookup_begin demo_cfg (sys_clock s) demo_candidates (sys_state s) =
      (Answered (Ok [(demo_key, demo_backend)]) [Hit], sys_state s)"
    by (simp add: cached_lookup_begin_def demo_entry_def)
  from cache_answers_authentic [OF s(1) this] show ?thesis by blast
qed

text \<open>C36 (stale\_as\_last\_resort): how the whole of a lookup can end. Its hits are live ones from the cache, or
what the load it waited for sent, or expired ones that were loaded for the same candidates and were
within their stale window when the lookup began; these are served only if the load it waited for sent
no hits, or if it was shed: nothing in flight for the candidates and as many loads running as may. It
fails only if in addition no such expired hits are there.\<close>

theorem stale_as_last_resort:
  assumes "cache_reachable env cfg s"
    and "cached_lookup_begin cfg (sys_clock s) c (sys_state s) = (step, st)"
    and "lookup_answer step sent = (res, evs)"
  shows "case res of
      Ok hits \<Rightarrow>
        (\<exists>lid t i. (lid, c, Ok hits, t) \<in> set (sys_sent s) \<and> sys_clock s < entry_expiry env cfg t hits i \<and>
           evs = [if hits = [] then NegativeHit else Hit]) \<or>
        (sent = Some (Ok hits) \<and> evs \<in> {[Miss], [Coalesced]}) \<or>
        (\<exists>lid t i. (lid, c, Ok hits, t) \<in> set (sys_sent s) \<and>
           entry_expiry env cfg t hits i \<le> sys_clock s \<and> sys_clock s < entry_stale env cfg t hits i \<and>
           (evs = [Shed, StaleServed] \<and> saturated_for cfg c (sys_state s) \<or>
            evs \<in> {[Miss, StaleServed], [Coalesced, StaleServed]} \<and> (\<nexists>h. sent = Some (Ok h))))
    | Err e \<Rightarrow>
        usable_stale (sys_clock s) c (sys_state s) = None \<and>
        (evs = [Shed] \<and> saturated_for cfg c (sys_state s) \<or>
         evs \<in> {[Miss], [Coalesced]} \<and> (\<nexists>h. sent = Some (Ok h)))"
  using assms(2)
proof (cases rule: lookup_begin_ways)
  case (live e)
  with assms(3) have "res = Ok (ent_hits e)" "evs = [if ent_hits e = [] then NegativeHit else Hit]"
    by (auto simp: lookup_answer_def)
  with live_origin [OF assms(1) live(1,2)] show ?thesis by simp
next
  case sheds
  show ?thesis
  proof (cases "usable_stale (sys_clock s) c (sys_state s)")
    case None
    with sheds(2,3) assms(3) show ?thesis by (auto simp: lookup_answer_def shed_def)
  next
    case (Some hits)
    with sheds(3) assms(3) have "res = Ok hits" "evs = [Shed, StaleServed]"
      by (auto simp: lookup_answer_def shed_def)
    with stale_origin [OF assms(1) Some sheds(1)] sheds(2) show ?thesis by simp
  qed
next
  case (waits lid ev)
  show ?thesis
  proof (cases "\<exists>h. sent = Some (Ok h)")
    case True
    with waits(2,3) assms(3) show ?thesis by (auto simp: lookup_answer_def cached_lookup_end_def)
  next
    case failed: False
    show ?thesis
    proof (cases "usable_stale (sys_clock s) c (sys_state s)")
      case None
      with failed waits(2,3) assms(3) show ?thesis
        by (cases sent) (auto simp: lookup_answer_def cached_lookup_end_def load_aborted_def split: result.splits)
    next
      case (Some hits)
      with failed waits(2,3) assms(3) have "res = Ok hits" "evs \<in> {[Miss, StaleServed], [Coalesced, StaleServed]}"
        by (cases sent; auto simp: lookup_answer_def cached_lookup_end_def load_aborted_def split: result.splits)+
      with stale_origin [OF assms(1) Some waits(1)] failed show ?thesis by simp
    qed
  qed
qed

text \<open>The entry of the demonstration, expired: what a failed load and what a shed lookup then answer.\<close>

theorem stale_as_last_resort_witness:
  "\<exists>s :: cache_sys. \<exists>l t i. (l, demo_candidates, Ok [(demo_key, demo_backend)], t) \<in> set (sys_sent s) \<and>
     entry_expiry demo_env demo_cfg t [(demo_key, demo_backend)] i \<le> 30000000050 \<and>
     30000000050 < entry_stale demo_env demo_cfg t [(demo_key, demo_backend)] i"
proof -
  obtain s where s: "cache_reachable demo_env demo_cfg s" "sys_clock s = 0"
    "map_of (cs_entries (sys_state s)) demo_candidates = Some demo_entry"
    "cs_inflight (sys_state s) = []" "cs_running_loads (sys_state s) = 0"
    using demo_loaded by blast
  let ?s = "s\<lparr>sys_clock := sys_clock s + 30000000050\<rparr>"
  have reach: "cache_reachable demo_env demo_cfg ?s"
    by (rule rtranclp.rtrancl_into_rtrancl [OF s(1) cache_step.tick])
  obtain st where wait: "cached_lookup_begin demo_cfg (sys_clock ?s) demo_candidates (sys_state ?s) =
      (Waiting (cs_next_id (sys_state s)) (Some [(demo_key, demo_backend)]) Miss, st)"
    using s by (simp add: cached_lookup_begin_def demo_entry_def join_or_load_def demo_cfg_def
        start_load_def take_id_def)
  have fin: "lookup_answer (Waiting (cs_next_id (sys_state s)) (Some [(demo_key, demo_backend)]) Miss) None =
      (Ok [(demo_key, demo_backend)], [Miss, StaleServed])"
    by (simp add: lookup_answer_def cached_lookup_end_def)
  from stale_as_last_resort [OF reach wait fin] s(2) show ?thesis
    by (intro exI [of _ ?s]) simp
qed

end
