(* ===== verification/Cached_Routing.thy ===== *)
theory Cached_Routing
  imports Cache_Invariant
begin

text \<open>
  Routing through the caching lookup. \<open>CachedLookup\<close> wraps a route store that its owner may
  change at any time; the cache learns of a change only when its entries expire or when the owner
  calls \<open>invalidate\<close> or \<open>clear\<close>. The system of this theory has the cache, its loads, which read
  the store at one instant between their start and their end, and the store with its history. Its
  theorems say which of the store's contents a lookup may answer from.
\<close>

section \<open>The cache over a changing store\<close>

text \<open>
  \<open>ss_history\<close> holds the contents the store has had, the current one first; \<open>ss_reads\<close> what the
  loads have read. \<open>answer\<close> is the inner \<open>RouteLookup::lookup\<close>.
\<close>

record 's store_sys =
  ss_cache :: cache_sys
  ss_history :: "'s list"
  ss_reads :: "((nat \<times> route_candidates) \<times> route_hits) list"

definition store_init :: "'s \<Rightarrow> 's store_sys" where
  "store_init store = \<lparr>ss_cache = sys_init, ss_history = [store], ss_reads = []\<rparr>"

text \<open>A load that sends hits sends what it read; one that fails may have read or not.\<close>

definition sends_what_it_read ::
    "((nat \<times> route_candidates) \<times> route_hits) list \<Rightarrow> (nat \<times> route_candidates \<times> load_result \<times> nat) \<Rightarrow> bool" where
  "sends_what_it_read reads sent =
     (case sent of (lid, c, res, _) \<Rightarrow>
        (case res of Ok hits \<Rightarrow> map_of reads (lid, c) = Some hits | Err _ \<Rightarrow> True))"

inductive store_step ::
    "('s \<Rightarrow> route_candidates \<Rightarrow> route_hits) \<Rightarrow> cache_env \<Rightarrow> cache_config \<Rightarrow>
     's store_sys \<Rightarrow> 's store_sys \<Rightarrow> bool"
  for answer :: "'s \<Rightarrow> route_candidates \<Rightarrow> route_hits" and env :: cache_env and cfg :: cache_config where
  cache:
    "cache_step env cfg (ss_cache s) cs \<Longrightarrow> list_all (sends_what_it_read (ss_reads s)) (sys_sent cs) \<Longrightarrow>
     store_step answer env cfg s (s\<lparr>ss_cache := cs\<rparr>)"
| load_reads:
    "(lid, c) \<in> set (sys_guards (ss_cache s)) \<Longrightarrow> map_of (ss_reads s) (lid, c) = None \<Longrightarrow>
     ss_history s = store # past \<Longrightarrow>
     store_step answer env cfg s (s\<lparr>ss_reads := ((lid, c), answer store c) # ss_reads s\<rparr>)"
| store_changes: "store_step answer env cfg s (s\<lparr>ss_history := store # ss_history s\<rparr>)"

text \<open>
  What the whole of \<open>cached_lookup\<close> returns when it began in \<open>s\<close> and, if it had to wait, the
  load it waited for had ended or was gone in \<open>s'\<close>.
\<close>

definition lookup_result ::
    "cache_config \<Rightarrow> cache_sys \<Rightarrow> cache_sys \<Rightarrow> route_candidates \<Rightarrow> load_result" where
  "lookup_result cfg s s' c =
     (case fst (cached_lookup_begin cfg (sys_clock s) c (sys_state s)) of
        Answered res _ \<Rightarrow> res
      | Waiting lid stale _ \<Rightarrow>
          fst (cached_lookup_end
            (map_of (map (\<lambda>(lid, c, res, _). ((lid, c), res)) (sys_sent s')) (lid, c)) stale))"

section \<open>Simulation\<close>

interpretation cache_part: simulation "store_step answer env cfg" "cache_step env cfg" ss_cache
  for answer env cfg
proof
  fix s s'
  assume "store_step answer env cfg s s'"
  then show "cache_step env cfg (ss_cache s) (ss_cache s') \<or> ss_cache s' = ss_cache s"
    by cases auto
qed

abbreviation store_reachable ::
    "('s \<Rightarrow> route_candidates \<Rightarrow> route_hits) \<Rightarrow> cache_env \<Rightarrow> cache_config \<Rightarrow> 's \<Rightarrow> 's store_sys \<Rightarrow> bool" where
  "store_reachable answer env cfg store \<equiv> (store_step answer env cfg)\<^sup>*\<^sup>* (store_init store)"

lemma store_reachable_cache:
  "store_reachable answer env cfg store s \<Longrightarrow> cache_reachable env cfg (ss_cache s)"
  using cache_part.run_of_part [of answer env cfg "store_init store" s] by (simp add: store_init_def)

lemma store_reachable_sys_ok: "store_reachable answer env cfg store s \<Longrightarrow> sys_ok cfg (ss_cache s)"
  by (rule sys_ok_reachable [OF store_reachable_cache])

section \<open>Which contents an answer comes from\<close>

text \<open>The contents the store has had since its history was \<open>h\<close> long, the one of then included.\<close>

definition stores_since :: "nat \<Rightarrow> 's store_sys \<Rightarrow> 's list" where
  "stores_since h s = take (Suc (length (ss_history s) - h)) (ss_history s)"

definition read_since ::
    "('s \<Rightarrow> route_candidates \<Rightarrow> route_hits) \<Rightarrow> nat \<Rightarrow> 's store_sys \<Rightarrow> route_candidates \<Rightarrow> route_hits \<Rightarrow> bool" where
  "read_since answer h s c hits \<longleftrightarrow> list_ex (\<lambda>store. hits = answer store c) (stores_since h s)"

text \<open>
  The invariant after an event that drops the entries and slots of the candidates \<open>P\<close>: \<open>n\<close> is
  the first load id and \<open>h\<close> the length of the history at that moment.
\<close>

definition fresh_since ::
    "('s \<Rightarrow> route_candidates \<Rightarrow> route_hits) \<Rightarrow> (route_candidates \<Rightarrow> bool) \<Rightarrow> nat \<Rightarrow> nat \<Rightarrow> 's store_sys \<Rightarrow> bool" where
  "fresh_since answer P n h s \<longleftrightarrow>
     (\<forall>lid c hits. map_of (ss_reads s) (lid, c) = Some hits \<longrightarrow>
        lid < cs_next_id (sys_state (ss_cache s)) \<and> (n \<le> lid \<longrightarrow> read_since answer h s c hits)) \<and>
     (\<forall>c lid. P c \<longrightarrow> map_of (cs_inflight (sys_state (ss_cache s))) c = Some lid \<longrightarrow> n \<le> lid) \<and>
     (\<forall>c e. P c \<longrightarrow> map_of (cs_entries (sys_state (ss_cache s))) c = Some e \<longrightarrow>
        read_since answer h s c (ent_hits e)) \<and>
     list_all (sends_what_it_read (ss_reads s)) (sys_sent (ss_cache s)) \<and>
     n \<le> cs_next_id (sys_state (ss_cache s)) \<and> h \<le> length (ss_history s) \<and> ss_history s \<noteq> []"

lemma stores_since_change:
  "h \<le> length (ss_history s) \<Longrightarrow> stores_since h (s\<lparr>ss_history := store # ss_history s\<rparr>) = store # stores_since h s"
  by (simp add: stores_since_def Suc_diff_le)

lemma read_since_same:
  "ss_history s' = ss_history s \<Longrightarrow> read_since answer h s' c hits = read_since answer h s c hits"
  by (simp add: read_since_def stores_since_def)

lemma read_since_now:
  "ss_history s = store # past \<Longrightarrow> read_since answer h s c (answer store c)"
  by (simp add: read_since_def stores_since_def)

lemma fresh_store_changes:
  assumes "fresh_since answer P n h s"
  shows "fresh_since answer P n h (s\<lparr>ss_history := store # ss_history s\<rparr>)"
proof -
  have "h \<le> length (ss_history s)" using assms by (simp add: fresh_since_def)
  from stores_since_change [OF this, of store]
  have "read_since answer h s c hits \<Longrightarrow> read_since answer h (s\<lparr>ss_history := store # ss_history s\<rparr>) c hits"
    for c hits by (simp add: read_since_def)
  with assms show ?thesis by (simp add: fresh_since_def)
qed

lemma fresh_load_reads:
  assumes "fresh_since answer P n h s" "sys_ok cfg (ss_cache s)"
    "(lid, c) \<in> set (sys_guards (ss_cache s))" "map_of (ss_reads s) (lid, c) = None"
    "ss_history s = store # past"
  shows "fresh_since answer P n h (s\<lparr>ss_reads := ((lid, c), answer store c) # ss_reads s\<rparr>)"
    (is "fresh_since _ _ _ _ ?s")
proof -
  have lid: "lid < cs_next_id (sys_state (ss_cache s))" using assms(2,3) by (auto simp: sys_ok_def)
  have same: "read_since answer h ?s c' hits = read_since answer h s c' hits" for c' hits
    by (rule read_since_same) simp
  have sent: "sends_what_it_read (ss_reads s) x \<Longrightarrow>
      sends_what_it_read (((lid, c), answer store c) # ss_reads s) x" for x
    using assms(4) by (auto simp: sends_what_it_read_def split: result.splits)
  have "list_all (sends_what_it_read (((lid, c), answer store c) # ss_reads s)) (sys_sent (ss_cache s))"
    using assms(1) sent by (auto simp: fresh_since_def list_all_iff)
  with assms(1) lid read_since_now [OF assms(5), of answer h c] show ?thesis
    unfolding fresh_since_def same by auto
qed

text \<open>A step of the cache keeps the invariant: entries come only from loads that own their slot.\<close>

lemma fresh_finish:
  assumes fresh: "fresh_since answer P n h s" and ok: "sys_ok cfg (ss_cache s)"
    and fin: "finish_load env cfg now c lid res (sys_state (ss_cache s)) = Some (st, ev)"
    and read: "\<And>hits. res = Ok hits \<Longrightarrow> map_of (ss_reads s) (lid, c) = Some hits"
    and e: "P c'" "map_of (cs_entries st) c' = Some e"
  shows "read_since answer h s c' (ent_hits e)"
proof -
  have "state_ok cfg (sys_state (ss_cache s))" using ok by (simp add: sys_ok_def)
  from finish_load_entries [OF this fin e(2)] show ?thesis
  proof
    assume "map_of (cs_entries (sys_state (ss_cache s))) c' = Some e"
    with fresh e(1) show ?thesis by (simp add: fresh_since_def)
  next
    assume own: "c' = c \<and> res = Ok (ent_hits e) \<and> map_of (cs_inflight (sys_state (ss_cache s))) c = Some lid \<and>
      (\<exists>i. ent_expires e = entry_expiry env cfg now (ent_hits e) i \<and>
           ent_stale_until e = entry_stale env cfg now (ent_hits e) i)"
    with fresh e(1) have "n \<le> lid" by (auto simp: fresh_since_def)
    with fresh read own show ?thesis by (auto simp: fresh_since_def)
  qed
qed

lemma fresh_cache_step:
  assumes fresh: "fresh_since answer P n h s" and ok: "sys_ok cfg (ss_cache s)"
    and step: "cache_step env cfg (ss_cache s) cs"
    and sent: "list_all (sends_what_it_read (ss_reads s)) (sys_sent cs)"
  shows "fresh_since answer P n h (s\<lparr>ss_cache := cs\<rparr>)"
proof -
  let ?st = "sys_state (ss_cache s)"
  have inf: "distinct (map fst (cs_inflight ?st))" and idx: "index_ok ?st"
    using ok by (simp_all add: sys_ok_def state_ok_def)
  have "cs_next_id ?st \<le> cs_next_id (sys_state cs) \<and>
    (\<forall>c lid. P c \<longrightarrow> map_of (cs_inflight (sys_state cs)) c = Some lid \<longrightarrow> n \<le> lid) \<and>
    (\<forall>c e. P c \<longrightarrow> map_of (cs_entries (sys_state cs)) c = Some e \<longrightarrow> read_since answer h s c (ent_hits e))"
    using step
  proof cases
    case (lookup c r st)
    from lookup(2) show ?thesis
    proof (cases rule: lookup_begin_cases)
      case same
      with lookup fresh show ?thesis by (simp add: fresh_since_def)
    next
      case (start stale)
      with lookup fresh show ?thesis
        by (auto simp: fresh_since_def start_load_def take_id_def alist_simps)
    qed
  next
    case (finish lid c out st ev)
    have st: "state_ok cfg ?st" using ok by (simp add: sys_ok_def)
    have read: "map_of (ss_reads s) (lid, c) = Some hits" if "load_outcome out = Ok hits" for hits
      using sent finish(1) that by (simp add: sends_what_it_read_def)
    show ?thesis
      using finish(1) finish_load_ok [OF st finish(3)] fresh fresh_finish [OF fresh ok finish(3) read]
      by (auto simp: fresh_since_def split: if_splits)
  next
    case (invalidate k)
    with fresh show ?thesis
      by (auto simp: fresh_since_def invalidate_entries [OF idx] invalidate_inflight [OF inf] split: if_splits)
  next
    case clear
    with fresh show ?thesis by (simp add: fresh_since_def cache_clear_def)
  next
    case (tick d)
    with fresh show ?thesis by (simp add: fresh_since_def)
  qed
  moreover have "read_since answer h (s\<lparr>ss_cache := cs\<rparr>) c hits = read_since answer h s c hits" for c hits
    by (rule read_since_same) simp
  ultimately show ?thesis using fresh sent unfolding fresh_since_def by simp (metis order.strict_trans2)
qed

lemma fresh_step:
  assumes "store_step answer env cfg s s'" "fresh_since answer P n h s" "sys_ok cfg (ss_cache s)"
  shows "fresh_since answer P n h s'"
  using assms(1)
proof cases
  case (cache cs)
  with fresh_cache_step [OF assms(2,3) cache(2,3)] show ?thesis by simp
next
  case (load_reads lid c store past)
  with fresh_load_reads [OF assms(2,3) load_reads(2-4)] show ?thesis by simp
next
  case (store_changes store)
  with fresh_store_changes [OF assms(2)] show ?thesis by simp
qed

lemma fresh_steps:
  assumes "(store_step answer env cfg)\<^sup>*\<^sup>* s s'" "fresh_since answer P n h s" "sys_ok cfg (ss_cache s)"
  shows "fresh_since answer P n h s' \<and> sys_ok cfg (ss_cache s')"
  using assms(1)
proof (induction rule: rtranclp_induct)
  case (step s' s'')
  from cache_part.step_or_stutter [OF step(2)] step(3) have "sys_ok cfg (ss_cache s'')"
    using cache_step_ok by metis
  with step fresh_step show ?case by blast
qed (use assms in simp)

section \<open>Establishing the invariant\<close>

lemma fresh_init: "fresh_since answer P 0 1 (store_init store)"
  by (simp add: fresh_since_def store_init_def sys_init_def cache_new_def)

lemma store_reachable_fresh:
  assumes "store_reachable answer env cfg store s"
  shows "fresh_since answer P 0 1 s"
  using fresh_steps [OF assms fresh_init] sys_ok_init by (simp add: store_init_def)

definition forgetting :: "cache_state \<Rightarrow> 's store_sys \<Rightarrow> 's store_sys" where
  "forgetting st s = s\<lparr>ss_cache := (ss_cache s)\<lparr>sys_state := st\<rparr>\<rparr>"

text \<open>An operation that drops the entries and slots of \<open>P\<close> starts a new era for \<open>P\<close>.\<close>

lemma fresh_forgetting:
  assumes "store_reachable answer env cfg store s"
    and "cs_next_id st = cs_next_id (sys_state (ss_cache s))"
    and "\<And>c. P c \<Longrightarrow> map_of (cs_entries st) c = None \<and> map_of (cs_inflight st) c = None"
  shows "fresh_since answer P (cs_next_id (sys_state (ss_cache s))) (length (ss_history s)) (forgetting st s)"
  using store_reachable_fresh [OF assms(1), of "\<lambda>_. False"] assms(2,3)
  by (fastforce simp: fresh_since_def forgetting_def)

lemma forgetting_step:
  assumes "cache_step env cfg (ss_cache s) ((ss_cache s)\<lparr>sys_state := st\<rparr>)" "store_reachable answer env cfg store s"
  shows "store_step answer env cfg s (forgetting st s)"
proof -
  have "list_all (sends_what_it_read (ss_reads s)) (sys_sent ((ss_cache s)\<lparr>sys_state := st\<rparr>))"
    using store_reachable_fresh [OF assms(2), of "\<lambda>_. False"] by (simp add: fresh_since_def)
  from store_step.cache [OF assms(1) this] show ?thesis by (simp add: forgetting_def)
qed

section \<open>What a lookup answers\<close>

lemma lookup_begin_sources:
  assumes "cached_lookup_begin cfg now c st = (r, st')"
  shows "(\<forall>hits ev. r = Answered (Ok hits) ev \<longrightarrow> (\<exists>e. map_of (cs_entries st) c = Some e \<and> hits = ent_hits e)) \<and>
    (\<forall>lid stale ev. r = Waiting lid stale ev \<longrightarrow>
       (map_of (cs_inflight st) c = Some lid \<or> lid = cs_next_id st) \<and>
       (\<forall>hits. stale = Some hits \<longrightarrow> (\<exists>e. map_of (cs_entries st) c = Some e \<and> hits = ent_hits e)))"
  using assms
  by (auto simp: cached_lookup_begin_def join_or_load_def shed_def start_load_def take_id_def Let_def
      split: option.splits if_splits)

lemma read_since_step:
  assumes "store_step answer env cfg s s'" "h \<le> length (ss_history s)" "read_since answer h s c hits"
  shows "read_since answer h s' c hits \<and> h \<le> length (ss_history s')"
  using assms(1)
proof cases
  case (store_changes store)
  with assms(2,3) stores_since_change [OF assms(2), of store] show ?thesis by (simp add: read_since_def)
qed (use assms(2,3) in \<open>simp_all add: read_since_def stores_since_def\<close>)

lemma read_since_steps:
  assumes "(store_step answer env cfg)\<^sup>*\<^sup>* s s'" "h \<le> length (ss_history s)" "read_since answer h s c hits"
  shows "read_since answer h s' c hits \<and> h \<le> length (ss_history s')"
  using assms(1) by (induction rule: rtranclp_induct) (use assms(2,3) read_since_step in blast)+

lemma lookup_result_fresh:
  assumes fresh: "fresh_since answer P n h s" and ok: "sys_ok cfg (ss_cache s)"
    and steps: "(store_step answer env cfg)\<^sup>*\<^sup>* s s'"
    and c: "P c" and res: "lookup_result cfg (ss_cache s) (ss_cache s') c = Ok hits"
  shows "read_since answer h s' c hits"
proof -
  have len: "h \<le> length (ss_history s)" using fresh by (simp add: fresh_since_def)
  have cached: "read_since answer h s' c (ent_hits e)"
    if "map_of (cs_entries (sys_state (ss_cache s))) c = Some e" for e
    using read_since_steps [OF steps len, of c "ent_hits e"] fresh c that by (simp add: fresh_since_def)
  have fresh': "fresh_since answer P n h s'" using fresh_steps [OF steps fresh ok] by simp
  obtain r st where step: "cached_lookup_begin cfg (sys_clock (ss_cache s)) c (sys_state (ss_cache s)) = (r, st)"
    by fastforce
  note sources = lookup_begin_sources [OF step]
  show ?thesis
  proof (cases r)
    case (Answered a ev)
    with step res have "a = Ok hits" by (simp add: lookup_result_def)
    with sources Answered cached show ?thesis by auto
  next
    case (Waiting lid stale ev)
    let ?sent = "map_of (map (\<lambda>(lid, c, res, _). ((lid, c), res)) (sys_sent (ss_cache s'))) (lid, c)"
    from Waiting step res have fin: "fst (cached_lookup_end ?sent stale) = Ok hits"
      by (simp add: lookup_result_def)
    show ?thesis
    proof (cases "?sent = Some (Ok hits)")
      case True
      then obtain t where "(lid, c, Ok hits, t) \<in> set (sys_sent (ss_cache s'))"
        by (auto dest!: map_of_SomeD)
      with fresh' have "map_of (ss_reads s') (lid, c) = Some hits"
        by (auto simp: fresh_since_def list_all_iff sends_what_it_read_def)
      moreover have "n \<le> lid" using sources Waiting fresh c by (auto simp: fresh_since_def)
      ultimately show ?thesis using fresh' by (simp add: fresh_since_def)
    next
      case False
      with fin have "stale = Some hits"
        by (auto simp: cached_lookup_end_def split: option.splits result.splits)
      with sources Waiting cached show ?thesis by auto
    qed
  qed
qed

text \<open>Routing uses a single lookup, so it comes from one of the contents the lookup may answer from.\<close>

lemma resolve_from_lookup:
  assumes "\<And>hits. lookup (candidates_for_hostname host) = Ok hits \<Longrightarrow>
    list_ex (\<lambda>store. hits = answer store (candidates_for_hostname host)) stores"
  shows "case resolve_route (\<lambda>c. Done (lookup c)) host of
      Err (Lookup e) \<Rightarrow> lookup (candidates_for_hostname host) = Err e
    | r \<Rightarrow> list_ex (\<lambda>store. r = resolve_route (\<lambda>c. Done (Ok (answer store c))) host) stores"
proof (cases "lookup (candidates_for_hostname host)")
  case (Ok hits)
  let ?r = "resolve_route (\<lambda>c. Done (lookup c)) host"
  have "list_ex (\<lambda>store. ?r = resolve_route (\<lambda>c. Done (Ok (answer store c))) host) stores"
    using assms [OF Ok] Ok by (auto simp: list_ex_iff resolve_route_def Let_def)
  moreover have "\<nexists>e. ?r = Err (Lookup e)"
    using Ok by (cases "sel_matched (select_route (candidates_for_hostname host) hits)")
      (auto simp: resolve_route_def Let_def)
  ultimately show ?thesis by (auto split: result.splits route_error.splits)
qed (simp add: resolve_route_def)

section \<open>A run that loads the demonstration route\<close>

definition demo_store_loaded :: "in_memory_lookup store_sys \<Rightarrow> bool" where
  "demo_store_loaded s \<longleftrightarrow>
     store_reachable mem_hits demo_env demo_cfg demo_table s \<and> ss_history s = [demo_table] \<and>
     lookup_result demo_cfg sys_init (ss_cache s) demo_candidates = Ok [(demo_key, demo_backend)] \<and>
     map_of (cs_entries (sys_state (ss_cache s))) demo_candidates = Some demo_entry \<and> sys_clock (ss_cache s) = 0"

lemma demo_candidates_eq: "candidates_for_hostname (Hostname ''w.x.y'') = demo_candidates"
proof -
  have "route_key_wildcard_for (Hostname ''w.x.y'') = Some demo_key" by code_simp
  then show ?thesis by (simp add: candidates_for_hostname_def demo_candidates_def)
qed

lemma demo_hits: "mem_hits demo_table demo_candidates = [(demo_key, demo_backend)]"
  by (simp add: mem_hits_def demo_candidates_def cand_keys_def List.map_filter_def mem_get_def [symmetric]
      demo_table_get route_key_exact_def demo_key_def)

lemma demo_store_route:
  "resolve_route (\<lambda>c. Done (Ok (mem_hits demo_table c))) (Hostname ''w.x.y'') =
     Ok \<lparr>match_key = demo_key, match_backend = demo_backend\<rparr>"
proof -
  have "route_key_wildcard_for (Hostname ''w.x.y'') = Some demo_key" by code_simp
  then show ?thesis
    by (simp add: mem.wildcard_second demo_table_get route_key_exact_def demo_key_def)
qed

lemma empty_store_route: "resolve_route (\<lambda>c. Done (Ok (mem_hits mem_new c))) host \<noteq> Ok m"
  by (simp add: mem_hits_def mem_new_def resolve_route_def select_route_def List.map_filter_def
      hits_get_def split: option.splits)

lemma demo_store_loads: "\<exists>s. demo_store_loaded s"
proof -
  let ?hits = "[(demo_key, demo_backend)]"
  let ?step = "store_step mem_hits demo_env demo_cfg"
  define s1 where "s1 = (store_init demo_table)\<lparr>ss_cache := demo_loading\<rparr>"
  define s2 where "s2 = s1\<lparr>ss_reads := [((0, demo_candidates), mem_hits demo_table demo_candidates)]\<rparr>"
  have "cached_lookup_begin demo_cfg (sys_clock sys_init) demo_candidates (sys_state sys_init) =
      (Waiting 0 None Miss, snd (start_load demo_candidates cache_new))"
    by (simp add: cached_lookup_begin_def join_or_load_def sys_init_def cache_new_def demo_cfg_def
        start_load_def take_id_def Let_def)
  note begin_lookup = this
  from cache_step.lookup [OF this, of demo_env] have "cache_step demo_env demo_cfg sys_init demo_loading"
    by (simp add: demo_loading_def sys_init_def)
  then have step1: "?step (store_init demo_table) s1"
    unfolding s1_def by (intro store_step.cache) (simp_all add: store_init_def demo_loading_def sys_init_def)
  have step2: "?step s1 s2"
    using store_step.load_reads [of 0 demo_candidates s1 demo_table "[]" mem_hits demo_env demo_cfg]
      demo_loading_guard by (simp add: s1_def s2_def store_init_def)
  obtain st ev where "finish_load demo_env demo_cfg 0 demo_candidates 0 (Ok ?hits) (sys_state demo_loading) =
      Some (st, ev)" and entry: "map_of (cs_entries st) demo_candidates = Some demo_entry"
    by (rule demo_load_ends)
  then have "finish_load demo_env demo_cfg (sys_clock demo_loading) demo_candidates 0
      (load_outcome (Some (Done (Ok ?hits)))) (sys_state demo_loading) = Some (st, ev)"
    by (simp add: load_outcome_def) (simp add: demo_loading_def sys_init_def)
  note fin = cache_step.finish [OF demo_loading_guard this]
  let ?cs = "demo_loading\<lparr>sys_state := st,
     sys_guards := remove1 (0, demo_candidates) (sys_guards demo_loading),
     sys_sent := (0, demo_candidates, load_outcome (Some (Done (Ok ?hits))), sys_clock demo_loading) #
       sys_sent demo_loading\<rparr>"
  have sent: "sys_sent ?cs = [(0, demo_candidates, Ok ?hits, 0)]"
    by (simp add: load_outcome_def demo_loading_def sys_init_def)
  have cache: "ss_cache s2 = demo_loading" by (simp add: s2_def s1_def)
  have "list_all (sends_what_it_read (ss_reads s2)) (sys_sent ?cs)"
    unfolding sent by (simp add: sends_what_it_read_def s2_def demo_hits)
  from store_step.cache [OF fin [folded cache] this [unfolded cache [symmetric]]]
  have step3: "?step s2 (s2\<lparr>ss_cache := ?cs\<rparr>)" unfolding cache .
  have "store_reachable mem_hits demo_env demo_cfg demo_table (s2\<lparr>ss_cache := ?cs\<rparr>)"
    using step1 step2 step3 by (meson converse_rtranclp_into_rtranclp rtranclp.rtrancl_refl)
  moreover have "lookup_result demo_cfg sys_init ?cs demo_candidates = Ok ?hits"
    unfolding lookup_result_def begin_lookup sent by (simp add: cached_lookup_end_def)
  moreover have "ss_history (s2\<lparr>ss_cache := ?cs\<rparr>) = [demo_table]"
    by (simp add: s2_def s1_def store_init_def)
  moreover have "sys_clock ?cs = 0" by (simp add: demo_loading_def sys_init_def)
  ultimately have "demo_store_loaded (s2\<lparr>ss_cache := ?cs\<rparr>)" using entry by (simp add: demo_store_loaded_def)
  then show ?thesis by blast
qed

section \<open>Properties\<close>

text \<open>C15 (cached\_routing\_authentic): routing through the cache gives what routing over some
contents of the store gives, one it has had by the time the lookup returns, or a lookup error;
over a store that does not change the cache is transparent.\<close>

theorem cached_routing_authentic:
  assumes "store_reachable answer env cfg store s" "(store_step answer env cfg)\<^sup>*\<^sup>* s s'"
  shows "case resolve_route (\<lambda>c. Done (lookup_result cfg (ss_cache s) (ss_cache s') c)) host of
      Err (Lookup e) \<Rightarrow> lookup_result cfg (ss_cache s) (ss_cache s') (candidates_for_hostname host) = Err e
    | r \<Rightarrow> list_ex (\<lambda>store. r = resolve_route (\<lambda>c. Done (Ok (answer store c))) host) (ss_history s')"
proof -
  have fresh: "fresh_since answer (\<lambda>_. True) 0 1 s" by (rule store_reachable_fresh [OF assms(1)])
  note ok = store_reachable_sys_ok [OF assms(1)]
  have "length (stores_since 1 s') \<le> length (ss_history s')" and
    sub: "set (stores_since 1 s') \<subseteq> set (ss_history s')"
    by (auto simp: stores_since_def dest: in_set_takeD)
  show ?thesis
  proof (rule resolve_from_lookup)
    fix hits assume "lookup_result cfg (ss_cache s) (ss_cache s') (candidates_for_hostname host) = Ok hits"
    from lookup_result_fresh [OF fresh ok assms(2) TrueI this] sub
    show "list_ex (\<lambda>store. hits = answer store (candidates_for_hostname host)) (ss_history s')"
      by (auto simp: read_since_def list_ex_iff)
  qed
qed

theorem cached_routing_authentic_witness:
  "\<exists>s. demo_store_loaded s \<and>
     resolve_route (\<lambda>c. Done (lookup_result demo_cfg sys_init (ss_cache s) c)) (Hostname ''w.x.y'') =
       resolve_route (\<lambda>c. Done (Ok (mem_hits demo_table c))) (Hostname ''w.x.y'')"
proof -
  obtain s where s: "demo_store_loaded s" using demo_store_loads by blast
  have run: "store_reachable mem_hits demo_env demo_cfg demo_table s" and hist: "ss_history s = [demo_table]"
    and res: "lookup_result demo_cfg (ss_cache (store_init demo_table)) (ss_cache s) demo_candidates =
      Ok [(demo_key, demo_backend)]"
    using s by (simp_all add: demo_store_loaded_def store_init_def)
  from cached_routing_authentic [OF rtranclp.rtrancl_refl run, of "Hostname ''w.x.y''"] s res show ?thesis
    unfolding demo_candidates_eq hist
    by (intro exI [of _ s]) (auto simp: store_init_def split: result.splits route_error.splits)
qed

text \<open>C7 (invalidation\_fresh): once a key was invalidated, or the cache cleared, no lookup that begins
later is answered from what the store held before: routing a name that the key covers
gives what some contents since the invalidation give, or a lookup error.\<close>

theorem invalidation_fresh:
  assumes "store_reachable answer env cfg store s"
    and "(st = cache_invalidate k (sys_state (ss_cache s)) \<and> valid_route_key k \<and> key_matches k host) \<or>
      st = cache_clear (sys_state (ss_cache s))"
    and "(store_step answer env cfg)\<^sup>*\<^sup>* (forgetting st s) s'" "(store_step answer env cfg)\<^sup>*\<^sup>* s' s''"
  shows "case resolve_route (\<lambda>c. Done (lookup_result cfg (ss_cache s') (ss_cache s'') c)) host of
      Err (Lookup e) \<Rightarrow> lookup_result cfg (ss_cache s') (ss_cache s'') (candidates_for_hostname host) = Err e
    | r \<Rightarrow> list_ex (\<lambda>store. r = resolve_route (\<lambda>c. Done (Ok (answer store c))) host)
        (take (Suc (length (ss_history s'') - length (ss_history s))) (ss_history s''))"
proof -
  let ?n = "cs_next_id (sys_state (ss_cache s))" and ?P = "\<lambda>c. c = candidates_for_hostname host"
  have "state_ok cfg (sys_state (ss_cache s))"
    using store_reachable_sys_ok [OF assms(1)] by (simp add: sys_ok_def)
  then have "cs_next_id st = ?n" and
    "map_of (cs_entries st) c = None \<and> map_of (cs_inflight st) c = None" if "?P c" for c
    using assms(2) that route_keys_cover [of k host]
    by (auto simp: cache_clear_def state_ok_def invalidate_entries invalidate_inflight)
  then have fresh: "fresh_since answer ?P ?n (length (ss_history s)) (forgetting st s)"
    by (intro fresh_forgetting [OF assms(1)]) auto
  have "cache_step env cfg (ss_cache s) ((ss_cache s)\<lparr>sys_state := st\<rparr>)"
    using assms(2) cache_step.invalidate cache_step.clear by metis
  then have "sys_ok cfg (ss_cache (forgetting st s))"
    using cache_step_ok store_reachable_sys_ok [OF assms(1)] by (simp add: forgetting_def)
  from fresh_steps [OF assms(3) fresh this]
  have fresh': "fresh_since answer ?P ?n (length (ss_history s)) s'" and ok': "sys_ok cfg (ss_cache s')"
    by simp_all
  show ?thesis
    unfolding stores_since_def [symmetric]
  proof (rule resolve_from_lookup)
    fix hits assume "lookup_result cfg (ss_cache s') (ss_cache s'') (candidates_for_hostname host) = Ok hits"
    from lookup_result_fresh [OF fresh' ok' assms(4) refl this]
    show "list_ex (\<lambda>store. hits = answer store (candidates_for_hostname host))
        (stores_since (length (ss_history s)) s'')" by (simp add: read_since_def)
  qed
qed

text \<open>
  The cached route is gone from the store: it is answered until the key is invalidated, and from
  then on never again.
\<close>

theorem invalidation_fresh_witness:
  "\<exists>s. let r = \<lambda>s. resolve_route (\<lambda>c. Done (lookup_result demo_cfg (ss_cache s) (ss_cache s) c)) (Hostname ''w.x.y'');
         gone = Ok \<lparr>match_key = demo_key, match_backend = demo_backend\<rparr>
     in ss_history s = [mem_new, demo_table] \<and> r s = gone \<and>
        r (forgetting (cache_invalidate demo_key (sys_state (ss_cache s))) s) \<noteq> gone"
proof -
  let ?r = "\<lambda>s. resolve_route (\<lambda>c. Done (lookup_result demo_cfg (ss_cache s) (ss_cache s) c)) (Hostname ''w.x.y'')"
  obtain s0 where s0: "demo_store_loaded s0" using demo_store_loads by blast
  let ?s = "s0\<lparr>ss_history := mem_new # ss_history s0\<rparr>"
  let ?f = "forgetting (cache_invalidate demo_key (sys_state (ss_cache ?s))) ?s"
  have "store_reachable mem_hits demo_env demo_cfg demo_table s0" using s0 by (simp add: demo_store_loaded_def)
  moreover have "store_step mem_hits demo_env demo_cfg s0 ?s" by (rule store_step.store_changes)
  ultimately have reach: "store_reachable mem_hits demo_env demo_cfg demo_table ?s" by (rule rtranclp.rtrancl_into_rtrancl)
  have "lookup_result demo_cfg (ss_cache ?s) (ss_cache ?s) demo_candidates = Ok [(demo_key, demo_backend)]"
    using s0 by (simp add: demo_store_loaded_def lookup_result_def cached_lookup_begin_def demo_entry_def)
  then have old: "?r ?s = Ok \<lparr>match_key = demo_key, match_backend = demo_backend\<rparr>"
    using demo_store_route by (simp add: resolve_route_def demo_candidates_eq demo_hits)
  have "key_matches demo_key (Hostname ''w.x.y'')"
    by (simp add: key_matches_def demo_key_def exI [of _ "''w''"])
  then have "(cache_invalidate demo_key (sys_state (ss_cache ?s)) = cache_invalidate demo_key (sys_state (ss_cache ?s)) \<and>
      valid_route_key demo_key \<and> key_matches demo_key (Hostname ''w.x.y'')) \<or>
      cache_invalidate demo_key (sys_state (ss_cache ?s)) = cache_clear (sys_state (ss_cache ?s))"
    using demo_key_valid by simp
  note fresh = invalidation_fresh [OF reach this rtranclp.rtrancl_refl rtranclp.rtrancl_refl]
  have hist: "ss_history ?f = [mem_new, demo_table]" "ss_history ?s = [mem_new, demo_table]"
    using s0 by (simp_all add: demo_store_loaded_def forgetting_def)
  have "?r ?f \<noteq> Ok \<lparr>match_key = demo_key, match_backend = demo_backend\<rparr>"
  proof
    assume eq: "?r ?f = Ok \<lparr>match_key = demo_key, match_backend = demo_backend\<rparr>"
    from fresh [unfolded eq hist] have "Ok \<lparr>match_key = demo_key, match_backend = demo_backend\<rparr> =
        resolve_route (\<lambda>c. Done (Ok (mem_hits mem_new c))) (Hostname ''w.x.y'')" by simp
    with empty_store_route show False by metis
  qed
  with old s0 show ?thesis by (intro exI [of _ ?s]) (simp add: demo_store_loaded_def Let_def)
qed

end
