(* ===== verification/Name_Tests.thy ===== *)
theory Name_Tests
  imports Routing
begin

text \<open>
  The unit tests of \<open>lookup/types.rs\<close> as propositions about the model, each proved. They pin the
  model to the inputs and outputs the repository itself expects.
\<close>

section \<open>Evaluation\<close>

text \<open>A name that cannot be an address because it has no colon and does not start with a digit.\<close>

definition plain_name :: "string \<Rightarrow> bool" where
  "plain_name s \<longleftrightarrow> dns_name s \<and> (case s of [] \<Rightarrow> False | c # _ \<Rightarrow> to_digit 10 c = None)"

lemma plain_name_no_address: "plain_name s \<Longrightarrow> parse_ip_addr s = None"
proof -
  assume s: "plain_name s"
  then obtain c cs where c: "s = c # cs" "to_digit 10 c = None" by (cases s) (auto simp: plain_name_def)
  moreover have "CHR '':'' \<notin> set s" using s dns_name_excludes by (simp add: plain_name_def)
  ultimately show ?thesis using parse_ip_addr_no_colon by simp
qed

lemma hostname_parses: "to_ascii_lowercase s = t \<Longrightarrow> plain_name t \<Longrightarrow> hostname_parse s = Ok (Hostname t)"
  by (simp add: hostname_parse_Ok_iff valid_hostname_def plain_name_no_address) (simp add: plain_name_def)

lemma hostname_rejects: "validate_dns_name (to_ascii_lowercase s) = Err e \<Longrightarrow> hostname_parse s = Err e"
  by (simp add: hostname_parse_def Let_def)

lemma hostname_too_long: "MAX_NAME_LEN < length s \<Longrightarrow> hostname_parse s = Err TooLong"
  by (rule hostname_rejects) (auto simp: validate_dns_name_def)

lemma exact_parses:
  "to_ascii_lowercase s = t \<Longrightarrow> plain_name t \<Longrightarrow> route_key_parse s = Ok \<lparr>key_text = t, key_wildcard = False\<rparr>"
  by (simp add: route_key_parse_Ok_iff valid_route_key_def valid_hostname_def plain_name_no_address)
    (simp add: plain_name_def)

lemma wildcard_parses:
  "to_ascii_lowercase s = ''*.'' @ t \<Longrightarrow> plain_name t \<Longrightarrow> CHR ''.'' \<in> set t \<Longrightarrow>
   route_key_parse s = Ok \<lparr>key_text = ''*.'' @ t, key_wildcard = True\<rparr>"
  by (simp add: route_key_parse_Ok_iff valid_route_key_def valid_hostname_def plain_name_no_address)
    (simp add: plain_name_def)

section \<open>Tests of the names\<close>

definition hostname_lowercases_and_accepts_valid_names :: bool where
  "hostname_lowercases_and_accepts_valid_names \<longleftrightarrow>
     map_ok as_str (hostname_parse ''Api.Example.COM'') = Ok ''api.example.com'' \<and>
     is_ok (hostname_parse ''a_b-c.example'') \<and>
     is_ok (hostname_parse ''localhost'')"

lemma hostname_lowercases_and_accepts_valid_names_passes: hostname_lowercases_and_accepts_valid_names
proof -
  have "hostname_parse ''Api.Example.COM'' = Ok (Hostname ''api.example.com'')"
    "hostname_parse ''a_b-c.example'' = Ok (Hostname ''a_b-c.example'')"
    "hostname_parse ''localhost'' = Ok (Hostname ''localhost'')"
    by (rule hostname_parses; code_simp)+
  then show ?thesis by (simp add: hostname_lowercases_and_accepts_valid_names_def)
qed

definition hostname_rejects_malformed_names :: bool where
  "hostname_rejects_malformed_names \<longleftrightarrow>
     list_all (\<lambda>(input, expected). hostname_parse input = Err expected)
       [('''', Empty), (''example.com.'', EmptyLabel), (''.example.com'', EmptyLabel), (''a..b'', EmptyLabel),
        (''*.example.com'', InvalidCharacter), (''exa mple.com'', InvalidCharacter),
        (''ex'' @ string_of_bytes [0xC3, 0xA4] @ ''mple.com'', InvalidCharacter), (''10.0.0.1'', IpLiteral)] \<and>
     hostname_parse (replicate 64 CHR ''a'' @ ''.com'') = Err LabelTooLong \<and>
     hostname_parse (tl (concat (replicate 5 (CHR ''.'' # replicate 63 CHR ''a'')))) = Err TooLong"

lemma hostname_rejects_malformed_names_passes: hostname_rejects_malformed_names
proof -
  have "hostname_parse '''' = Err Empty" "hostname_parse ''example.com.'' = Err EmptyLabel"
    "hostname_parse ''.example.com'' = Err EmptyLabel" "hostname_parse ''a..b'' = Err EmptyLabel"
    "hostname_parse ''*.example.com'' = Err InvalidCharacter" "hostname_parse ''exa mple.com'' = Err InvalidCharacter"
    "hostname_parse (''ex'' @ string_of_bytes [0xC3, 0xA4] @ ''mple.com'') = Err InvalidCharacter"
    by (rule hostname_rejects; code_simp)+
  moreover have "hostname_parse ''10.0.0.1'' = Err IpLiteral"
  proof -
    have "show_ipv4 [10, 0, 0, 1] = ''10.0.0.1''" by code_simp
    with parse_ip_addr_show_ipv4 [of "[10, 0, 0, 1]"] have "parse_ip_addr ''10.0.0.1'' = Some (V4 [10, 0, 0, 1])" by simp
    moreover have "to_ascii_lowercase ''10.0.0.1'' = ''10.0.0.1''" "validate_dns_name ''10.0.0.1'' = Ok ()" by code_simp+
    ultimately show ?thesis by (simp add: hostname_parse_def)
  qed
  moreover have "hostname_parse (replicate 64 CHR ''a'' @ ''.com'') = Err LabelTooLong"
  proof (rule hostname_rejects)
    have "to_ascii_lowercase ''a.com'' = ''a.com''" by code_simp
    then have "to_ascii_lowercase (replicate 64 CHR ''a'' @ ''.com'') = replicate 64 CHR ''a'' @ CHR ''.'' # ''com''"
      by (simp add: map_replicate_const)
    moreover have "split_char CHR ''.'' (replicate 64 CHR ''a'' @ CHR ''.'' # ''com'') = [replicate 64 CHR ''a'', ''com'']"
      unfolding split_char_append by (simp del: replicate.simps)
    ultimately show "validate_dns_name (to_ascii_lowercase (replicate 64 CHR ''a'' @ ''.com'')) = Err LabelTooLong"
      by (simp add: validate_dns_name_def MAX_NAME_LEN_def MAX_LABEL_LEN_def)
  qed
  moreover have "hostname_parse (tl (concat (replicate 5 (CHR ''.'' # replicate 63 CHR ''a'')))) = Err TooLong"
  proof (rule hostname_too_long)
    show "MAX_NAME_LEN < length (tl (concat (replicate 5 (CHR ''.'' # replicate 63 CHR ''a''))))"
      by (simp add: MAX_NAME_LEN_def length_concat sum_list_replicate)
  qed
  ultimately show ?thesis by (simp add: hostname_rejects_malformed_names_def)
qed

definition route_key_parses_exact_and_wildcard :: bool where
  "route_key_parses_exact_and_wildcard \<longleftrightarrow>
     map_ok key_text (route_key_parse ''API.example.com'') = Ok ''api.example.com'' \<and>
     map_ok key_wildcard (route_key_parse ''API.example.com'') = Ok False \<and>
     map_ok key_text (route_key_parse ''*.Apps.Example.com'') = Ok ''*.apps.example.com'' \<and>
     map_ok key_wildcard (route_key_parse ''*.Apps.Example.com'') = Ok True"

lemma route_key_parses_exact_and_wildcard_passes: route_key_parses_exact_and_wildcard
proof -
  have "route_key_parse ''API.example.com'' = Ok \<lparr>key_text = ''api.example.com'', key_wildcard = False\<rparr>"
    by (rule exact_parses; code_simp)
  moreover have "route_key_parse ''*.Apps.Example.com'' =
      Ok \<lparr>key_text = ''*.'' @ ''apps.example.com'', key_wildcard = True\<rparr>"
    by (rule wildcard_parses; code_simp)
  ultimately show ?thesis by (simp add: route_key_parses_exact_and_wildcard_def)
qed

definition route_key_rejects_bad_wildcards :: bool where
  "route_key_rejects_bad_wildcards \<longleftrightarrow>
     list_all (\<lambda>input. \<not> is_ok (route_key_parse input))
       [''*.com'', ''*'', ''*.'', ''a.*.example.com'', ''*example.com'', ''**.a.b'']"

lemma route_key_rejects_bad_wildcards_passes: route_key_rejects_bad_wildcards
proof -
  have "hostname_parse ''com'' = Ok (Hostname ''com'')" by (rule hostname_parses; code_simp)
  moreover have "to_ascii_lowercase ''*.com'' = ''*.'' @ ''com''" by code_simp
  ultimately have "\<not> is_ok (route_key_parse ''*.com'')" by (simp add: route_key_parse_star)
  moreover have "hostname_parse '''' = Err Empty" by (rule hostname_rejects; code_simp)
  moreover have "to_ascii_lowercase ''*.'' = ''*.'' @ ''''" by code_simp
  ultimately have "\<not> is_ok (route_key_parse ''*.com'')" "\<not> is_ok (route_key_parse ''*.'')"
    by (simp_all add: route_key_parse_star)
  moreover have "\<not> is_ok (route_key_parse ''*'')" "\<not> is_ok (route_key_parse ''a.*.example.com'')"
    "\<not> is_ok (route_key_parse ''*example.com'')" "\<not> is_ok (route_key_parse ''**.a.b'')"
    by code_simp+
  ultimately show ?thesis by (simp add: route_key_rejects_bad_wildcards_def)
qed

definition wildcard_for_strips_exactly_one_label :: bool where
  "wildcard_for_strips_exactly_one_label \<longleftrightarrow>
     map_option key_text (route_key_wildcard_for (Hostname ''a.b.example.com'')) = Some ''*.b.example.com'' \<and>
     route_key_wildcard_for (Hostname ''example.com'') = None \<and>
     route_key_wildcard_for (Hostname ''localhost'') = None"

lemma wildcard_for_strips_exactly_one_label_passes: wildcard_for_strips_exactly_one_label
  by code_simp

definition wildcard_for_matches_parsed_wildcard_key :: bool where
  "wildcard_for_matches_parsed_wildcard_key \<longleftrightarrow>
     ok_or (route_key_wildcard_for (Hostname ''x.apps.example.com'')) Empty = route_key_parse ''*.apps.example.com''"

lemma wildcard_for_matches_parsed_wildcard_key_passes: wildcard_for_matches_parsed_wildcard_key
proof -
  have "route_key_parse ''*.apps.example.com'' =
      Ok \<lparr>key_text = ''*.'' @ ''apps.example.com'', key_wildcard = True\<rparr>"
    by (rule wildcard_parses; code_simp)
  moreover have "route_key_wildcard_for (Hostname ''x.apps.example.com'') =
      Some \<lparr>key_text = ''*.apps.example.com'', key_wildcard = True\<rparr>" by code_simp
  ultimately show ?thesis by (simp add: wildcard_for_matches_parsed_wildcard_key_def)
qed

section \<open>Tests of the backends\<close>

text \<open>Ports and backends with a name for a host.\<close>

lemma port_parses: "parse_u16 s = Some p \<Longrightarrow> p \<noteq> 0 \<Longrightarrow> parse_port s = Some p"
  by (simp add: parse_port_def)

lemmas port_eval = parse_u16_def parse_unsigned_def to_digit_def parse_port_def

lemma backend_parses:
  assumes "split_host_port s = Ok (host, port)" "parse_port port = Some p" "plain_name (to_ascii_lowercase host)"
    "case host of [] \<Rightarrow> False | c # _ \<Rightarrow> to_digit 10 c = None" "CHR '':'' \<notin> set host"
  shows "backend_from_str s = Ok \<lparr>backend_host = Dns (to_ascii_lowercase host), backend_port = p\<rparr>"
proof -
  have "parse_ip_addr host = None" using assms(4,5) by (cases host) (auto intro: parse_ip_addr_no_colon)
  moreover have "validate_dns_name (to_ascii_lowercase host) = Ok ()"
    using assms(3) by (simp add: plain_name_def validate_dns_name_Ok)
  ultimately have "parse_backend_host host = Ok (Dns (to_ascii_lowercase host))"
    by (simp add: parse_backend_host_def)
  with assms(1,2) show ?thesis by (simp add: backend_from_str_def)
qed

text \<open>The rows of the tests' route tables: a one-word host and a port.\<close>

lemma row_parses:
  assumes "plain_name host" "p \<noteq> 0"
  shows "backend_from_str (host @ '':'' @ show_u16 p) = Ok \<lparr>backend_host = Dns host, backend_port = p\<rparr>"
proof -
  have host: "dns_name host" "parse_ip_addr host = None"
    using assms(1) plain_name_no_address by (auto simp: plain_name_def)
  then have "parse_backend_host host = Ok (Dns host)"
    using validate_dns_name_Ok [of host "()"] by (simp add: parse_backend_host_def Let_def)
  with backend_from_str_plain [of host p] dns_name_excludes [OF host(1)] assms(2) show ?thesis by simp
qed

lemma ipv6_loopback:
  "parse_ipv6_addr ''::1'' = Some [0, 0, 0, 0, 0, 0, 0, 1] \<and>
   parse_ip_addr ''::1'' = Some (V6 [0, 0, 0, 0, 0, 0, 0, 1])"
proof -
  have d: "to_digit 16 CHR '':'' = None" "to_digit 10 CHR '':'' = None" "to_digit 10 CHR ''1'' = Some 1"
    "to_digit 16 CHR ''1'' = Some 1"
    by code_simp+
  have v4: "read_octets 0 (Suc n) ''::1'' = None" for n
    by (simp add: read_separator_def read_number_def d)
  have "read_groups 0 (Suc n) ''::1'' = ([], False, ''::1'')" for n
    using v4 [of 3] by (simp add: read_separator_def read_number_def d)
  from this [of 7] have head: "read_groups 0 8 ''::1'' = ([], False, ''::1'')" by simp
  have stop: "read_octets (Suc 0) (Suc n) [] = None" "read_groups (Suc 0) (Suc n) [] = ([], False, [])" for n
    by (simp_all add: read_separator_def read_given_char_def)
  have "read_octets 0 (Suc (Suc n)) ''1'' = None" for n
    using stop(1) [of n] by (simp add: read_separator_def read_number_def d)
  from this [of 2] have "read_octets 0 4 ''1'' = None" by (simp add: eval_nat_numeral)
  then have "read_groups 0 (Suc (Suc n)) ''1'' = ([1], False, [])" for n
    using stop(2) [of n] by (simp add: read_separator_def read_number_def d)
  from this [of 5] have "read_groups 0 7 ''1'' = ([1], False, [])" by (simp add: eval_nat_numeral)
  with head have "read_ipv6_addr ''::1'' = Some ([0, 0, 0, 0, 0, 0, 0, 1], [])"
    by (simp add: read_ipv6_addr_def eval_nat_numeral)
  moreover have "read_octets 0 4 ''::1'' = None" using v4 [of 3] by simp
  ultimately show ?thesis by (simp add: parse_ipv6_addr_def parse_ip_addr_def)
qed

definition backend_parses_dns_ipv4_and_ipv6 :: bool where
  "backend_parses_dns_ipv4_and_ipv6 \<longleftrightarrow>
     map_ok backend_host (backend_from_str ''API-svc.default.svc:8443'') = Ok (Dns ''api-svc.default.svc'') \<and>
     map_ok backend_port (backend_from_str ''API-svc.default.svc:8443'') = Ok 8443 \<and>
     map_ok backend_display (backend_from_str ''API-svc.default.svc:8443'') = Ok ''api-svc.default.svc:8443'' \<and>
     map_ok backend_host (backend_from_str ''10.0.0.5:443'') =
       map_ok Ip (ok_or (parse_ip_addr ''10.0.0.5'') InvalidBackendHost) \<and>
     map_ok backend_display (backend_from_str ''10.0.0.5:443'') = Ok ''10.0.0.5:443'' \<and>
     map_ok backend_host (backend_from_str ''[::1]:9000'') =
       map_ok Ip (ok_or (parse_ip_addr ''::1'') InvalidBackendHost) \<and>
     map_ok backend_display (backend_from_str ''[::1]:9000'') = Ok ''[::1]:9000''"

lemma show_ports: "show_u16 8443 = ''8443''" "show_u16 443 = ''443''" "show_u16 9000 = ''9000''" "show_u16 1 = ''1''"
proof -
  have "map char_of [48, 49, 51, 52, 56, 57 :: nat] = ''013489''" by code_simp
  then show "show_u16 8443 = ''8443''" "show_u16 443 = ''443''" "show_u16 9000 = ''9000''" "show_u16 1 = ''1''"
    by (simp_all add: show_u16_def from_digit_def show_radix.simps)
qed

lemma backend_parses_dns_ipv4_and_ipv6_passes: backend_parses_dns_ipv4_and_ipv6
proof -
  have "backend_from_str ''API-svc.default.svc:8443'' =
      Ok \<lparr>backend_host = Dns (to_ascii_lowercase ''API-svc.default.svc''), backend_port = 8443\<rparr>"
  proof (rule backend_parses)
    show "split_host_port ''API-svc.default.svc:8443'' = Ok (''API-svc.default.svc'', ''8443'')" by code_simp
    show "parse_port ''8443'' = Some 8443" by (simp add: port_eval)
  qed code_simp+
  moreover have "to_ascii_lowercase ''API-svc.default.svc'' = ''api-svc.default.svc''" by code_simp
  moreover have v4: "show_ipv4 [10, 0, 0, 5] = ''10.0.0.5''" by code_simp
  then have ip4: "parse_ip_addr ''10.0.0.5'' = Some (V4 [10, 0, 0, 5])"
    using parse_ip_addr_show_ipv4 [of "[10, 0, 0, 5]"] by simp
  have "backend_from_str ''10.0.0.5:443'' = Ok \<lparr>backend_host = Ip (V4 [10, 0, 0, 5]), backend_port = 443\<rparr>"
    using backend_round_trip_v4 [of "[10, 0, 0, 5]" 443] by (simp add: backend_display_def v4 show_ports)
  moreover have "split_host_port ''[::1]:9000'' = Ok (''::1'', ''9000'')"
    using ipv6_loopback by (simp add: split_host_port_def)
  then have "backend_from_str ''[::1]:9000'' =
      Ok \<lparr>backend_host = Ip (V6 [0, 0, 0, 0, 0, 0, 0, 1]), backend_port = 9000\<rparr>"
    using ipv6_loopback by (simp add: backend_from_str_def parse_backend_host_def port_eval)
  moreover have "show_ipv6 [0, 0, 0, 0, 0, 0, 0, 1] = ''::1''"
    by (simp add: show_ipv6_def to_ipv4_mapped_def show_radix.simps from_digit_def Let_def) code_simp
  ultimately show ?thesis
    using ipv6_loopback
    by (simp add: backend_parses_dns_ipv4_and_ipv6_def backend_display_def show_ports v4 ip4)
qed

lemma no_address_empty: "parse_ip_addr [] = None"
proof -
  have v4: "read_octets 0 (Suc n) [] = None" for n
    by (simp add: read_separator_def read_number_def)
  have "read_groups 0 (Suc n) [] = ([], False, [])" for n
    using v4 [of 3] by (simp add: read_separator_def read_number_def)
  from this [of 7] v4 [of 3] show ?thesis by (simp add: parse_ip_addr_def read_ipv6_addr_def)
qed

definition backend_rejects_malformed_values :: bool where
  "backend_rejects_malformed_values \<longleftrightarrow>
     list_all (\<lambda>(input, expected). backend_from_str input = Err expected)
       [(''svc'', MissingPort), (''svc:0'', InvalidPort), (''svc:65536'', InvalidPort), (''svc:http'', InvalidPort),
        (''::1:443'', InvalidBackendHost), (''[::1]443'', MissingPort), (''[nope]:443'', InvalidBackendHost),
        (''bad host:443'', InvalidBackendHost), ('':443'', InvalidBackendHost)]"

lemma backend_rejects_malformed_values_passes: backend_rejects_malformed_values
proof -
  have "split_host_port ''svc'' = Err MissingPort" "split_host_port ''::1:443'' = Err InvalidBackendHost"
    "split_host_port ''[::1]443'' = Err MissingPort"
    by (simp_all add: split_host_port_def rsplit_once_def)
  moreover have "split_host_port ''svc:0'' = Ok (''svc'', ''0'')" "split_host_port ''svc:65536'' = Ok (''svc'', ''65536'')"
    "split_host_port ''svc:http'' = Ok (''svc'', ''http'')"
    "split_host_port ''bad host:443'' = Ok (''bad host'', ''443'')" "split_host_port '':443'' = Ok ('''', ''443'')"
    by code_simp+
  moreover have "parse_port ''0'' = None" "parse_port ''65536'' = None" "parse_port ''http'' = None"
    "parse_port ''443'' = Some 443"
    by (simp_all add: port_eval)
  moreover have "validate_dns_name (to_ascii_lowercase ''bad host'') = Err InvalidCharacter"
    "validate_dns_name (to_ascii_lowercase '''') = Err Empty" by code_simp+
  moreover have "parse_ip_addr ''bad host'' = None" by (rule parse_ip_addr_no_colon; code_simp)
  moreover have "parse_ip_addr '''' = None" by (rule no_address_empty)
  moreover have "to_digit 10 CHR ''n'' = None" by code_simp
  then have v4: "read_octets 0 (Suc n) ''nope'' = None" for n
    by (simp add: read_separator_def read_number_def)
  have "parse_ip_addr ''nope'' = None" by (rule parse_ip_addr_None; code_simp)
  with v4 [of 3] have "parse_ipv6_addr ''nope'' = None"
    by (auto simp: parse_ip_addr_def parse_ipv6_addr_def split: option.splits list.splits)
  then have "backend_from_str ''[nope]:443'' = Err InvalidBackendHost"
    by (simp add: backend_from_str_def split_host_port_def)
  ultimately show ?thesis
    by (simp add: backend_rejects_malformed_values_def backend_from_str_def parse_backend_host_def)
qed

end
