(* ===== verification/Testing.thy ===== *)
theory Testing
  imports Connection
begin

text \<open>
  The test support of the library other than the hello builder (\<open>testing.rs\<close>): the scripted
  lookup, the route table helper and the recording metrics sink; and the messages errors print
  (\<open>lookup/types.rs\<close>, \<open>protocol/mod.rs\<close>, \<open>routing/mod.rs\<close>, \<open>lookup/mod.rs\<close>).
\<close>

section \<open>The scripted lookup\<close>

datatype lookup_behavior =
    Routes in_memory_lookup
  | Delayed nat in_memory_lookup
  | Fail string
  | Hang
  | Panic

record scripted_lookup =
  sl_behavior :: lookup_behavior
  sl_calls :: nat

definition scripted_new :: "lookup_behavior \<Rightarrow> scripted_lookup" where
  "scripted_new b = \<lparr>sl_behavior = b, sl_calls = 0\<rparr>"

definition set_behavior :: "lookup_behavior \<Rightarrow> scripted_lookup \<Rightarrow> scripted_lookup" where
  "set_behavior b s = s\<lparr>sl_behavior := b\<rparr>"

text \<open>What a scripted call does: an answer after a delay, never answering, or a panic.\<close>

datatype scripted_answer = AnswersAfter nat load_result | NeverAnswers | Panics

definition scripted_call :: "route_candidates \<Rightarrow> scripted_lookup \<Rightarrow> scripted_answer \<times> scripted_lookup" where
  "scripted_call c s =
     (case sl_behavior s of
        Routes table \<Rightarrow> AnswersAfter 0 (Ok (mem_hits table c))
      | Delayed delay table \<Rightarrow> AnswersAfter delay (Ok (mem_hits table c))
      | Fail message \<Rightarrow> AnswersAfter 0 (Err (LookupError message))
      | Hang \<Rightarrow> NeverAnswers
      | Panic \<Rightarrow> Panics,
      s\<lparr>sl_calls := sl_calls s + 1\<rparr>)"

text \<open>The call under \<open>tokio::time::timeout\<close>; a panic is \<^term>\<open>None\<close>.\<close>

definition scripted_timed :: "nat \<Rightarrow> scripted_answer \<Rightarrow> load_result timed option" where
  "scripted_timed deadline a =
     (case a of
        AnswersAfter delay r \<Rightarrow> Some (if delay \<le> deadline then Done r else Elapsed)
      | NeverAnswers \<Rightarrow> Some Elapsed
      | Panics \<Rightarrow> None)"

text \<open>\<open>route_table\<close>; \<^term>\<open>None\<close> is its panic on invalid input.\<close>

fun route_table_rows :: "(string \<times> string) list \<Rightarrow> (route_key \<times> backend) list option" where
  "route_table_rows [] = Some []"
| "route_table_rows ((key, b) # routes) =
     (case (route_key_parse key, backend_from_str b, route_table_rows routes) of
        (Ok k, Ok v, Some rows) \<Rightarrow> Some ((k, v) # rows)
      | _ \<Rightarrow> None)"

definition route_table :: "(string \<times> string) list \<Rightarrow> in_memory_lookup option" where
  "route_table routes = map_option mem_from_iter (route_table_rows routes)"

definition scripted_found :: "(string \<times> string) list \<Rightarrow> scripted_lookup option" where
  "scripted_found routes = map_option (\<lambda>table. scripted_new (Routes table)) (route_table routes)"

definition scripted_failing :: "string \<Rightarrow> scripted_lookup" where
  "scripted_failing message = scripted_new (Fail message)"

definition scripted_hanging :: scripted_lookup where
  "scripted_hanging = scripted_new Hang"

lemma scripted_routes:
  "sl_behavior s = Routes table \<Longrightarrow>
   scripted_timed deadline (fst (scripted_call c s)) = Some (Done (Ok (mem_hits table c)))"
  by (simp add: scripted_call_def scripted_timed_def)

lemma scripted_calls: "sl_calls (snd (scripted_call c s)) = sl_calls s + 1"
  by (simp add: scripted_call_def)

text \<open>A later row for the same key wins, unlike in a configuration file, where it is an error.\<close>

lemma route_table_get:
  "route_table routes = Some table \<Longrightarrow>
   \<exists>rows. route_table_rows routes = Some rows \<and> mem_get table k = map_of (rev rows) k"
  by (auto simp: route_table_def mem_get_from_iter)

section \<open>The recording sink\<close>

datatype recorded_event =
    RecConnectionOpened listener_info
  | RecConnectionClosed listener_info connection_outcome
  | RecBytesRead listener_info nat
  | RecBytesWritten listener_info nat
  | RecRouteLookup listener_info lookup_outcome
  | RecUpstreamConnect listener_info bool
  | RecCache cache_event

record recording_metrics =
  rm_events :: "recorded_event list"

definition recording_new :: recording_metrics where "recording_new = \<lparr>rm_events = []\<rparr>"

fun recorded :: "metric_event \<Rightarrow> recorded_event" where
  "recorded (ConnectionOpened li) = RecConnectionOpened li"
| "recorded (ConnectionClosed li outcome) = RecConnectionClosed li outcome"
| "recorded (BytesRead li bytes) = RecBytesRead li bytes"
| "recorded (BytesWritten li bytes) = RecBytesWritten li bytes"
| "recorded (RouteLookup li outcome) = RecRouteLookup li outcome"
| "recorded (UpstreamConnect li ok) = RecUpstreamConnect li ok"
| "recorded (CacheMetric event) = RecCache event"

definition recording_record :: "metric_event \<Rightarrow> recording_metrics \<Rightarrow> recording_metrics" where
  "recording_record event m = m\<lparr>rm_events := rm_events m @ [recorded event]\<rparr>"

fun closed_outcome :: "recorded_event \<Rightarrow> connection_outcome option" where
  "closed_outcome (RecConnectionClosed _ outcome) = Some outcome"
| "closed_outcome _ = None"

definition recording_outcomes :: "recording_metrics \<Rightarrow> connection_outcome list" where
  "recording_outcomes m = List.map_filter closed_outcome (rm_events m)"

fun recorded_cache :: "recorded_event \<Rightarrow> cache_event option" where
  "recorded_cache (RecCache event) = Some event"
| "recorded_cache _ = None"

definition recording_cache_events :: "recording_metrics \<Rightarrow> cache_event list" where
  "recording_cache_events m = List.map_filter recorded_cache (rm_events m)"

definition count_cache :: "recording_metrics \<Rightarrow> cache_event \<Rightarrow> nat" where
  "count_cache m wanted = length (filter (\<lambda>e. e = wanted) (recording_cache_events m))"

fun add_client_bytes :: "recorded_event \<Rightarrow> nat \<times> nat \<Rightarrow> nat \<times> nat" where
  "add_client_bytes (RecBytesRead _ bytes) (read, written) = (read + bytes, written)"
| "add_client_bytes (RecBytesWritten _ bytes) (read, written) = (read, written + bytes)"
| "add_client_bytes _ (read, written) = (read, written)"

definition client_bytes :: "recording_metrics \<Rightarrow> nat \<times> nat" where
  "client_bytes m = fold add_client_bytes (rm_events m) (0, 0)"

lemma recording_fold: "rm_events (fold recording_record events m) = rm_events m @ map recorded events"
  by (induction events arbitrary: m) (simp_all add: recording_record_def)

text \<open>Recording a whole connection reports its one outcome and its byte totals.\<close>

lemma recorded_drop:
  "List.map_filter closed_outcome (map recorded (record_drop li outcome r w)) =
     [case outcome of Some x \<Rightarrow> x | None \<Rightarrow> Aborted]"
  "fold add_client_bytes (map recorded (record_drop li outcome r w)) (0, 0) = (r, w)"
  by (simp_all add: record_drop_def List.map_filter_def)

section \<open>Messages\<close>

fun name_error_display :: "name_error \<Rightarrow> string" where
  "name_error_display Empty = ''name is empty''"
| "name_error_display TooLong = ''name is longer than 253 bytes''"
| "name_error_display EmptyLabel = ''name has an empty label (leading, trailing, or double dot)''"
| "name_error_display LabelTooLong = ''name has a label longer than 63 bytes''"
| "name_error_display InvalidCharacter = ''name contains a character outside [a-z0-9-_]''"
| "name_error_display IpLiteral = ''name is an IP address literal''"
| "name_error_display InvalidWildcard =
     ''wildcard must be `*.` followed by at least two labels (e.g. `*.example.com`)''"
| "name_error_display MissingPort = ''backend is missing a `:port` suffix''"
| "name_error_display InvalidPort = ''backend port must be an integer in 1..=65535''"
| "name_error_display InvalidBackendHost = ''backend host is not a valid DNS name or IP address''"

fun parse_error_display :: "parse_error \<Rightarrow> string" where
  "parse_error_display Incomplete = ''incomplete ClientHello''"
| "parse_error_display NotHandshake = ''not a TLS handshake record''"
| "parse_error_display InvalidRecord = ''invalid TLS record''"
| "parse_error_display NotClientHello = ''first handshake message is not ClientHello''"
| "parse_error_display TooLarge = ''ClientHello exceeds configured limits''"
| "parse_error_display (Malformed what) = ''malformed ClientHello: '' @ what"
| "parse_error_display (InvalidServerName error) = ''invalid SNI host_name: '' @ name_error_display error"

fun lookup_error_display :: "lookup_error \<Rightarrow> string" where
  "lookup_error_display (LookupError message) = ''route lookup failed: '' @ message"

fun route_error_display :: "route_error \<Rightarrow> string" where
  "route_error_display NotFound = ''no route for hostname''"
| "route_error_display (Lookup error) = lookup_error_display error"
| "route_error_display Timeout = ''route lookup timed out''"

lemma name_error_display_inj: "inj name_error_display"
proof (rule injI)
  fix x y assume "name_error_display x = name_error_display y"
  then show "x = y" by (cases x; cases y) simp_all
qed

end
