(* ===== verification/Lookup_Tests.thy ===== *)
theory Lookup_Tests
  imports Name_Tests Testing
begin

text \<open>
  The unit tests of \<open>lookup/mod.rs\<close>, \<open>lookup/memory.rs\<close> and \<open>routing/mod.rs\<close> as propositions about
  the model, each proved.
\<close>

section \<open>The tests' helpers\<close>

text \<open>\<open>Hostname::parse(name).unwrap()\<close>, \<open>RouteKey::parse(key).unwrap()\<close> and the tests' route tables.\<close>

definition with_host :: "string \<Rightarrow> (hostname \<Rightarrow> bool) \<Rightarrow> bool" where
  "with_host name P = (case hostname_parse name of Ok h \<Rightarrow> P h | Err _ \<Rightarrow> False)"

definition with_table :: "(string \<times> string) list \<Rightarrow> (in_memory_lookup \<Rightarrow> bool) \<Rightarrow> bool" where
  "with_table entries P = (case route_table entries of Some table \<Rightarrow> P table | None \<Rightarrow> False)"

definition with_hits :: "(string \<times> string) list \<Rightarrow> (route_hits \<Rightarrow> bool) \<Rightarrow> bool" where
  "with_hits entries P = (case route_table_rows entries of Some rows \<Rightarrow> P (hits_from_iter rows) | None \<Rightarrow> False)"

text \<open>A scripted lookup behind the timeout of \<open>resolve_route\<close>, one second in the tests.\<close>

definition test_timeout :: nat where "test_timeout = 1000000000"

definition scripted_resolve :: "scripted_lookup \<Rightarrow> hostname \<Rightarrow> (route_match, route_error) result option" where
  "scripted_resolve s host =
     (case scripted_timed test_timeout (fst (scripted_call (candidate_keys host) s)) of
        None \<Rightarrow> None
      | Some r \<Rightarrow> Some (resolve_route (\<lambda>_. r) host))"

lemma with_host_plain: "to_ascii_lowercase s = s \<Longrightarrow> plain_name s \<Longrightarrow> with_host s P = P (Hostname s)"
  by (simp add: with_host_def hostname_parses)

lemma rows_Nil: "route_table_rows [] = Some []"
  by simp

lemma row_exact:
  assumes "to_ascii_lowercase key = key" "plain_name key" "plain_name host" "p \<noteq> 0"
    "route_table_rows routes = Some rows" "entry = host @ '':'' @ show_u16 p"
  shows "route_table_rows ((key, entry) # routes) =
    Some ((\<lparr>key_text = key, key_wildcard = False\<rparr>, \<lparr>backend_host = Dns host, backend_port = p\<rparr>) # rows)"
  using exact_parses [OF assms(1,2)] row_parses [OF assms(3,4)] assms(5,6) by simp

lemma row_wildcard:
  assumes "to_ascii_lowercase parent = parent" "plain_name parent" "CHR ''.'' \<in> set parent"
    "plain_name host" "p \<noteq> 0" "route_table_rows routes = Some rows" "key = ''*.'' @ parent"
    "entry = host @ '':'' @ show_u16 p"
  shows "route_table_rows ((key, entry) # routes) =
    Some ((\<lparr>key_text = ''*.'' @ parent, key_wildcard = True\<rparr>, \<lparr>backend_host = Dns host, backend_port = p\<rparr>) # rows)"
proof -
  have "to_ascii_lowercase ''*.'' = ''*.''" by code_simp
  then have "to_ascii_lowercase (''*.'' @ parent) = ''*.'' @ parent" using assms(1) by simp
  from wildcard_parses [OF this assms(2,3)] row_parses [OF assms(4,5)] assms(6-8) show ?thesis by simp
qed

abbreviation named :: "string \<Rightarrow> u16 \<Rightarrow> backend" where
  "named host p \<equiv> \<lparr>backend_host = Dns host, backend_port = p\<rparr>"

abbreviation exact_key :: "string \<Rightarrow> route_key" where
  "exact_key name \<equiv> \<lparr>key_text = name, key_wildcard = False\<rparr>"

abbreviation wild_key :: "string \<Rightarrow> route_key" where
  "wild_key name \<equiv> \<lparr>key_text = name, key_wildcard = True\<rparr>"

lemma route_eval:
  "resolve_route (\<lambda>c. Done (Ok (mem_hits table c))) h =
     (case mem_get table (route_key_exact h) of
        Some b \<Rightarrow> Ok \<lparr>match_key = route_key_exact h, match_backend = b\<rparr>
      | None \<Rightarrow>
          (case route_key_wildcard_for h of
             None \<Rightarrow> Err NotFound
           | Some k \<Rightarrow>
               (case mem_get table k of
                  None \<Rightarrow> Err NotFound
                | Some b \<Rightarrow> Ok \<lparr>match_key = k, match_backend = b\<rparr>)))"
  by (auto simp: mem.exact_first mem.wildcard_second split: option.splits)

lemma wildcards:
  "route_key_wildcard_for (Hostname ''api.example.com'') = Some (wild_key ''*.example.com'')"
  "route_key_wildcard_for (Hostname ''a.example.com'') = Some (wild_key ''*.example.com'')"
  "route_key_wildcard_for (Hostname ''a.b.example.com'') = Some (wild_key ''*.b.example.com'')"
  "route_key_wildcard_for (Hostname ''example.com'') = None"
  "route_key_wildcard_for (Hostname ''nope.test'') = None"
  by code_simp+

lemma hosts:
  "with_host ''api.example.com'' P = P (Hostname ''api.example.com'')"
  "with_host ''a.example.com'' P = P (Hostname ''a.example.com'')"
  "with_host ''a.b.example.com'' P = P (Hostname ''a.b.example.com'')"
  "with_host ''example.com'' P = P (Hostname ''example.com'')"
  "with_host ''nope.test'' P = P (Hostname ''nope.test'')"
  by (rule with_host_plain; code_simp)+

lemmas plain_row = row_exact [OF _ _ _ _ rows_Nil]

lemma wild_row: "route_table_rows [(''*.example.com'', ''wild:1'')] = Some [(wild_key ''*.example.com'', named ''wild'' 1)]"
proof -
  have "route_table_rows [(''*.example.com'', ''wild:1'')] =
      Some [(wild_key (''*.'' @ ''example.com''), named ''wild'' 1)]"
    by (rule row_wildcard [OF _ _ _ _ _ rows_Nil]; (simp add: show_ports; fail)?; code_simp)
  then show ?thesis by simp
qed

lemma exact_row: "route_table_rows [(''api.example.com'', ''exact:1'')] =
    Some [(exact_key ''api.example.com'', named ''exact'' 1)]"
  by (rule plain_row; (simp add: show_ports; fail)?; code_simp)

lemma both_rows: "route_table_rows [(''*.example.com'', ''wild:1''), (''api.example.com'', ''exact:1'')] =
    Some [(wild_key ''*.example.com'', named ''wild'' 1), (exact_key ''api.example.com'', named ''exact'' 1)]"
  using wild_row exact_row by (auto split: result.splits)

lemma evil_row: "route_table_rows [(''evil.test'', ''evil:1'')] =
    Some [(exact_key ''evil.test'', named ''evil'' 1)]"
  by (rule plain_row; (simp add: show_ports; fail)?; code_simp)

lemma evil_rows: "route_table_rows [(''evil.test'', ''evil:1''), (''*.example.com'', ''wild:1'')] =
    Some [(exact_key ''evil.test'', named ''evil'' 1), (wild_key ''*.example.com'', named ''wild'' 1)]"
  using evil_row wild_row by (auto split: result.splits)

text \<open>The test module's \<open>table()\<close>.\<close>

definition memory_table :: "(string \<times> string) list" where
  "memory_table =
     [(''api.example.com'', ''api:443''), (''*.example.com'', ''wild:443''), (''other.test'', ''other:443'')]"

lemma memory_rows: "route_table_rows memory_table =
    Some [(exact_key ''api.example.com'', named ''api'' 443), (wild_key ''*.example.com'', named ''wild'' 443),
      (exact_key ''other.test'', named ''other'' 443)]"
proof -
  have "route_table_rows [(''api.example.com'', ''api:443'')] = Some [(exact_key ''api.example.com'', named ''api'' 443)]"
    "route_table_rows [(''other.test'', ''other:443'')] = Some [(exact_key ''other.test'', named ''other'' 443)]"
    by (rule plain_row; (simp add: show_ports; fail)?; code_simp)+
  moreover have "route_table_rows [(''*.example.com'', ''wild:443'')] =
      Some [(wild_key (''*.'' @ ''example.com''), named ''wild'' 443)]"
    by (rule row_wildcard [OF _ _ _ _ _ rows_Nil]; (simp add: show_ports; fail)?; code_simp)
  ultimately show ?thesis by (auto simp: memory_table_def split: result.splits)
qed

declare route_table_rows.simps [simp del]

lemmas test_eval = hosts wildcards wild_row both_rows evil_row evil_rows route_eval mem_get_from_iter
  route_key_exact_def with_table_def with_hits_def route_table_def backend_display_def show_ports

section \<open>Routing tests\<close>

definition exact_match_beats_wildcard :: bool where
  "exact_match_beats_wildcard \<longleftrightarrow>
     with_table [(''*.example.com'', ''wild:1''), (''api.example.com'', ''exact:1'')] (\<lambda>table.
     with_host ''api.example.com'' (\<lambda>host.
       case resolve_route (\<lambda>c. Done (Ok (mem_hits table c))) host of
         Ok route \<Rightarrow> backend_display (match_backend route) = ''exact:1'' \<and> \<not> key_wildcard (match_key route)
       | Err _ \<Rightarrow> False))"

lemma exact_match_beats_wildcard_passes: exact_match_beats_wildcard
  by (simp add: exact_match_beats_wildcard_def test_eval)

definition wildcard_matches_one_label_only :: bool where
  "wildcard_matches_one_label_only \<longleftrightarrow>
     with_table [(''*.example.com'', ''wild:1'')] (\<lambda>table.
       with_host ''a.example.com'' (\<lambda>h. is_ok (resolve_route (\<lambda>c. Done (Ok (mem_hits table c))) h)) \<and>
       with_host ''example.com'' (\<lambda>h. resolve_route (\<lambda>c. Done (Ok (mem_hits table c))) h = Err NotFound) \<and>
       with_host ''a.b.example.com'' (\<lambda>h. resolve_route (\<lambda>c. Done (Ok (mem_hits table c))) h = Err NotFound))"

lemma wildcard_matches_one_label_only_passes: wildcard_matches_one_label_only
  by (simp add: wildcard_matches_one_label_only_def test_eval)

definition uses_exactly_one_lookup_call :: bool where
  "uses_exactly_one_lookup_call \<longleftrightarrow>
     (case scripted_found [(''*.example.com'', ''wild:1'')] of
        None \<Rightarrow> False
      | Some lookup \<Rightarrow> with_host ''a.example.com'' (\<lambda>host.
          (case scripted_resolve lookup host of Some (Ok _) \<Rightarrow> True | _ \<Rightarrow> False) \<and>
          sl_calls (snd (scripted_call (candidate_keys host) lookup)) = 1))"

lemma scripted_resolve_routes:
  "sl_behavior s = Routes table \<Longrightarrow>
   scripted_resolve s host = Some (resolve_route (\<lambda>c. Done (Ok (mem_hits table c))) host)"
  by (simp add: scripted_resolve_def scripted_routes resolve_route_def Let_def del: candidate_keys_def)

lemma uses_exactly_one_lookup_call_passes: uses_exactly_one_lookup_call
  by (simp add: uses_exactly_one_lookup_call_def scripted_found_def scripted_calls scripted_new_def
      scripted_resolve_routes test_eval)

definition lookup_error_fails_closed :: bool where
  "lookup_error_fails_closed \<longleftrightarrow>
     with_host ''a.example.com'' (\<lambda>host.
       case scripted_resolve (scripted_failing ''db down'') host of
         Some (Err (Lookup _)) \<Rightarrow> True | _ \<Rightarrow> False)"

lemma lookup_error_fails_closed_passes: lookup_error_fails_closed
  by (simp add: lookup_error_fails_closed_def hosts scripted_resolve_def scripted_failing_def scripted_new_def
      scripted_call_def scripted_timed_def resolve_route_def)

definition slow_lookup_times_out :: bool where
  "slow_lookup_times_out \<longleftrightarrow>
     with_host ''a.example.com'' (\<lambda>host. scripted_resolve scripted_hanging host = Some (Err Timeout))"

lemma slow_lookup_times_out_passes: slow_lookup_times_out
  by (simp add: slow_lookup_times_out_def hosts scripted_resolve_def scripted_hanging_def scripted_new_def
      scripted_call_def scripted_timed_def resolve_route_def)

definition hits_for_non_candidate_keys_are_ignored :: bool where
  "hits_for_non_candidate_keys_are_ignored \<longleftrightarrow>
     with_host ''a.example.com'' (\<lambda>host.
     with_hits [(''evil.test'', ''evil:1''), (''*.example.com'', ''wild:1'')] (\<lambda>hits.
       let selection = select_route (candidate_keys host) hits
       in sel_ignored_hits selection = 1 \<and>
          map_option (\<lambda>m. backend_display (match_backend m)) (sel_matched selection) = Some ''wild:1''))"

lemma a_candidates: "cand_keys (candidates_for_hostname (Hostname ''a.example.com'')) =
    [exact_key ''a.example.com'', wild_key ''*.example.com'']"
  by (simp add: cand_keys_def candidates_for_hostname_def wildcards route_key_exact_def)

lemma hits_for_non_candidate_keys_are_ignored_passes: hits_for_non_candidate_keys_are_ignored
  by (simp add: hits_for_non_candidate_keys_are_ignored_def test_eval select_route_def a_candidates
      hits_get_def List.map_filter_def Let_def)

definition only_non_candidate_hits_means_not_found :: bool where
  "only_non_candidate_hits_means_not_found \<longleftrightarrow>
     with_host ''a.example.com'' (\<lambda>host.
     with_hits [(''evil.test'', ''evil:1'')] (\<lambda>hits.
       sel_matched (select_route (candidate_keys host) hits) = None))"

lemma only_non_candidate_hits_means_not_found_passes: only_non_candidate_hits_means_not_found
  by (simp add: only_non_candidate_hits_means_not_found_def test_eval select_route_def a_candidates
      hits_get_def List.map_filter_def)

section \<open>Tests of the in-memory table\<close>

definition returns_hits_for_every_matching_candidate :: bool where
  "returns_hits_for_every_matching_candidate \<longleftrightarrow>
     with_table memory_table (\<lambda>table. with_host ''api.example.com'' (\<lambda>host.
       let candidates = candidates_for_hostname host; hits = mem_hits table candidates
       in hits_len hits = 2 \<and>
          map_option backend_display (hits_get hits (cand_exact candidates)) = Some ''api:443''))"

lemma returns_hits_for_every_matching_candidate_passes: returns_hits_for_every_matching_candidate
  by (simp add: returns_hits_for_every_matching_candidate_def test_eval memory_rows Let_def
      candidates_for_hostname_def cand_keys_def mem_hits_def mem_get_from_iter [unfolded mem_get_def]
      hits_len_def hits_get_def List.map_filter_def)

definition returns_empty_hits_when_nothing_matches :: bool where
  "returns_empty_hits_when_nothing_matches \<longleftrightarrow>
     with_table memory_table (\<lambda>table. with_host ''nope.test'' (\<lambda>host.
       hits_is_empty (mem_hits table (candidates_for_hostname host))))"

lemma returns_empty_hits_when_nothing_matches_passes: returns_empty_hits_when_nothing_matches
  by (simp add: returns_empty_hits_when_nothing_matches_def test_eval memory_rows hits_is_empty_def
      candidates_for_hostname_def cand_keys_def mem_hits_def mem_get_from_iter [unfolded mem_get_def]
      List.map_filter_def)

section \<open>Tests of the lookup contract\<close>

definition candidates_list_exact_then_wildcard :: bool where
  "candidates_list_exact_then_wildcard \<longleftrightarrow>
     with_host ''a.example.com'' (\<lambda>host.
       map key_text (cand_keys (candidates_for_hostname host)) = [''a.example.com'', ''*.example.com''])"

lemma candidates_list_exact_then_wildcard_passes: candidates_list_exact_then_wildcard
  by (simp add: candidates_list_exact_then_wildcard_def hosts a_candidates)

definition candidates_for_two_label_name_have_no_wildcard :: bool where
  "candidates_for_two_label_name_have_no_wildcard \<longleftrightarrow>
     with_host ''example.com'' (\<lambda>host.
       let candidates = candidates_for_hostname host
       in length (cand_keys candidates) = 1 \<and> cand_wildcard candidates = None)"

lemma candidates_for_two_label_name_have_no_wildcard_passes: candidates_for_two_label_name_have_no_wildcard
  by (simp add: candidates_for_two_label_name_have_no_wildcard_def hosts wildcards cand_keys_def
      candidates_for_hostname_def)

text \<open>\<open>LookupError::source\<close>: the error it wraps, here its message.\<close>

definition lookup_error_source :: "lookup_error \<Rightarrow> string option" where
  "lookup_error_source e = (case e of LookupError message \<Rightarrow> Some message)"

definition lookup_error_exposes_source :: bool where
  "lookup_error_exposes_source \<longleftrightarrow>
     (let error = LookupError ''db down''
      in lookup_error_display error = ''route lookup failed: db down'' \<and> lookup_error_source error \<noteq> None)"

lemma lookup_error_exposes_source_passes: lookup_error_exposes_source
  by (simp add: lookup_error_exposes_source_def lookup_error_source_def)

end
