(* ===== verification/Cache_Tests.thy ===== *)
theory Cache_Tests
  imports Lookup_Tests Cache_Invariant
begin

text \<open>
  The unit tests of \<open>cache.rs\<close> as propositions about the model, each proved. A test drives the cache
  over a scripted lookup in virtual time, as the paused clock of the test runtime does; what the
  hash behind the jitter is left open.
\<close>

section \<open>The test harness\<close>

text \<open>
  The cache under test, the clock, the running loads with the instant each ends and its outcome,
  what ended loads sent to their waiters, and the recording sink.
\<close>

record cache_test =
  ct_inner :: scripted_lookup
  ct_state :: cache_state
  ct_now :: nat
  ct_loads :: "(nat \<times> nat \<times> route_candidates \<times> load_result timed option) list"
  ct_sent :: "(nat \<times> load_result) list"
  ct_metrics :: recording_metrics

definition ct_cache :: "lookup_behavior \<Rightarrow> cache_test" where
  "ct_cache behavior = \<lparr>ct_inner = scripted_new behavior, ct_state = cache_new, ct_now = 0, ct_loads = [],
     ct_sent = [], ct_metrics = recording_new\<rparr>"

definition ct_record :: "cache_event list \<Rightarrow> cache_test \<Rightarrow> cache_test" where
  "ct_record events t = t\<lparr>ct_metrics := fold (\<lambda>e. recording_record (CacheMetric e)) events (ct_metrics t)\<rparr>"

text \<open>When a load that starts now ends, and how.\<close>

definition ct_task :: "cache_config \<Rightarrow> nat \<Rightarrow> scripted_answer \<Rightarrow> nat \<times> load_result timed option" where
  "ct_task cfg now a =
     (case a of
        AnswersAfter delay r \<Rightarrow>
          if delay \<le> cfg_load_timeout cfg then (now + delay, Some (Done r))
          else (now + cfg_load_timeout cfg, Some Elapsed)
      | NeverAnswers \<Rightarrow> (now + cfg_load_timeout cfg, Some Elapsed)
      | Panics \<Rightarrow> (now, None))"

definition ct_spawn :: "cache_config \<Rightarrow> nat \<Rightarrow> route_candidates \<Rightarrow> cache_test \<Rightarrow> cache_test" where
  "ct_spawn cfg lid c t =
     (case scripted_call c (ct_inner t) of (a, inner) \<Rightarrow>
        case ct_task cfg (ct_now t) a of (due, out) \<Rightarrow>
          t\<lparr>ct_inner := inner, ct_loads := ct_loads t @ [(due, lid, c, out)]\<rparr>)"

definition ct_begin :: "cache_config \<Rightarrow> route_candidates \<Rightarrow> cache_test \<Rightarrow> lookup_step \<times> cache_test" where
  "ct_begin cfg c t =
     (case cached_lookup_begin cfg (ct_now t) c (ct_state t) of (step, st) \<Rightarrow>
        (step,
         case step of
           Answered _ events \<Rightarrow> ct_record events (t\<lparr>ct_state := st\<rparr>)
         | Waiting lid _ event \<Rightarrow>
             ct_record [event]
               (if event = Miss then ct_spawn cfg lid c (t\<lparr>ct_state := st\<rparr>) else t\<lparr>ct_state := st\<rparr>)))"

definition ct_finish ::
    "cache_env \<Rightarrow> cache_config \<Rightarrow> nat \<times> nat \<times> route_candidates \<times> load_result timed option \<Rightarrow>
     cache_test \<Rightarrow> cache_test" where
  "ct_finish env cfg load t =
     (case load of (due, lid, c, out) \<Rightarrow>
        case finish_load env cfg due c lid (load_outcome out) (ct_state t) of
          None \<Rightarrow> t
        | Some (st, events) \<Rightarrow>
            ct_record events (t\<lparr>ct_state := st, ct_sent := (lid, load_outcome out) # ct_sent t\<rparr>))"

text \<open>Virtual time passes up to an instant; the loads due by then end in order.\<close>

definition ct_until :: "cache_env \<Rightarrow> cache_config \<Rightarrow> nat \<Rightarrow> cache_test \<Rightarrow> cache_test" where
  "ct_until env cfg time t =
     fold (ct_finish env cfg) (sort_key fst (filter (\<lambda>load. fst load \<le> time) (ct_loads t)))
       (t\<lparr>ct_loads := filter (\<lambda>load. time < fst load) (ct_loads t), ct_now := max (ct_now t) time\<rparr>)"

definition ct_advance :: "cache_env \<Rightarrow> cache_config \<Rightarrow> nat \<Rightarrow> cache_test \<Rightarrow> cache_test" where
  "ct_advance env cfg d t = ct_until env cfg (ct_now t + d) t"

definition ct_due :: "nat \<Rightarrow> cache_test \<Rightarrow> nat" where
  "ct_due lid t =
     (case find (\<lambda>load. fst (snd load) = lid) (ct_loads t) of Some load \<Rightarrow> fst load | None \<Rightarrow> ct_now t)"

definition ct_end :: "cache_env \<Rightarrow> cache_config \<Rightarrow> lookup_step \<Rightarrow> cache_test \<Rightarrow> load_result \<times> cache_test" where
  "ct_end env cfg step t =
     (case step of
        Answered res _ \<Rightarrow> (res, t)
      | Waiting lid stale _ \<Rightarrow>
          (case ct_until env cfg (ct_due lid t) t of t' \<Rightarrow>
           case cached_lookup_end (map_of (ct_sent t') lid) stale of (res, events) \<Rightarrow>
             (res, ct_record events t')))"

text \<open>\<open>cache.lookup(\&key).await\<close>, alone and under \<open>tokio::time::timeout\<close>.\<close>

definition ct_lookup :: "cache_env \<Rightarrow> cache_config \<Rightarrow> route_candidates \<Rightarrow> cache_test \<Rightarrow> load_result \<times> cache_test" where
  "ct_lookup env cfg c t = (case ct_begin cfg c t of (step, t') \<Rightarrow> ct_end env cfg step t')"

definition ct_lookup_within ::
    "cache_env \<Rightarrow> cache_config \<Rightarrow> nat \<Rightarrow> route_candidates \<Rightarrow> cache_test \<Rightarrow> load_result timed \<times> cache_test" where
  "ct_lookup_within env cfg d c t =
     (case ct_begin cfg c t of (step, t') \<Rightarrow>
        case step of
          Answered res _ \<Rightarrow> (Done res, t')
        | Waiting lid _ _ \<Rightarrow>
            if ct_due lid t' \<le> ct_now t + d
            then (case ct_end env cfg step t' of (res, t'') \<Rightarrow> (Done res, t''))
            else (Elapsed, ct_advance env cfg d t'))"

definition ct_set_behavior :: "lookup_behavior \<Rightarrow> cache_test \<Rightarrow> cache_test" where
  "ct_set_behavior b t = t\<lparr>ct_inner := set_behavior b (ct_inner t)\<rparr>"

definition ct_invalidate :: "route_key \<Rightarrow> cache_test \<Rightarrow> cache_test" where
  "ct_invalidate key t = t\<lparr>ct_state := cache_invalidate key (ct_state t)\<rparr>"

definition ct_clear :: "cache_test \<Rightarrow> cache_test" where
  "ct_clear t = t\<lparr>ct_state := cache_clear (ct_state t)\<rparr>"

definition ct_calls :: "cache_test \<Rightarrow> nat" where "ct_calls t = sl_calls (ct_inner t)"
definition ct_events :: "cache_test \<Rightarrow> cache_event list" where "ct_events t = recording_cache_events (ct_metrics t)"
definition ct_count :: "cache_event \<Rightarrow> cache_test \<Rightarrow> nat" where "ct_count e t = count_cache (ct_metrics t) e"

text \<open>What the tests rely on: instants reach far enough. The hash behind the jitter may be any.\<close>

definition test_env :: "cache_env \<Rightarrow> bool" where
  "test_env env \<longleftrightarrow> cache_secs 1000 \<le> env_instant_max env"

text \<open>Successful lookups in a row, and what holds after them.\<close>

primrec ct_all_ok :: "cache_env \<Rightarrow> cache_config \<Rightarrow> route_candidates list \<Rightarrow> cache_test \<Rightarrow> (cache_test \<Rightarrow> bool) \<Rightarrow> bool" where
  "ct_all_ok env cfg [] t P = P t"
| "ct_all_ok env cfg (c # cs) t P = (case ct_lookup env cfg c t of (r, t') \<Rightarrow> is_ok r \<and> ct_all_ok env cfg cs t' P)"

definition cache_ms :: "nat \<Rightarrow> nat" where "cache_ms n = n * 1000000"

section \<open>The tests' helpers\<close>

definition ROUTES :: "(string \<times> string) list" where
  "ROUTES = [(''a.test'', ''a:1''), (''b.test'', ''b:1''), (''c.test'', ''c:1'')]"

definition with_candidates :: "string \<Rightarrow> (route_candidates \<Rightarrow> bool) \<Rightarrow> bool" where
  "with_candidates name P = with_host name (\<lambda>host. P (candidates_for_hostname host))"

definition with_found :: "(lookup_behavior \<Rightarrow> bool) \<Rightarrow> bool" where
  "with_found P = with_table ROUTES (\<lambda>table. P (Routes table))"

definition no_jitter :: cache_config where
  "no_jitter = cache_config_default\<lparr>cfg_jitter := Finite 0\<rparr>"

abbreviation test_cand :: "string \<Rightarrow> route_candidates" where
  "test_cand name \<equiv> \<lparr>cand_exact = \<lparr>key_text = name, key_wildcard = False\<rparr>, cand_wildcard = None\<rparr>"

definition a_test :: route_candidates where "a_test = test_cand ''a.test''"
definition b_test :: route_candidates where "b_test = test_cand ''b.test''"
definition c_test :: route_candidates where "c_test = test_cand ''c.test''"
definition d_test :: route_candidates where "d_test = test_cand ''d.test''"
definition missing_test :: route_candidates where "missing_test = test_cand ''missing.test''"

lemma with_candidates_eval:
  "with_candidates ''a.test'' P = P a_test"
  "with_candidates ''b.test'' P = P b_test"
  "with_candidates ''c.test'' P = P c_test"
  "with_candidates ''d.test'' P = P d_test"
  "with_candidates ''missing.test'' P = P missing_test"
proof -
  have h: "with_host ''a.test'' P = P (Hostname ''a.test'')" "with_host ''b.test'' P = P (Hostname ''b.test'')"
    "with_host ''c.test'' P = P (Hostname ''c.test'')" "with_host ''d.test'' P = P (Hostname ''d.test'')"
    "with_host ''missing.test'' P = P (Hostname ''missing.test'')" for P
    by (rule with_host_plain; code_simp)+
  have "candidates_for_hostname (Hostname ''a.test'') = a_test"
    "candidates_for_hostname (Hostname ''b.test'') = b_test"
    "candidates_for_hostname (Hostname ''c.test'') = c_test"
    "candidates_for_hostname (Hostname ''d.test'') = d_test"
    "candidates_for_hostname (Hostname ''missing.test'') = missing_test"
    by code_simp+
  with h show "with_candidates ''a.test'' P = P a_test" "with_candidates ''b.test'' P = P b_test"
    "with_candidates ''c.test'' P = P c_test" "with_candidates ''d.test'' P = P d_test"
    "with_candidates ''missing.test'' P = P missing_test"
    by (simp_all add: with_candidates_def)
qed

lemma test_cand_distinct [simp]:
  "a_test \<noteq> b_test" "a_test \<noteq> c_test" "a_test \<noteq> d_test" "a_test \<noteq> missing_test"
  "b_test \<noteq> a_test" "b_test \<noteq> c_test" "b_test \<noteq> d_test" "b_test \<noteq> missing_test"
  "c_test \<noteq> a_test" "c_test \<noteq> b_test" "c_test \<noteq> d_test" "c_test \<noteq> missing_test"
  "d_test \<noteq> a_test" "d_test \<noteq> b_test" "d_test \<noteq> c_test" "d_test \<noteq> missing_test"
  "missing_test \<noteq> a_test" "missing_test \<noteq> b_test" "missing_test \<noteq> c_test" "missing_test \<noteq> d_test"
  by (simp_all add: a_test_def b_test_def c_test_def d_test_def missing_test_def)

definition key_of :: "route_candidates \<Rightarrow> route_key" where "key_of c = cand_exact c"

lemma key_of_inject [simp]:
  "key_of a_test = exact_key ''a.test''" "key_of b_test = exact_key ''b.test''"
  "key_of c_test = exact_key ''c.test''" "key_of d_test = exact_key ''d.test''"
  "key_of missing_test = exact_key ''missing.test''"
  by (simp_all add: key_of_def a_test_def b_test_def c_test_def d_test_def missing_test_def)

lemma test_keys [simp]:
  "cand_keys a_test = [key_of a_test]" "cand_keys b_test = [key_of b_test]" "cand_keys c_test = [key_of c_test]"
  "cand_keys d_test = [key_of d_test]" "cand_keys missing_test = [key_of missing_test]"
  by (simp_all add: key_of_def cand_keys_def a_test_def b_test_def c_test_def d_test_def missing_test_def)

definition routes_mem :: in_memory_lookup where
  "routes_mem = mem_from_iter [(exact_key ''a.test'', named ''a'' 1), (exact_key ''b.test'', named ''b'' 1),
     (exact_key ''c.test'', named ''c'' 1)]"

definition hits_of :: "string \<Rightarrow> string \<Rightarrow> route_hits" where
  "hits_of name host = [(exact_key name, named host 1)]"

lemma routes_rows: "route_table_rows ROUTES = Some [(exact_key ''a.test'', named ''a'' 1),
    (exact_key ''b.test'', named ''b'' 1), (exact_key ''c.test'', named ''c'' 1)]"
proof -
  have "route_table_rows [(''a.test'', ''a:1'')] = Some [(exact_key ''a.test'', named ''a'' 1)]"
    "route_table_rows [(''b.test'', ''b:1'')] = Some [(exact_key ''b.test'', named ''b'' 1)]"
    "route_table_rows [(''c.test'', ''c:1'')] = Some [(exact_key ''c.test'', named ''c'' 1)]"
    by (rule plain_row; (simp add: show_ports; fail)?; code_simp)+
  then show ?thesis by (auto simp: ROUTES_def route_table_rows.simps split: result.splits)
qed

lemma with_found_eval: "with_found P = P (Routes routes_mem)"
  "with_table ROUTES Q = Q routes_mem"
  by (simp_all add: with_found_def with_table_def route_table_def routes_rows routes_mem_def)

lemma routes_hits [simp]:
  "mem_hits routes_mem a_test = hits_of ''a.test'' ''a''"
  "mem_hits routes_mem b_test = hits_of ''b.test'' ''b''"
  "mem_hits routes_mem c_test = hits_of ''c.test'' ''c''"
  "mem_hits routes_mem d_test = []"
  "mem_hits routes_mem missing_test = []"
  by (simp_all add: mem_hits_def routes_mem_def mem_get_from_iter [unfolded mem_get_def] List.map_filter_def
      hits_of_def)

lemma hits_of_simps [simp]: "hits_of name host \<noteq> []" "hits_len (hits_of name host) = 1" "hits_is_empty (hits_of name host) = False"
  by (simp_all add: hits_of_def hits_len_def hits_is_empty_def)

lemma jitter_none: "jittered hash_one 30000000000 (Finite 0) lid = 30000000000"
  using jittered_none [of 30 hash_one lid] by simp

text \<open>The literal \<open>0.1\<close> is a little more than one tenth.\<close>

lemma default_jitter:
  obtains j where "f64_norm (1 / 10) = Finite j" "f64_clamp01 (Finite j) = Finite j" "\<bar>j - 1 / 10\<bar> \<le> 1 / 10 ^ 15"
proof -
  have near: "\<bar>f64_round (1 / 10) - 1 / 10\<bar> \<le> 1 / 10 ^ 15"
  proof -
    have "f64_eps * (1 / 10) + f64_tiny \<le> f64_eps" using f64_eps_values by simp
    also have "\<dots> \<le> 1 / 10 ^ 15" by (simp add: f64_eps_def)
    finally show ?thesis using f64_round_error [of "1 / 10"] by simp
  qed
  have "f64_norm (1 / 10) = Finite (f64_round (1 / 10))" by (rule f64_norm_finite) simp
  moreover have "0 \<le> f64_round (1 / 10)" "f64_round (1 / 10) \<le> 1" using near unfolding abs_le_iff by simp_all
  ultimately show thesis using that near by simp
qed

lemma default_lifetime:
  assumes "ttl < DURATION_END"
  shows "899999 * ttl \<le> 1000000 * (jittered hash_one ttl (f64_norm (1 / 10)) lid + 1) \<and>
    1000000 * jittered hash_one ttl (f64_norm (1 / 10)) lid \<le> 1100001 * ttl + 1000000"
proof -
  obtain j where j: "f64_norm (1 / 10) = Finite j" "f64_clamp01 (Finite j) = Finite j" "\<bar>j - 1 / 10\<bar> \<le> 1 / 10 ^ 15"
    by (rule default_jitter)
  let ?d = "rat_of_nat (jittered hash_one ttl (f64_norm (1 / 10)) lid)" and ?t = "rat_of_nat ttl"
  have d: "(1 - j) * ?t - (?t / 2 ^ 48 + 1) \<le> ?d" "?d \<le> (1 + j) * ?t + (?t / 2 ^ 48 + 1)"
    using jittered_within [OF assms j(2), of hash_one lid] unfolding j(1) by simp_all
  have "899999 / 1000000 + 1 / 2 ^ 48 \<le> 1 - j" "1 + j + 1 / 2 ^ 48 \<le> 1100001 / 1000000"
    using j(3) unfolding abs_le_iff by simp_all
  from mult_right_mono [OF this(1), of ?t] mult_right_mono [OF this(2), of ?t] d
  have "899999 * ?t \<le> 1000000 * (?d + 1)" "1000000 * ?d \<le> 1100001 * ?t + 1000000"
    by (simp_all add: algebra_simps)
  then have "of_nat (899999 * ttl) \<le> rat_of_nat (1000000 * (jittered hash_one ttl (f64_norm (1 / 10)) lid + 1))"
    "of_nat (1000000 * jittered hash_one ttl (f64_norm (1 / 10)) lid) \<le> rat_of_nat (1100001 * ttl + 1000000)"
    by simp_all
  then show ?thesis unfolding of_nat_le_iff by simp
qed

lemma later_near: "test_env env \<Longrightarrow> now + d \<le> 1000000000000 \<Longrightarrow> later env now d = now + d"
  by (simp add: test_env_def later_def cache_secs_def)

text \<open>The continuation of a step is looked at only when the step has been evaluated.\<close>

lemma with_cong [cong]:
  "with_candidates name P = with_candidates name P" "with_found Q = with_found Q"
  "with_table routes R = with_table routes R"
  by (rule refl)+

lemma ct_all_ok_cong [cong]: "t = t' \<Longrightarrow> ct_all_ok env cfg cs t P = ct_all_ok env cfg cs t' P"
  by simp

declare let_weak_cong [cong]

lemmas config_eval = no_jitter_def cache_config_default_def cache_secs_def cache_ms_def

lemmas ct_eval = ct_cache_def ct_record_def ct_task_def ct_spawn_def ct_begin_def ct_finish_def ct_until_def
  ct_advance_def ct_due_def ct_end_def ct_lookup_def ct_lookup_within_def ct_set_behavior_def ct_invalidate_def
  ct_clear_def ct_calls_def ct_events_def ct_count_def scripted_new_def scripted_call_def set_behavior_def
  recording_new_def recording_record_def recording_cache_events_def count_cache_def List.map_filter_def

lemmas cache_eval = cache_new_def cached_lookup_begin_def join_or_load_def start_load_def take_id_def
  finish_load_def load_outcome_def cached_lookup_end_def cache_insert_def make_room_def index_add_def index_get_def
  is_live_def remove_entry_def index_remove_def dead_entries_def evict_loop.simps cache_invalidate_def cache_clear_def
  cache_len_def cache_is_empty_def shed_def Let_def

lemmas ct_test_eval = with_found_eval with_candidates_eval config_eval ct_eval cache_eval jitter_none later_near

section \<open>Expiry\<close>

definition second_lookup_is_served_from_cache :: "cache_env \<Rightarrow> bool" where
  "second_lookup_is_served_from_cache env \<longleftrightarrow>
     with_found (\<lambda>found. with_candidates ''a.test'' (\<lambda>key.
       case ct_lookup env no_jitter key (ct_cache found) of (r1, t1) \<Rightarrow>
       case ct_lookup env no_jitter key t1 of (r2, t2) \<Rightarrow>
         map_ok hits_len r1 = Ok 1 \<and> map_ok hits_len r2 = Ok 1 \<and> ct_calls t2 = 1 \<and>
         ct_events t2 = [Miss, Hit]))"

lemma second_lookup_is_served_from_cache_passes: "test_env env \<Longrightarrow> second_lookup_is_served_from_cache env"
  by (simp add: second_lookup_is_served_from_cache_def ct_test_eval)

definition entries_expire_after_ttl :: "cache_env \<Rightarrow> bool" where
  "entries_expire_after_ttl env \<longleftrightarrow>
     with_found (\<lambda>found. with_candidates ''a.test'' (\<lambda>key.
       ct_all_ok env no_jitter [key] (ct_cache found) (\<lambda>t.
       ct_all_ok env no_jitter [key] (ct_advance env no_jitter (cache_secs 29) t) (\<lambda>t.
         ct_calls t = 1 \<and>
         ct_all_ok env no_jitter [key] (ct_advance env no_jitter (cache_secs 2) t) (\<lambda>t. ct_calls t = 2)))))"

lemma entries_expire_after_ttl_passes: "test_env env \<Longrightarrow> entries_expire_after_ttl env"
  by (simp add: entries_expire_after_ttl_def ct_test_eval)

definition misses_are_cached_for_negative_ttl :: "cache_env \<Rightarrow> bool" where
  "misses_are_cached_for_negative_ttl env \<longleftrightarrow>
     with_found (\<lambda>found. with_candidates ''missing.test'' (\<lambda>key.
       case ct_lookup env no_jitter key (ct_cache found) of (r1, t1) \<Rightarrow>
       case ct_lookup env no_jitter key t1 of (r2, t2) \<Rightarrow>
         map_ok hits_is_empty r1 = Ok True \<and> map_ok hits_is_empty r2 = Ok True \<and> ct_calls t2 = 1 \<and>
         ct_count NegativeHit t2 = 1 \<and>
         ct_all_ok env no_jitter [key] (ct_advance env no_jitter (cache_secs 6) t2) (\<lambda>t. ct_calls t = 2)))"

lemma misses_are_cached_for_negative_ttl_passes: "test_env env \<Longrightarrow> misses_are_cached_for_negative_ttl env"
  by (simp add: misses_are_cached_for_negative_ttl_def ct_test_eval hits_is_empty_def)

definition errors_are_not_cached :: "cache_env \<Rightarrow> bool" where
  "errors_are_not_cached env \<longleftrightarrow>
     with_candidates ''a.test'' (\<lambda>key.
       case ct_lookup env no_jitter key (ct_cache (Fail ''down'')) of (r1, t1) \<Rightarrow>
       case ct_lookup env no_jitter key t1 of (r2, t2) \<Rightarrow>
         \<not> is_ok r1 \<and> \<not> is_ok r2 \<and> ct_calls t2 = 2 \<and> ct_count LoadErrorEvent t2 = 2 \<and>
         cache_is_empty (ct_state t2))"

lemma errors_are_not_cached_passes: "test_env env \<Longrightarrow> errors_are_not_cached env"
  by (simp add: errors_are_not_cached_def ct_test_eval)

text \<open>With the default jitter the entry expires between nine and eleven tenths of the TTL.\<close>

definition jitter_keeps_ttl_within_bounds :: "cache_env \<Rightarrow> bool" where
  "jitter_keeps_ttl_within_bounds env \<longleftrightarrow>
     with_found (\<lambda>found. with_candidates ''a.test'' (\<lambda>key.
       ct_all_ok env cache_config_default [key] (ct_cache found) (\<lambda>t.
       ct_all_ok env cache_config_default [key] (ct_advance env cache_config_default (cache_ms 26900) t) (\<lambda>t.
         ct_calls t = 1 \<and>
         ct_all_ok env cache_config_default [key] (ct_advance env cache_config_default (cache_ms 6200) t) (\<lambda>t.
           ct_calls t = 2)))))"

lemma jitter_keeps_ttl_within_bounds_passes:
  assumes env: "test_env env"
  shows "jitter_keeps_ttl_within_bounds env"
proof -
  define ttl where "ttl = jittered (env_hash env) 30000000000 (f64_norm (1 / 10)) (Suc 0)"
  have "30000000000 < DURATION_END" by (simp add: DURATION_END_def)
  from default_lifetime [OF this, of "env_hash env" "Suc 0", folded ttl_def]
  have b: "26999900000 \<le> ttl" "ttl \<le> 33000100000" by auto
  then have "later env 0 ttl = ttl" "later env ttl 0 = ttl" using env by (simp_all add: later_near)
  with b env show ?thesis
    by (simp add: jitter_keeps_ttl_within_bounds_def ct_test_eval ttl_def [symmetric])
qed

definition huge_duration :: nat where
  "huge_duration = (2 ^ 64 - 1) * 1000000000 + 999999999"

definition huge_ttls_do_not_panic :: "cache_env \<Rightarrow> bool" where
  "huge_ttls_do_not_panic env \<longleftrightarrow>
     with_found (\<lambda>found. with_candidates ''a.test'' (\<lambda>a. with_candidates ''missing.test'' (\<lambda>missing.
       let cfg = no_jitter\<lparr>cfg_ttl := huge_duration, cfg_negative_ttl := huge_duration,
             cfg_stale_if_error := Some huge_duration, cfg_jitter := cfg_jitter cache_config_default\<rparr>
       in ct_all_ok env cfg [a, missing, a] (ct_cache found) (\<lambda>t. ct_calls t = 2))))"

lemma later_after: "0 < d \<Longrightarrow> now < later env now d"
  by (simp add: later_def HUNDRED_YEARS_def)

lemma huge_ttls_do_not_panic_passes:
  assumes env: "test_env env"
  shows "huge_ttls_do_not_panic env"
proof -
  have huge: "0 < huge_duration" "2 < huge_duration" by (simp_all add: huge_duration_def)
  have "0 < jittered (env_hash env) huge_duration (f64_norm (1 / 10)) lid" for lid
  proof -
    have "huge_duration < DURATION_END" by (simp add: huge_duration_def DURATION_END_def)
    from default_lifetime [OF this, of "env_hash env" lid] huge show ?thesis by auto
  qed
  with env huge show ?thesis
    by (simp add: huge_ttls_do_not_panic_def with_found_eval with_candidates_eval config_eval ct_eval cache_eval
        later_after)
qed

section \<open>Shared loads\<close>

text \<open>Waiters that begin one after the other, and are then awaited in turn.\<close>

primrec ct_begin_all :: "cache_config \<Rightarrow> nat \<Rightarrow> route_candidates \<Rightarrow> cache_test \<Rightarrow> lookup_step list \<times> cache_test" where
  "ct_begin_all cfg 0 c t = ([], t)"
| "ct_begin_all cfg (Suc n) c t =
     (case ct_begin cfg c t of (step, t') \<Rightarrow>
        case ct_begin_all cfg n c t' of (steps, t'') \<Rightarrow> (step # steps, t''))"

primrec ct_end_all :: "cache_env \<Rightarrow> cache_config \<Rightarrow> lookup_step list \<Rightarrow> cache_test \<Rightarrow> load_result list \<times> cache_test" where
  "ct_end_all env cfg [] t = ([], t)"
| "ct_end_all env cfg (step # steps) t =
     (case ct_end env cfg step t of (r, t') \<Rightarrow>
        case ct_end_all env cfg steps t' of (rs, t'') \<Rightarrow> (r # rs, t''))"

lemma ct_begin_all_coalesce:
  assumes "map_of (cs_entries (ct_state t)) c = None" "map_of (cs_inflight (ct_state t)) c = Some lid"
  shows "ct_begin_all cfg n c t = (replicate n (Waiting lid None Coalesced), ct_record (replicate n Coalesced) t)"
  using assms
proof (induction n arbitrary: t)
  case 0
  then show ?case by (simp add: ct_record_def)
next
  case (Suc n)
  have "ct_begin cfg c t = (Waiting lid None Coalesced, ct_record [Coalesced] t)"
    using Suc.prems by (simp add: ct_begin_def cached_lookup_begin_def join_or_load_def)
  moreover have "ct_begin_all cfg n c (ct_record [Coalesced] t) =
      (replicate n (Waiting lid None Coalesced), ct_record (replicate n Coalesced) (ct_record [Coalesced] t))"
    by (rule Suc.IH) (use Suc.prems in \<open>simp_all add: ct_record_def\<close>)
  ultimately show ?case by (simp add: ct_record_def)
qed

lemma ct_until_now: "ct_loads t = [] \<Longrightarrow> ct_until env cfg (ct_now t) t = t"
  by (cases t) (simp add: ct_until_def)

lemma ct_end_all_sent:
  assumes "ct_loads t = []" "map_of (ct_sent t) lid = Some (Ok hits)"
  shows "ct_end_all env cfg (replicate n (Waiting lid None Coalesced)) t = (replicate n (Ok hits), t)"
  using assms
  by (induction n) (simp_all add: ct_end_def ct_until_now ct_due_def cached_lookup_end_def ct_record_def)

definition concurrent_misses_share_one_load :: "cache_env \<Rightarrow> bool" where
  "concurrent_misses_share_one_load env \<longleftrightarrow>
     with_table ROUTES (\<lambda>routes. with_candidates ''a.test'' (\<lambda>key.
       case ct_begin_all no_jitter 100 key (ct_cache (Delayed (cache_ms 100) routes)) of (waiters, t) \<Rightarrow>
       case ct_end_all env no_jitter waiters t of (results, t) \<Rightarrow>
         list_all (\<lambda>r. map_ok hits_len r = Ok 1) results \<and> length results = 100 \<and>
         ct_calls t = 1 \<and> ct_count Miss t = 1 \<and> ct_count Coalesced t = 99))"

lemma ct_count_record: "ct_count e (ct_record events t) = ct_count e t + length (filter (\<lambda>x. x = e) events)"
proof (induction events arbitrary: t)
  case Nil
  then show ?case by (simp add: ct_record_def)
next
  case (Cons a events)
  have "ct_record (a # events) t = ct_record events (ct_record [a] t)" by (simp add: ct_record_def)
  moreover have "ct_count e (ct_record [a] t) = ct_count e t + (if a = e then 1 else 0)"
    by (simp add: ct_record_def ct_count_def count_cache_def recording_cache_events_def recording_record_def
        List.map_filter_def)
  ultimately show ?case by (simp add: Cons)
qed

lemma concurrent_misses_share_one_load_passes:
  assumes env: "test_env env"
  shows "concurrent_misses_share_one_load env"
proof -
  define t0 where "t0 = ct_cache (Delayed (cache_ms 100) routes_mem)"
  obtain t1 where t1: "ct_begin no_jitter a_test t0 = (Waiting 0 None Miss, t1)"
    "map_of (cs_entries (ct_state t1)) a_test = None" "map_of (cs_inflight (ct_state t1)) a_test = Some 0"
    "ct_loads t1 = [(100000000, 0, a_test, Some (Done (Ok (hits_of ''a.test'' ''a''))))]"
    "ct_calls t1 = 1" "ct_count Miss t1 = 1" "ct_count Coalesced t1 = 0" "cs_running_loads (ct_state t1) = 1"
    "ct_now t1 = 0"
    by (simp add: t0_def ct_test_eval)
  define t2 where "t2 = ct_record (replicate 99 Coalesced) t1"
  have b: "ct_begin_all no_jitter (Suc 99) a_test t0 = (Waiting 0 None Miss # replicate 99 (Waiting 0 None Coalesced), t2)"
    using ct_begin_all_coalesce [OF t1(2,3), of no_jitter 99]
    by (simp only: ct_begin_all.simps t1(1) prod.case t2_def)
  have t2: "ct_loads t2 = ct_loads t1" "ct_state t2 = ct_state t1" "ct_now t2 = ct_now t1" "ct_calls t2 = 1"
    by (simp_all add: t2_def ct_record_def ct_calls_def t1(5) [unfolded ct_calls_def])
  obtain t3 where t3: "ct_end env no_jitter (Waiting 0 None Miss) t2 = (Ok (hits_of ''a.test'' ''a''), t3)"
    "ct_loads t3 = []" "map_of (ct_sent t3) 0 = Some (Ok (hits_of ''a.test'' ''a''))"
    "ct_calls t3 = 1" "ct_metrics t3 = ct_metrics t2"
    using t2(4) t1(4,8,9)
    by (simp add: ct_end_def ct_due_def ct_until_def t2 ct_finish_def finish_load_def load_outcome_def Let_def
        ct_record_def cached_lookup_end_def ct_calls_def)
  have e: "ct_end_all env no_jitter (Waiting 0 None Miss # replicate 99 (Waiting 0 None Coalesced)) t2 =
      (replicate (Suc 99) (Ok (hits_of ''a.test'' ''a'')), t3)"
    using ct_end_all_sent [OF t3(2,3), of env no_jitter 99]
    by (simp only: ct_end_all.simps t3(1) prod.case replicate_Suc)
  have "ct_count Miss t3 = 1" "ct_count Coalesced t3 = 99"
    using t1(6,7) t3(5) ct_count_record [of _ "replicate 99 Coalesced" t1]
    by (simp_all add: ct_count_def t2_def)
  then show ?thesis
    using b e t3(4) by (simp add: concurrent_misses_share_one_load_def with_found_eval with_candidates_eval t0_def
        list_all_iff)
qed

definition slow_routes :: "in_memory_lookup \<Rightarrow> cache_test" where
  "slow_routes routes = ct_cache (Delayed (cache_ms 100) routes)"

definition cancelled_first_caller_does_not_cancel_the_load :: "cache_env \<Rightarrow> bool" where
  "cancelled_first_caller_does_not_cancel_the_load env \<longleftrightarrow>
     with_table ROUTES (\<lambda>routes. with_candidates ''a.test'' (\<lambda>key.
       case ct_lookup_within env no_jitter (cache_ms 10) key (slow_routes routes) of (r1, t1) \<Rightarrow>
       case ct_lookup env no_jitter key t1 of (r2, t2) \<Rightarrow>
         r1 = Elapsed \<and> map_ok hits_len r2 = Ok 1 \<and> ct_calls t2 = 1))"

lemma cancelled_first_caller_does_not_cancel_the_load_passes:
  "test_env env \<Longrightarrow> cancelled_first_caller_does_not_cancel_the_load env"
  by (simp add: cancelled_first_caller_does_not_cancel_the_load_def slow_routes_def ct_test_eval)

definition load_completes_and_caches_with_no_waiters_left :: "cache_env \<Rightarrow> bool" where
  "load_completes_and_caches_with_no_waiters_left env \<longleftrightarrow>
     with_table ROUTES (\<lambda>routes. with_candidates ''a.test'' (\<lambda>key.
       case ct_lookup_within env no_jitter (cache_ms 10) key (slow_routes routes) of (_, t1) \<Rightarrow>
         ct_all_ok env no_jitter [key] (ct_advance env no_jitter (cache_ms 200) t1) (\<lambda>t.
           ct_calls t = 1 \<and> ct_events t \<noteq> [] \<and> List.last (ct_events t) = Hit)))"

lemma load_completes_and_caches_with_no_waiters_left_passes:
  "test_env env \<Longrightarrow> load_completes_and_caches_with_no_waiters_left env"
  by (simp add: load_completes_and_caches_with_no_waiters_left_def slow_routes_def ct_test_eval)

definition panicking_load_wakes_waiters_and_next_lookup_starts_fresh :: "cache_env \<Rightarrow> bool" where
  "panicking_load_wakes_waiters_and_next_lookup_starts_fresh env \<longleftrightarrow>
     with_found (\<lambda>found. with_candidates ''a.test'' (\<lambda>key.
       case ct_lookup env no_jitter key (ct_cache Panic) of (r1, t1) \<Rightarrow>
       case ct_lookup env no_jitter key (ct_set_behavior found t1) of (r2, t2) \<Rightarrow>
         \<not> is_ok r1 \<and> map_ok hits_len r2 = Ok 1 \<and> ct_calls t2 = 2))"

lemma panicking_load_wakes_waiters_and_next_lookup_starts_fresh_passes:
  "test_env env \<Longrightarrow> panicking_load_wakes_waiters_and_next_lookup_starts_fresh env"
  by (simp add: panicking_load_wakes_waiters_and_next_lookup_starts_fresh_def ct_test_eval)

definition hung_load_is_abandoned_after_load_timeout :: "cache_env \<Rightarrow> bool" where
  "hung_load_is_abandoned_after_load_timeout env \<longleftrightarrow>
     with_found (\<lambda>found. with_candidates ''a.test'' (\<lambda>key.
       let cfg = no_jitter\<lparr>cfg_load_timeout := cache_secs 1\<rparr>
       in case ct_lookup_within env cfg (cache_ms 100) key (ct_cache Hang) of (_, t1) \<Rightarrow>
          case ct_advance env cfg (cache_secs 2) t1 of t2 \<Rightarrow>
          case ct_lookup env cfg key (ct_set_behavior found t2) of (r, t3) \<Rightarrow>
            ct_count LoadErrorEvent t2 = 1 \<and> map_ok hits_len r = Ok 1 \<and> ct_calls t3 = 2))"

lemma hung_load_is_abandoned_after_load_timeout_passes:
  "test_env env \<Longrightarrow> hung_load_is_abandoned_after_load_timeout env"
  by (simp add: hung_load_is_abandoned_after_load_timeout_def ct_test_eval)

section \<open>Saturation and stale answers\<close>

definition saturated_loads_fail_closed_without_starting_more :: "cache_env \<Rightarrow> bool" where
  "saturated_loads_fail_closed_without_starting_more env \<longleftrightarrow>
     with_found (\<lambda>found. with_candidates ''a.test'' (\<lambda>a. with_candidates ''b.test'' (\<lambda>b.
     with_candidates ''c.test'' (\<lambda>c. with_candidates ''d.test'' (\<lambda>d.
       let cfg = no_jitter\<lparr>cfg_max_inflight_loads := 2, cfg_load_timeout := cache_secs 5\<rparr>
       in case ct_lookup_within env cfg (cache_ms 10) a (ct_cache Hang) of (_, t) \<Rightarrow>
          case ct_lookup_within env cfg (cache_ms 10) b t of (_, t) \<Rightarrow>
          case ct_lookup_within env cfg (cache_ms 10) c t of (_, t) \<Rightarrow>
          case ct_lookup_within env cfg (cache_ms 10) d t of (_, t1) \<Rightarrow>
          case ct_lookup env cfg c (ct_set_behavior found (ct_advance env cfg (cache_secs 6) t1)) of (r, _) \<Rightarrow>
            ct_calls t1 = 2 \<and> ct_count Shed t1 = 2 \<and> map_ok hits_len r = Ok 1)))))"

lemma saturated_loads_fail_closed_without_starting_more_passes:
  "test_env env \<Longrightarrow> saturated_loads_fail_closed_without_starting_more env"
  by (simp add: saturated_loads_fail_closed_without_starting_more_def ct_test_eval)

definition saturated_loads_serve_stale_when_allowed :: "cache_env \<Rightarrow> bool" where
  "saturated_loads_serve_stale_when_allowed env \<longleftrightarrow>
     with_found (\<lambda>found. with_candidates ''a.test'' (\<lambda>a. with_candidates ''b.test'' (\<lambda>b.
       let cfg = no_jitter\<lparr>cfg_max_inflight_loads := 1, cfg_stale_if_error := Some (cache_secs 60)\<rparr>
       in ct_all_ok env cfg [a] (ct_cache found) (\<lambda>t.
          case ct_lookup_within env cfg (cache_ms 10) b (ct_set_behavior Hang (ct_advance env cfg (cache_secs 31) t)) of
            (_, t1) \<Rightarrow>
          case ct_lookup env cfg a t1 of (r, t2) \<Rightarrow>
            map_ok hits_len r = Ok 1 \<and> ct_count StaleServed t2 = 1))))"

lemma saturated_loads_serve_stale_when_allowed_passes:
  "test_env env \<Longrightarrow> saturated_loads_serve_stale_when_allowed env"
  by (simp add: saturated_loads_serve_stale_when_allowed_def ct_test_eval)

definition stale_entry_is_served_when_reload_fails_within_window :: "cache_env \<Rightarrow> bool" where
  "stale_entry_is_served_when_reload_fails_within_window env \<longleftrightarrow>
     with_found (\<lambda>found. with_candidates ''a.test'' (\<lambda>key.
       let cfg = no_jitter\<lparr>cfg_stale_if_error := Some (cache_secs 10)\<rparr>
       in ct_all_ok env cfg [key] (ct_cache found) (\<lambda>t.
          case ct_lookup env cfg key (ct_advance env cfg (cache_secs 31) (ct_set_behavior (Fail ''down'') t)) of
            (r1, t1) \<Rightarrow>
          case ct_lookup env cfg key (ct_advance env cfg (cache_secs 10) t1) of (r2, t2) \<Rightarrow>
            map_ok hits_len r1 = Ok 1 \<and> ct_count StaleServed t1 = 1 \<and> \<not> is_ok r2)))"

lemma stale_entry_is_served_when_reload_fails_within_window_passes:
  "test_env env \<Longrightarrow> stale_entry_is_served_when_reload_fails_within_window env"
  by (simp add: stale_entry_is_served_when_reload_fails_within_window_def ct_test_eval)

definition stale_is_not_served_by_default :: "cache_env \<Rightarrow> bool" where
  "stale_is_not_served_by_default env \<longleftrightarrow>
     with_found (\<lambda>found. with_candidates ''a.test'' (\<lambda>key.
       ct_all_ok env no_jitter [key] (ct_cache found) (\<lambda>t.
         case ct_lookup env no_jitter key
             (ct_advance env no_jitter (cache_secs 31) (ct_set_behavior (Fail ''down'') t)) of
           (r, _) \<Rightarrow> \<not> is_ok r)))"

lemma stale_is_not_served_by_default_passes: "test_env env \<Longrightarrow> stale_is_not_served_by_default env"
  by (simp add: stale_is_not_served_by_default_def ct_test_eval)

section \<open>Eviction\<close>

definition full_cache_evicts_oldest_first :: "cache_env \<Rightarrow> bool" where
  "full_cache_evicts_oldest_first env \<longleftrightarrow>
     with_found (\<lambda>found. with_candidates ''a.test'' (\<lambda>a. with_candidates ''b.test'' (\<lambda>b. with_candidates ''c.test'' (\<lambda>c.
       let cfg = no_jitter\<lparr>cfg_max_entries := 2\<rparr>
       in ct_all_ok env cfg [a, b, c] (ct_cache found) (\<lambda>t. cache_len (ct_state t) = 2 \<and>
          ct_all_ok env cfg [c, b] t (\<lambda>t. ct_calls t = 3 \<and>
          ct_all_ok env cfg [a] t (\<lambda>t. ct_calls t = 4)))))))"

lemma full_cache_evicts_oldest_first_passes: "test_env env \<Longrightarrow> full_cache_evicts_oldest_first env"
  by (simp add: full_cache_evicts_oldest_first_def ct_test_eval)

definition full_cache_purges_expired_before_evicting_live :: "cache_env \<Rightarrow> bool" where
  "full_cache_purges_expired_before_evicting_live env \<longleftrightarrow>
     with_found (\<lambda>found. with_candidates ''a.test'' (\<lambda>a. with_candidates ''b.test'' (\<lambda>b.
     with_candidates ''missing.test'' (\<lambda>missing.
       let cfg = no_jitter\<lparr>cfg_max_entries := 2\<rparr>
       in ct_all_ok env cfg [missing, a] (ct_cache found) (\<lambda>t.
          ct_all_ok env cfg [b, a] (ct_advance env cfg (cache_secs 6) t) (\<lambda>t. ct_calls t = 3))))))"

lemma full_cache_purges_expired_before_evicting_live_passes:
  "test_env env \<Longrightarrow> full_cache_purges_expired_before_evicting_live env"
  by (simp add: full_cache_purges_expired_before_evicting_live_def ct_test_eval)

section \<open>Invalidation\<close>

text \<open>\<open>RouteKey::parse(key).unwrap()\<close>, and the first hit's backend as the test prints it.\<close>

definition with_key :: "string \<Rightarrow> (route_key \<Rightarrow> bool) \<Rightarrow> bool" where
  "with_key key P = (case route_key_parse key of Ok k \<Rightarrow> P k | Err _ \<Rightarrow> False)"

definition first_backend :: "load_result \<Rightarrow> string option" where
  "first_backend r = (case r of Ok ((_, b) # _) \<Rightarrow> Some (backend_display b) | _ \<Rightarrow> None)"

lemma with_key_cong [cong]: "with_key key P = with_key key P"
  by (rule refl)

lemma with_key_eval: "with_key ''a.test'' P = P (exact_key ''a.test'')"
proof -
  have "route_key_parse ''a.test'' = Ok (exact_key ''a.test'')" by (rule exact_parses; code_simp)
  then show ?thesis by (simp add: with_key_def)
qed

definition lookup_after_invalidate_does_not_join_older_load :: "cache_env \<Rightarrow> bool" where
  "lookup_after_invalidate_does_not_join_older_load env \<longleftrightarrow>
     with_table [(''a.test'', ''old:1'')] (\<lambda>old_routes. with_table [(''a.test'', ''new:1'')] (\<lambda>new_routes.
     with_candidates ''a.test'' (\<lambda>key. with_key ''a.test'' (\<lambda>k.
       case ct_begin no_jitter key (slow_routes old_routes) of (before, t) \<Rightarrow>
       case ct_invalidate k (ct_set_behavior (Delayed (cache_ms 100) new_routes)
           (ct_advance env no_jitter (cache_ms 10) t)) of t \<Rightarrow>
       case ct_lookup env no_jitter key t of (after, t) \<Rightarrow>
       case ct_end env no_jitter before t of (old, t1) \<Rightarrow>
       case ct_lookup env no_jitter key t1 of (cached, _) \<Rightarrow>
         first_backend after = Some ''new:1'' \<and> first_backend old = Some ''old:1'' \<and> ct_calls t1 = 2 \<and>
         first_backend cached = Some ''new:1''))))"

definition one_route :: "string \<Rightarrow> in_memory_lookup" where
  "one_route host = mem_from_iter [(exact_key ''a.test'', named host 1)]"

lemma one_route_hits [simp]: "mem_hits (one_route host) a_test = hits_of ''a.test'' host"
  by (simp add: mem_hits_def one_route_def mem_get_from_iter [unfolded mem_get_def] List.map_filter_def hits_of_def)

lemma one_route_tables:
  "with_table [(''a.test'', ''old:1'')] P = P (one_route ''old'')"
  "with_table [(''a.test'', ''new:1'')] P = P (one_route ''new'')"
proof -
  have "route_table_rows [(''a.test'', ''old:1'')] = Some [(exact_key ''a.test'', named ''old'' 1)]"
    "route_table_rows [(''a.test'', ''new:1'')] = Some [(exact_key ''a.test'', named ''new'' 1)]"
    by (rule plain_row; (simp add: show_ports; fail)?; code_simp)+
  then show "with_table [(''a.test'', ''old:1'')] P = P (one_route ''old'')"
    "with_table [(''a.test'', ''new:1'')] P = P (one_route ''new'')"
    by (simp_all add: with_table_def route_table_def one_route_def)
qed

lemma first_backend_hits: "first_backend (Ok (hits_of name host)) = Some (host @ '':1'')"
  by (simp add: first_backend_def hits_of_def backend_display_def show_ports)

lemma lookup_after_invalidate_does_not_join_older_load_passes:
  "test_env env \<Longrightarrow> lookup_after_invalidate_does_not_join_older_load env"
  by (simp add: lookup_after_invalidate_does_not_join_older_load_def slow_routes_def one_route_tables with_key_eval
      ct_test_eval first_backend_hits)

definition invalidating_one_key_still_caches_unrelated_loads :: "cache_env \<Rightarrow> bool" where
  "invalidating_one_key_still_caches_unrelated_loads env \<longleftrightarrow>
     with_table ROUTES (\<lambda>routes. with_candidates ''b.test'' (\<lambda>b. with_key ''a.test'' (\<lambda>k.
       case ct_begin no_jitter b (slow_routes routes) of (loading, t) \<Rightarrow>
       case ct_end env no_jitter loading (ct_invalidate k (ct_advance env no_jitter (cache_ms 10) t)) of (r, t) \<Rightarrow>
         is_ok r \<and> ct_all_ok env no_jitter [b] t (\<lambda>t. ct_calls t = 1))))"

lemma invalidating_one_key_still_caches_unrelated_loads_passes:
  "test_env env \<Longrightarrow> invalidating_one_key_still_caches_unrelated_loads env"
  by (simp add: invalidating_one_key_still_caches_unrelated_loads_def slow_routes_def with_key_eval ct_test_eval)

definition load_started_before_invalidation_is_not_cached :: "cache_env \<Rightarrow> bool" where
  "load_started_before_invalidation_is_not_cached env \<longleftrightarrow>
     with_table ROUTES (\<lambda>routes. with_candidates ''a.test'' (\<lambda>key.
       case ct_begin no_jitter key (slow_routes routes) of (first, t) \<Rightarrow>
       case ct_end env no_jitter first (ct_clear (ct_advance env no_jitter (cache_ms 10) t)) of (r, t) \<Rightarrow>
         is_ok r \<and> ct_all_ok env no_jitter [key] t (\<lambda>t. ct_calls t = 2)))"

lemma load_started_before_invalidation_is_not_cached_passes:
  "test_env env \<Longrightarrow> load_started_before_invalidation_is_not_cached env"
  by (simp add: load_started_before_invalidation_is_not_cached_def slow_routes_def ct_test_eval)

section \<open>Wildcard candidates and the index\<close>

abbreviation test_cand_under :: "string \<Rightarrow> string \<Rightarrow> route_candidates" where
  "test_cand_under name parent \<equiv> \<lparr>cand_exact = exact_key name, cand_wildcard = Some (wild_key parent)\<rparr>"

definition x_a_test :: route_candidates where "x_a_test = test_cand_under ''x.a.test'' ''*.a.test''"
definition x_w_test :: route_candidates where "x_w_test = test_cand_under ''x.w.test'' ''*.w.test''"
definition y_w_test :: route_candidates where "y_w_test = test_cand_under ''y.w.test'' ''*.w.test''"
definition z_w_test :: route_candidates where "z_w_test = test_cand_under ''z.w.test'' ''*.w.test''"

lemmas wild_cand_defs = x_a_test_def x_w_test_def y_w_test_def z_w_test_def a_test_def b_test_def missing_test_def

lemma wild_candidates_eval:
  "with_candidates ''x.a.test'' P = P x_a_test"
  "with_candidates ''x.w.test'' P = P x_w_test"
  "with_candidates ''y.w.test'' P = P y_w_test"
  "with_candidates ''z.w.test'' P = P z_w_test"
proof -
  have h: "with_host ''x.a.test'' P = P (Hostname ''x.a.test'')" "with_host ''x.w.test'' P = P (Hostname ''x.w.test'')"
    "with_host ''y.w.test'' P = P (Hostname ''y.w.test'')" "with_host ''z.w.test'' P = P (Hostname ''z.w.test'')" for P
    by (rule with_host_plain; code_simp)+
  have "candidates_for_hostname (Hostname ''x.a.test'') = x_a_test"
    "candidates_for_hostname (Hostname ''x.w.test'') = x_w_test"
    "candidates_for_hostname (Hostname ''y.w.test'') = y_w_test"
    "candidates_for_hostname (Hostname ''z.w.test'') = z_w_test"
    by code_simp+
  with h show "with_candidates ''x.a.test'' P = P x_a_test" "with_candidates ''x.w.test'' P = P x_w_test"
    "with_candidates ''y.w.test'' P = P y_w_test" "with_candidates ''z.w.test'' P = P z_w_test"
    by (simp_all add: with_candidates_def)
qed

lemma wild_cand_distinct [simp]:
  "x_a_test \<noteq> b_test" "b_test \<noteq> x_a_test"
  "x_w_test \<noteq> y_w_test" "x_w_test \<noteq> z_w_test" "y_w_test \<noteq> x_w_test" "y_w_test \<noteq> z_w_test"
  "z_w_test \<noteq> x_w_test" "z_w_test \<noteq> y_w_test"
  "x_w_test \<noteq> a_test" "y_w_test \<noteq> a_test" "z_w_test \<noteq> a_test"
  "a_test \<noteq> x_w_test" "a_test \<noteq> y_w_test" "a_test \<noteq> z_w_test"
  "x_w_test \<noteq> b_test" "y_w_test \<noteq> b_test" "z_w_test \<noteq> b_test"
  "b_test \<noteq> x_w_test" "b_test \<noteq> y_w_test" "b_test \<noteq> z_w_test"
  "x_w_test \<noteq> missing_test" "y_w_test \<noteq> missing_test" "z_w_test \<noteq> missing_test"
  "missing_test \<noteq> x_w_test" "missing_test \<noteq> y_w_test" "missing_test \<noteq> z_w_test"
  by (simp_all add: wild_cand_defs)

lemma wild_cand_keys [simp]:
  "cand_keys x_a_test = [exact_key ''x.a.test'', wild_key ''*.a.test'']"
  "cand_keys x_w_test = [exact_key ''x.w.test'', wild_key ''*.w.test'']"
  "cand_keys y_w_test = [exact_key ''y.w.test'', wild_key ''*.w.test'']"
  "cand_keys z_w_test = [exact_key ''z.w.test'', wild_key ''*.w.test'']"
  by (simp_all add: cand_keys_def wild_cand_defs)

lemma routes_hits_wild [simp]: "mem_hits routes_mem x_a_test = []"
  by (simp add: mem_hits_def routes_mem_def mem_get_from_iter [unfolded mem_get_def] List.map_filter_def)

lemma wild_keys_eval:
  "with_key ''*.a.test'' P = P (wild_key ''*.a.test'')" "with_key ''*.w.test'' P = P (wild_key ''*.w.test'')"
proof -
  have "route_key_parse ''*.a.test'' = Ok (wild_key (''*.'' @ ''a.test''))"
    "route_key_parse ''*.w.test'' = Ok (wild_key (''*.'' @ ''w.test''))"
    by (rule wildcard_parses; code_simp)+
  then show "with_key ''*.a.test'' P = P (wild_key ''*.a.test'')" "with_key ''*.w.test'' P = P (wild_key ''*.w.test'')"
    by (simp_all add: with_key_def)
qed

definition invalidate_drops_entries_for_a_key :: "cache_env \<Rightarrow> bool" where
  "invalidate_drops_entries_for_a_key env \<longleftrightarrow>
     with_found (\<lambda>found. with_candidates ''x.a.test'' (\<lambda>xa. with_candidates ''b.test'' (\<lambda>b.
     with_key ''*.a.test'' (\<lambda>k.
       ct_all_ok env no_jitter [xa, b] (ct_cache found) (\<lambda>t.
       ct_all_ok env no_jitter [xa, b] (ct_invalidate k t) (\<lambda>t. ct_calls t = 3))))))"

lemma invalidate_drops_entries_for_a_key_passes: "test_env env \<Longrightarrow> invalidate_drops_entries_for_a_key env"
  by (simp add: invalidate_drops_entries_for_a_key_def wild_candidates_eval wild_keys_eval ct_test_eval)

text \<open>The index rebuilt from the entries, and the test's comparison with it: the same keys, and under each
the same set of candidates.\<close>

definition expected_index :: "cache_state \<Rightarrow> (route_key \<times> route_candidates list) list" where
  "expected_index st = fold (\<lambda>c. fold (index_add c) (cand_keys c)) (map fst (cs_entries st)) []"

definition same_sets :: "'a list \<Rightarrow> 'a list \<Rightarrow> bool" where
  "same_sets xs ys \<longleftrightarrow> list_all (\<lambda>x. x \<in> set ys) xs \<and> list_all (\<lambda>y. y \<in> set xs) ys"

definition index_consistent :: "cache_test \<Rightarrow> bool" where
  "index_consistent t \<longleftrightarrow>
     (let st = ct_state t; expected = expected_index st
      in same_sets (map fst (cs_index st)) (map fst expected) \<and>
         list_all (\<lambda>key. same_sets (index_get (cs_index st) key) (index_get expected key)) (map fst expected))"

text \<open>One lookup that must succeed and leave the index consistent.\<close>

primrec ct_all_consistent ::
    "cache_env \<Rightarrow> cache_config \<Rightarrow> route_candidates list \<Rightarrow> cache_test \<Rightarrow> (cache_test \<Rightarrow> bool) \<Rightarrow> bool" where
  "ct_all_consistent env cfg [] t P = P t"
| "ct_all_consistent env cfg (c # cs) t P =
     (case ct_lookup env cfg c t of (r, t') \<Rightarrow>
        is_ok r \<and> index_consistent t' \<and> ct_all_consistent env cfg cs t' P)"

lemma ct_all_consistent_cong [cong]:
  "t = t' \<Longrightarrow> ct_all_consistent env cfg cs t P = ct_all_consistent env cfg cs t' P"
  by simp

definition index_tracks_inserts_evictions_purges_and_invalidations :: "cache_env \<Rightarrow> bool" where
  "index_tracks_inserts_evictions_purges_and_invalidations env \<longleftrightarrow>
     with_table [(''a.test'', ''a:1''), (''*.w.test'', ''w:1''), (''b.test'', ''b:1'')] (\<lambda>routes.
     with_candidates ''a.test'' (\<lambda>a. with_candidates ''x.w.test'' (\<lambda>xw. with_candidates ''y.w.test'' (\<lambda>yw.
     with_candidates ''missing.test'' (\<lambda>missing. with_candidates ''b.test'' (\<lambda>b.
     with_candidates ''z.w.test'' (\<lambda>zw. with_key ''*.w.test'' (\<lambda>k.
       let cfg = no_jitter\<lparr>cfg_max_entries := 3\<rparr>
       in ct_all_consistent env cfg [a, xw, yw, missing, b] (ct_cache (Routes routes)) (\<lambda>t.
          ct_all_consistent env cfg [zw] (ct_advance env cfg (cache_secs 6) t) (\<lambda>t.
          case ct_invalidate k t of t \<Rightarrow>
            index_consistent t \<and>
            list_all (\<lambda>(c, _). map_option key_text (cand_wildcard c) \<noteq> Some ''*.w.test'') (cs_entries (ct_state t)) \<and>
            index_consistent (ct_clear t)))))))))))"

definition wild_mem :: in_memory_lookup where
  "wild_mem = mem_from_iter [(exact_key ''a.test'', named ''a'' 1), (wild_key ''*.w.test'', named ''w'' 1),
     (exact_key ''b.test'', named ''b'' 1)]"

lemma wild_mem_table:
  "with_table [(''a.test'', ''a:1''), (''*.w.test'', ''w:1''), (''b.test'', ''b:1'')] P = P wild_mem"
proof -
  have "route_table_rows [(''a.test'', ''a:1'')] = Some [(exact_key ''a.test'', named ''a'' 1)]"
    "route_table_rows [(''b.test'', ''b:1'')] = Some [(exact_key ''b.test'', named ''b'' 1)]"
    by (rule plain_row; (simp add: show_ports; fail)?; code_simp)+
  moreover have "route_table_rows [(''*.w.test'', ''w:1'')] = Some [(wild_key (''*.'' @ ''w.test''), named ''w'' 1)]"
    by (rule row_wildcard [OF _ _ _ _ _ rows_Nil]; (simp add: show_ports; fail)?; code_simp)
  ultimately have "route_table_rows [(''a.test'', ''a:1''), (''*.w.test'', ''w:1''), (''b.test'', ''b:1'')] =
      Some [(exact_key ''a.test'', named ''a'' 1), (wild_key ''*.w.test'', named ''w'' 1),
        (exact_key ''b.test'', named ''b'' 1)]"
    by (auto simp: route_table_rows.simps split: result.splits)
  then show ?thesis by (simp add: with_table_def route_table_def wild_mem_def)
qed

definition w_hits :: route_hits where "w_hits = [(wild_key ''*.w.test'', named ''w'' 1)]"

lemma wild_mem_hits [simp]:
  "mem_hits wild_mem a_test = hits_of ''a.test'' ''a''" "mem_hits wild_mem b_test = hits_of ''b.test'' ''b''"
  "mem_hits wild_mem missing_test = []"
  "mem_hits wild_mem x_w_test = w_hits" "mem_hits wild_mem y_w_test = w_hits" "mem_hits wild_mem z_w_test = w_hits"
  by (simp_all add: mem_hits_def wild_mem_def mem_get_from_iter [unfolded mem_get_def] List.map_filter_def
      hits_of_def w_hits_def)

lemma w_hits_nonempty [simp]: "w_hits \<noteq> []"
  by (simp add: w_hits_def)

lemma cand_wildcards:
  "cand_wildcard a_test = None" "cand_wildcard b_test = None" "cand_wildcard missing_test = None"
  by (simp_all add: a_test_def b_test_def missing_test_def)

lemma index_tracks_inserts_evictions_purges_and_invalidations_passes:
  "test_env env \<Longrightarrow> index_tracks_inserts_evictions_purges_and_invalidations env"
  by (simp add: index_tracks_inserts_evictions_purges_and_invalidations_def wild_mem_table wild_candidates_eval
      wild_keys_eval ct_test_eval index_consistent_def expected_index_def same_sets_def cand_wildcards)

lemma test_env_holds: "test_env \<lparr>env_instant_max = cache_secs 1000, env_hash = (\<lambda>_. 0)\<rparr>"
  by (simp add: test_env_def cache_secs_def)

end
