(* ===== verification/Captures.thy ===== *)
theory Captures
  imports Hello_Builder
begin

text \<open>
  The ClientHellos captured from real clients (\<open>protocol/fixtures.rs\<close> with \<open>protocol/testdata\<close>)
  and the tests over them, as statements about the parser's model. The bytes are those of the
  files; each capture is shown to be the encoding of a well-formed hello, and then the general
  theorems on the wire grammar decide the tests for all prefixes and all splits.
\<close>

section \<open>The captured bytes\<close>

definition openssl_bin :: "byte list" where
  "openssl_bin =
    [0x16, 0x03, 0x01, 0x01, 0x3C, 0x01, 0x00, 0x01, 0x38, 0x03, 0x03, 0xEC, 0x27, 0x27, 0xC9, 0x02,
     0x26, 0x1F, 0x3F, 0x25, 0x40, 0x7A, 0xFE, 0xDD, 0x2F, 0xD1, 0x0E, 0x0F, 0xBE, 0x7C, 0x30, 0x27,
     0x53, 0xDF, 0x44, 0x2F, 0x28, 0x18, 0xCF, 0xAD, 0x0A, 0xCA, 0x74, 0x20, 0x2E, 0x98, 0x22, 0x83,
     0xE0, 0x74, 0x82, 0x52, 0x76, 0xAF, 0x0F, 0x30, 0x2E, 0xF0, 0x07, 0xCB, 0xDD, 0xD5, 0x56, 0x38,
     0xCC, 0x16, 0x6E, 0xA3, 0xFC, 0xA0, 0xF7, 0x58, 0x83, 0x99, 0xCF, 0x44, 0x00, 0x3E, 0x13, 0x02,
     0x13, 0x03, 0x13, 0x01, 0xC0, 0x2C, 0xC0, 0x30, 0x00, 0x9F, 0xCC, 0xA9, 0xCC, 0xA8, 0xCC, 0xAA,
     0xC0, 0x2B, 0xC0, 0x2F, 0x00, 0x9E, 0xC0, 0x24, 0xC0, 0x28, 0x00, 0x6B, 0xC0, 0x23, 0xC0, 0x27,
     0x00, 0x67, 0xC0, 0x0A, 0xC0, 0x14, 0x00, 0x39, 0xC0, 0x09, 0xC0, 0x13, 0x00, 0x33, 0x00, 0x9D,
     0x00, 0x9C, 0x00, 0x3D, 0x00, 0x3C, 0x00, 0x35, 0x00, 0x2F, 0x00, 0xFF, 0x01, 0x00, 0x00, 0xB1,
     0x00, 0x00, 0x00, 0x18, 0x00, 0x16, 0x00, 0x00, 0x13, 0x6F, 0x70, 0x65, 0x6E, 0x73, 0x73, 0x6C,
     0x2E, 0x65, 0x78, 0x61, 0x6D, 0x70, 0x6C, 0x65, 0x2E, 0x63, 0x6F, 0x6D, 0x00, 0x0B, 0x00, 0x04,
     0x03, 0x00, 0x01, 0x02, 0x00, 0x0A, 0x00, 0x16, 0x00, 0x14, 0x00, 0x1D, 0x00, 0x17, 0x00, 0x1E,
     0x00, 0x19, 0x00, 0x18, 0x01, 0x00, 0x01, 0x01, 0x01, 0x02, 0x01, 0x03, 0x01, 0x04, 0x00, 0x23,
     0x00, 0x00, 0x00, 0x16, 0x00, 0x00, 0x00, 0x17, 0x00, 0x00, 0x00, 0x0D, 0x00, 0x2A, 0x00, 0x28,
     0x04, 0x03, 0x05, 0x03, 0x06, 0x03, 0x08, 0x07, 0x08, 0x08, 0x08, 0x09, 0x08, 0x0A, 0x08, 0x0B,
     0x08, 0x04, 0x08, 0x05, 0x08, 0x06, 0x04, 0x01, 0x05, 0x01, 0x06, 0x01, 0x03, 0x03, 0x03, 0x01,
     0x03, 0x02, 0x04, 0x02, 0x05, 0x02, 0x06, 0x02, 0x00, 0x2B, 0x00, 0x05, 0x04, 0x03, 0x04, 0x03,
     0x03, 0x00, 0x2D, 0x00, 0x02, 0x01, 0x01, 0x00, 0x33, 0x00, 0x26, 0x00, 0x24, 0x00, 0x1D, 0x00,
     0x20, 0x5C, 0x0D, 0xCE, 0xC8, 0x21, 0xA8, 0x5C, 0x7D, 0x0C, 0xE6, 0xA5, 0x1D, 0xF3, 0xFB, 0x9F,
     0xAF, 0x34, 0xFA, 0x5E, 0x25, 0xFA, 0x7A, 0x53, 0x66, 0xCE, 0x76, 0xCE, 0x39, 0x25, 0x9B, 0x46,
     0x6A]"

definition curl_padding :: "byte list" where
  "curl_padding =
    [0x00, 0x00, 0x00, 0x00, 0x00, 0x00, 0x00, 0x00, 0x00, 0x00, 0x00, 0x00, 0x00, 0x00, 0x00, 0x00,
     0x00, 0x00, 0x00, 0x00, 0x00, 0x00, 0x00, 0x00, 0x00, 0x00, 0x00, 0x00, 0x00, 0x00, 0x00, 0x00,
     0x00, 0x00, 0x00, 0x00, 0x00, 0x00, 0x00, 0x00, 0x00, 0x00, 0x00, 0x00, 0x00, 0x00, 0x00, 0x00,
     0x00, 0x00, 0x00, 0x00, 0x00, 0x00, 0x00, 0x00, 0x00, 0x00, 0x00, 0x00, 0x00, 0x00, 0x00, 0x00,
     0x00, 0x00, 0x00, 0x00, 0x00, 0x00, 0x00, 0x00, 0x00, 0x00, 0x00, 0x00, 0x00, 0x00, 0x00, 0x00,
     0x00, 0x00, 0x00, 0x00, 0x00, 0x00, 0x00, 0x00, 0x00, 0x00, 0x00, 0x00, 0x00, 0x00, 0x00, 0x00,
     0x00, 0x00, 0x00, 0x00, 0x00, 0x00, 0x00, 0x00, 0x00, 0x00, 0x00, 0x00, 0x00, 0x00, 0x00, 0x00,
     0x00, 0x00, 0x00, 0x00, 0x00, 0x00, 0x00, 0x00, 0x00, 0x00, 0x00, 0x00, 0x00, 0x00, 0x00, 0x00,
     0x00, 0x00, 0x00, 0x00, 0x00, 0x00, 0x00, 0x00, 0x00, 0x00, 0x00, 0x00, 0x00, 0x00, 0x00, 0x00,
     0x00, 0x00, 0x00, 0x00, 0x00, 0x00, 0x00, 0x00, 0x00, 0x00, 0x00, 0x00, 0x00, 0x00, 0x00, 0x00,
     0x00, 0x00, 0x00, 0x00, 0x00, 0x00, 0x00, 0x00, 0x00, 0x00, 0x00, 0x00, 0x00, 0x00, 0x00, 0x00,
     0x00]"

definition curl_bin :: "byte list" where
  "curl_bin =
    [0x16, 0x03, 0x01, 0x02, 0x00, 0x01, 0x00, 0x01, 0xFC, 0x03, 0x03, 0xBC, 0xB6, 0x18, 0xF4, 0x6F,
     0x63, 0xB8, 0xAF, 0x92, 0x77, 0xD1, 0x1F, 0x1C, 0x50, 0x86, 0xB6, 0x6A, 0x97, 0x24, 0x61, 0x50,
     0xED, 0x1A, 0x26, 0x15, 0x9A, 0xDC, 0x98, 0xA2, 0x4A, 0x85, 0xAC, 0x20, 0x6E, 0x34, 0xF7, 0xB8,
     0xD5, 0x35, 0x21, 0x21, 0x7E, 0x9E, 0x05, 0xA7, 0xFB, 0x83, 0x09, 0xE5, 0xD4, 0x5D, 0xC0, 0x54,
     0x15, 0x8A, 0x74, 0xD3, 0x73, 0x77, 0xCE, 0xBA, 0x11, 0x99, 0xBC, 0x4C, 0x00, 0x3E, 0x13, 0x02,
     0x13, 0x03, 0x13, 0x01, 0xC0, 0x2C, 0xC0, 0x30, 0x00, 0x9F, 0xCC, 0xA9, 0xCC, 0xA8, 0xCC, 0xAA,
     0xC0, 0x2B, 0xC0, 0x2F, 0x00, 0x9E, 0xC0, 0x24, 0xC0, 0x28, 0x00, 0x6B, 0xC0, 0x23, 0xC0, 0x27,
     0x00, 0x67, 0xC0, 0x0A, 0xC0, 0x14, 0x00, 0x39, 0xC0, 0x09, 0xC0, 0x13, 0x00, 0x33, 0x00, 0x9D,
     0x00, 0x9C, 0x00, 0x3D, 0x00, 0x3C, 0x00, 0x35, 0x00, 0x2F, 0x00, 0xFF, 0x01, 0x00, 0x01, 0x75,
     0x00, 0x00, 0x00, 0x15, 0x00, 0x13, 0x00, 0x00, 0x10, 0x63, 0x75, 0x72, 0x6C, 0x2E, 0x65, 0x78,
     0x61, 0x6D, 0x70, 0x6C, 0x65, 0x2E, 0x63, 0x6F, 0x6D, 0x00, 0x0B, 0x00, 0x04, 0x03, 0x00, 0x01,
     0x02, 0x00, 0x0A, 0x00, 0x16, 0x00, 0x14, 0x00, 0x1D, 0x00, 0x17, 0x00, 0x1E, 0x00, 0x19, 0x00,
     0x18, 0x01, 0x00, 0x01, 0x01, 0x01, 0x02, 0x01, 0x03, 0x01, 0x04, 0x00, 0x10, 0x00, 0x0E, 0x00,
     0x0C, 0x02, 0x68, 0x32, 0x08, 0x68, 0x74, 0x74, 0x70, 0x2F, 0x31, 0x2E, 0x31, 0x00, 0x16, 0x00,
     0x00, 0x00, 0x17, 0x00, 0x00, 0x00, 0x31, 0x00, 0x00, 0x00, 0x0D, 0x00, 0x2A, 0x00, 0x28, 0x04,
     0x03, 0x05, 0x03, 0x06, 0x03, 0x08, 0x07, 0x08, 0x08, 0x08, 0x09, 0x08, 0x0A, 0x08, 0x0B, 0x08,
     0x04, 0x08, 0x05, 0x08, 0x06, 0x04, 0x01, 0x05, 0x01, 0x06, 0x01, 0x03, 0x03, 0x03, 0x01, 0x03,
     0x02, 0x04, 0x02, 0x05, 0x02, 0x06, 0x02, 0x00, 0x2B, 0x00, 0x05, 0x04, 0x03, 0x04, 0x03, 0x03,
     0x00, 0x2D, 0x00, 0x02, 0x01, 0x01, 0x00, 0x33, 0x00, 0x26, 0x00, 0x24, 0x00, 0x1D, 0x00, 0x20,
     0xCC, 0x51, 0x6F, 0x9A, 0xFA, 0x13, 0x01, 0x24, 0x37, 0x88, 0x2E, 0xEB, 0x7D, 0x6A, 0x13, 0x97,
     0xD7, 0x48, 0x47, 0xD8, 0xD7, 0x92, 0xDC, 0x9C, 0x5E, 0x05, 0xB8, 0x74, 0x54, 0xE1, 0x8F, 0x6C,
     0x00, 0x15, 0x00, 0xB1] @
    curl_padding"

definition firefox_key_shares :: "byte list" where
  "firefox_key_shares =
    [0x05, 0x2D, 0x11, 0xEC, 0x04, 0xC0, 0xAA, 0x73, 0x4E, 0x5D, 0x47, 0x98, 0xFA, 0x20, 0x27, 0xF4,
     0x71, 0x39, 0x3A, 0x0B, 0x9A, 0x54, 0x90, 0xA5, 0x77, 0x12, 0xCB, 0xC6, 0xD1, 0x59, 0x2D, 0xF5,
     0x16, 0x43, 0x6A, 0x79, 0x62, 0x34, 0x3D, 0x07, 0x09, 0x93, 0xFB, 0xE5, 0x81, 0x65, 0xEB, 0x40,
     0x89, 0x32, 0xC2, 0x46, 0xB4, 0x63, 0x27, 0xD9, 0x5E, 0x55, 0x38, 0x41, 0x99, 0xE4, 0xAC, 0xAB,
     0xC2, 0x1C, 0xE8, 0xF8, 0x3F, 0xF5, 0xDB, 0xB8, 0xCA, 0x23, 0x04, 0xBE, 0x11, 0xBF, 0x67, 0x3C,
     0x00, 0xB2, 0xD6, 0x27, 0x76, 0x43, 0x17, 0x4F, 0xD9, 0x3A, 0x61, 0x32, 0x7A, 0x1A, 0x7C, 0xC1,
     0x3A, 0x54, 0x40, 0xB1, 0x39, 0x09, 0xDE, 0x29, 0xAF, 0xA9, 0xF9, 0x4C, 0xBC, 0x71, 0x6E, 0x92,
     0x06, 0x12, 0x3D, 0xE7, 0x29, 0xC0, 0x73, 0x27, 0x48, 0xD5, 0x2F, 0x28, 0x26, 0x39, 0x7D, 0x03,
     0x33, 0xFA, 0xD1, 0x99, 0x73, 0xF2, 0x97, 0x47, 0xD4, 0xAF, 0x58, 0x3A, 0x1A, 0x42, 0x85, 0x55,
     0x20, 0xCC, 0xBD, 0xD9, 0xF5, 0x9C, 0x13, 0x69, 0x48, 0x90, 0x47, 0x87, 0xE8, 0x77, 0x1F, 0xFB,
     0xF8, 0x9A, 0xE8, 0x2B, 0xCF, 0x3A, 0x1B, 0xAD, 0xF9, 0x40, 0x72, 0x6F, 0xD4, 0xB7, 0x26, 0xA3,
     0xBB, 0xA2, 0x86, 0x5A, 0xA5, 0xF0, 0x92, 0x86, 0x30, 0x33, 0x03, 0x32, 0x5B, 0xE5, 0x3B, 0x9B,
     0x4A, 0x14, 0x8C, 0xE0, 0x07, 0xAA, 0x08, 0xA7, 0x82, 0x3D, 0x38, 0x09, 0x9D, 0xAA, 0xCB, 0xB1,
     0x40, 0x1D, 0x6C, 0x57, 0xBD, 0x12, 0x07, 0x20, 0x7C, 0xEA, 0x82, 0xC2, 0xFB, 0xA1, 0x9D, 0xD0,
     0x33, 0x08, 0xA2, 0x47, 0x3E, 0xD6, 0x27, 0x4B, 0x1C, 0xB4, 0x9D, 0xF9, 0xC1, 0x33, 0xDB, 0x2A,
     0xFB, 0xE3, 0x57, 0x60, 0xE9, 0x38, 0x65, 0x29, 0xCF, 0x8F, 0xDC, 0x1A, 0xF1, 0xE2, 0x5A, 0xB6,
     0x70, 0x76, 0x20, 0x2A, 0xB0, 0xF5, 0x55, 0xA0, 0xC6, 0x01, 0x16, 0xAA, 0xD9, 0xCA, 0x87, 0x38,
     0x54, 0x18, 0xEA, 0x64, 0xF6, 0xB9, 0x11, 0x1B, 0xB6, 0x58, 0xB7, 0x22, 0x61, 0xB6, 0x35, 0x42,
     0x06, 0x9B, 0x3E, 0xE9, 0x91, 0xC6, 0x68, 0x75, 0x69, 0x53, 0x61, 0x6D, 0xA6, 0x69, 0x65, 0xF3,
     0x86, 0x3F, 0xA3, 0x09, 0x02, 0xB1, 0xAB, 0x11, 0x34, 0x0B, 0x02, 0xB2, 0x27, 0xB6, 0x9E, 0x47,
     0x7F, 0x52, 0x68, 0x3D, 0xCE, 0x10, 0x22, 0xD7, 0xCB, 0xAB, 0xA3, 0x56, 0x9E, 0x41, 0x04, 0x96,
     0x95, 0x85, 0x28, 0x0F, 0xB5, 0xC7, 0x76, 0x02, 0x09, 0x17, 0xC2, 0x07, 0xEB, 0xF4, 0x3B, 0x46,
     0xE5, 0xB4, 0xE4, 0xD4, 0xAE, 0xCF, 0x23, 0x1C, 0x1A, 0x74, 0x61, 0xDF, 0xD9, 0x85, 0xA0, 0xC0,
     0x2A, 0x3F, 0x80, 0x14, 0x6C, 0x1B, 0x77, 0xCA, 0xB3, 0x68, 0x24, 0xAA, 0xB9, 0xD0, 0x38, 0x27,
     0xFA, 0x25, 0x77, 0x5C, 0xA3, 0x24, 0xD2, 0xE5, 0xBB, 0xE3, 0xA9, 0x2F, 0xF1, 0x50, 0xC3, 0xEF,
     0x57, 0x64, 0x64, 0x19, 0x63, 0x78, 0x14, 0xC3, 0x04, 0xCC, 0x6A, 0x0E, 0x8B, 0x31, 0x7F, 0x38,
     0xB1, 0xA6, 0xCB, 0x1C, 0x2F, 0x3A, 0x2E, 0x75, 0x86, 0x9B, 0x7F, 0x07, 0x35, 0xB5, 0x62, 0x96,
     0x3E, 0x69, 0x86, 0x36, 0x86, 0xAC, 0xCE, 0xD7, 0x07, 0x33, 0x36, 0xBE, 0x8E, 0x77, 0x86, 0x81,
     0xE0, 0x7D, 0x1D, 0xD7, 0xB4, 0x31, 0xBB, 0x9B, 0xFD, 0x76, 0xB4, 0xAC, 0x2A, 0x9A, 0x1F, 0xD2,
     0xA4, 0x2C, 0x26, 0xA2, 0x61, 0xAA, 0x49, 0x28, 0xA1, 0xB8, 0x85, 0x26, 0x33, 0x69, 0xD0, 0x89,
     0x7A, 0x36, 0x71, 0xCB, 0x8B, 0x33, 0x10, 0xE0, 0x7F, 0x52, 0x0A, 0xBF, 0xC7, 0x9B, 0x80, 0xBA,
     0x5B, 0x2F, 0xE0, 0x94, 0x26, 0x20, 0x25, 0x12, 0x91, 0xB1, 0x60, 0xB1, 0x88, 0xA0, 0xA0, 0xA6,
     0x31, 0xD2, 0x42, 0xAF, 0x3A, 0x36, 0x16, 0xFC, 0x23, 0xA4, 0x0C, 0x26, 0x3F, 0x90, 0xA6, 0xB8,
     0x4D, 0xDA, 0x49, 0xD3, 0x34, 0x3F, 0x49, 0x89, 0x0D, 0x87, 0x97, 0xA2, 0x3B, 0x6B, 0x5E, 0xC6,
     0x04, 0x84, 0x9A, 0xF3, 0x28, 0x25, 0x1C, 0x93, 0xFF, 0xD4, 0x6A, 0x53, 0xD9, 0x46, 0x4C, 0x31,
     0x62, 0x01, 0x47, 0x1A, 0x93, 0xB7, 0x5E, 0x8C, 0x78, 0x16, 0xCA, 0x69, 0x91, 0x08, 0xA6, 0x5A,
     0x4C, 0x87, 0x3D, 0x49, 0xA3, 0x68, 0x76, 0x45, 0x74, 0x66, 0x43, 0x29, 0xAA, 0x56, 0x41, 0x5E,
     0xE2, 0xAD, 0xF8, 0xA3, 0x98, 0xE3, 0x11, 0x3E, 0xCB, 0xA5, 0x77, 0x97, 0x7B, 0x6B, 0x21, 0x44,
     0x72, 0xEB, 0xD9, 0x64, 0x5F, 0x44, 0x4D, 0x94, 0x46, 0xB3, 0x9D, 0xE5, 0x08, 0xB8, 0xC4, 0x8D,
     0x11, 0xD4, 0xB7, 0x4F, 0xAB, 0x7C, 0xE4, 0xA3, 0xA0, 0xA8, 0x9C, 0xBE, 0x2F, 0x14, 0xC4, 0x64,
     0xB8, 0x72, 0xDD, 0x02, 0x0E, 0x23, 0xEA, 0x3D, 0xBB, 0x81, 0xC3, 0x28, 0x2B, 0x50, 0xBB, 0x67,
     0xB9, 0x38, 0x9A, 0x6F, 0x58, 0x98, 0x01, 0xCA, 0x63, 0x6F, 0x7D, 0x6A, 0x4B, 0x41, 0x1A, 0x10,
     0xFF, 0xB7, 0x4C, 0xB6, 0x62, 0xB9, 0x96, 0x90, 0x32, 0x8B, 0x59, 0xAC, 0x8C, 0xE3, 0x50, 0x6E,
     0x56, 0x29, 0x6E, 0xF8, 0x80, 0x52, 0x98, 0x1D, 0xD2, 0xA0, 0x3B, 0x1A, 0x40, 0xA3, 0xCC, 0x71,
     0x7D, 0x4F, 0xBB, 0x68, 0x82, 0xE1, 0x65, 0x82, 0x35, 0x1E, 0x40, 0xE8, 0x81, 0x52, 0x1A, 0x79,
     0x5A, 0xD2, 0x95, 0x75, 0x5C, 0x29, 0x79, 0x5A, 0x03, 0xB5, 0xF6, 0x6D, 0xFB, 0xA4, 0x99, 0xAE,
     0x12, 0x0A, 0x40, 0x49, 0x35, 0x89, 0x7A, 0x2A, 0xBE, 0x95, 0xC3, 0xC9, 0x7B, 0x69, 0x55, 0xD3,
     0x56, 0x93, 0x44, 0xA8, 0x7E, 0x17, 0xAB, 0x3B, 0xE6, 0x99, 0xBC, 0x86, 0x69, 0x2F, 0xBC, 0x93,
     0x5D, 0xD4, 0xAC, 0x09, 0x8A, 0x09, 0x9E, 0x34, 0xA9, 0xA5, 0xB5, 0x7A, 0x46, 0xA3, 0x46, 0x88,
     0x75, 0x77, 0xE9, 0x72, 0x6E, 0xE3, 0xC9, 0x3D, 0xC8, 0xC5, 0x35, 0x6A, 0xCA, 0x28, 0x59, 0x43,
     0x8A, 0x31, 0x52, 0x5A, 0xE4, 0x03, 0x59, 0x60, 0xD4, 0xA4, 0x3E, 0x97, 0x2D, 0x0C, 0x2C, 0x2C,
     0x3A, 0xC9, 0x17, 0xD9, 0x79, 0xAE, 0x71, 0x99, 0xCC, 0xE0, 0x92, 0xC0, 0x87, 0x79, 0x9B, 0x2A,
     0xBA, 0x59, 0x32, 0x49, 0xA8, 0x6A, 0xB6, 0x03, 0x07, 0x61, 0x2E, 0xC4, 0x50, 0x66, 0x89, 0xF2,
     0xBF, 0x86, 0xA0, 0x9F, 0xE9, 0x93, 0x2B, 0xD0, 0xC7, 0x36, 0xDF, 0x32, 0x74, 0x80, 0x84, 0x39,
     0x5C, 0x73, 0x09, 0xD4, 0x07, 0x0F, 0x4D, 0x74, 0x2D, 0x5A, 0xE6, 0xA9, 0x49, 0xA8, 0x04, 0xF2,
     0x14, 0x0F, 0xEA, 0x58, 0x05, 0xEB, 0xCA, 0x17, 0x6E, 0xC9, 0xAD, 0x74, 0x65, 0x8E, 0xB9, 0x71,
     0x6B, 0xAE, 0x44, 0x62, 0x82, 0x3C, 0x8B, 0xD3, 0x36, 0x87, 0xC4, 0xDA, 0x9C, 0x2E, 0xB0, 0xA4,
     0x01, 0x84, 0x16, 0xCC, 0x71, 0x0F, 0x45, 0x7B, 0xA0, 0xA0, 0xC0, 0xC2, 0x63, 0xDB, 0xA5, 0xBB,
     0x9A, 0x5D, 0x07, 0x39, 0x35, 0xFB, 0x2B, 0x3A, 0x9C, 0x03, 0xC0, 0x4A, 0x24, 0x53, 0x62, 0xA7,
     0xB7, 0x09, 0xA1, 0x08, 0x2F, 0xF6, 0x12, 0xBF, 0xB5, 0xB2, 0x1D, 0x55, 0xA1, 0xDA, 0x89, 0xBE,
     0x17, 0xFA, 0xC0, 0x3C, 0xC4, 0x88, 0xF7, 0xB6, 0x3E, 0xE1, 0x9A, 0x1B, 0x03, 0x28, 0x00, 0x2D,
     0x2C, 0x0E, 0xB2, 0xEC, 0x9A, 0x44, 0xF6, 0x7A, 0x1E, 0x49, 0x56, 0xC8, 0x64, 0x2E, 0x69, 0xAA,
     0xA9, 0x46, 0x4A, 0x3D, 0xBF, 0x7C, 0xCA, 0x74, 0x3A, 0x36, 0x83, 0xA0, 0x2D, 0x64, 0x94, 0x26,
     0xFD, 0x5C, 0xAC, 0x2C, 0xF0, 0x19, 0x63, 0x98, 0x8F, 0xC7, 0x01, 0x9B, 0xA7, 0x65, 0x61, 0x9E,
     0xC2, 0x12, 0x18, 0xB4, 0x2C, 0xDB, 0xCB, 0xC3, 0x42, 0x25, 0xB4, 0xEA, 0x4C, 0x82, 0x75, 0xF0,
     0x26, 0x6B, 0xD6, 0xCD, 0x1D, 0xB3, 0x9E, 0x11, 0x19, 0x07, 0xA9, 0x15, 0x94, 0xE3, 0x89, 0xB7,
     0x56, 0x35, 0x35, 0x12, 0xF0, 0xCE, 0x5C, 0xD9, 0x51, 0x8D, 0x76, 0x5F, 0xFE, 0x88, 0x8B, 0xEA,
     0x4B, 0xC3, 0x82, 0xA1, 0x6D, 0x5D, 0x15, 0x5A, 0x2B, 0xFA, 0x53, 0xB4, 0x25, 0x2E, 0x06, 0xC6,
     0x80, 0x77, 0xB2, 0x27, 0xC6, 0xE0, 0x59, 0x40, 0x77, 0xCF, 0x6B, 0x17, 0x0F, 0x8C, 0x97, 0x10,
     0x47, 0x9B, 0x95, 0x5F, 0x08, 0xCA, 0xAF, 0x52, 0x98, 0x5A, 0xB9, 0x96, 0x95, 0xF3, 0x75, 0x76,
     0x25, 0xBD, 0x29, 0x93, 0x1E, 0x9C, 0xA1, 0x53, 0xCE, 0xE4, 0x6B, 0x8A, 0x75, 0x85, 0x2B, 0xE8,
     0x0C, 0xFC, 0x3A, 0x4E, 0xA1, 0x5C, 0x09, 0xFC, 0xA1, 0xB9, 0xE8, 0x79, 0x0C, 0x51, 0xBA, 0x26,
     0x07, 0x1A, 0xC3, 0x26, 0x7A, 0x12, 0x9F, 0x30, 0x77, 0x22, 0xC7, 0xCA, 0x23, 0xAF, 0x32, 0x70,
     0x92, 0x17, 0x9C, 0xCA, 0x7F, 0x92, 0xB6, 0xFC, 0x47, 0x19, 0xE4, 0xC6, 0xE8, 0xD3, 0xDC, 0x9C,
     0x10, 0x6B, 0xFD, 0x74, 0xA6, 0xFD, 0x52, 0x11, 0xF2, 0x42, 0x32, 0xBA, 0xA3, 0x7D, 0x60, 0x61,
     0x10, 0xDC, 0xD1, 0x44, 0xC7, 0x12, 0xA0, 0x43, 0xB6, 0x3F, 0x7A, 0x29, 0x9E, 0x39, 0x77, 0x6D,
     0x97, 0x4F, 0x27, 0xFB, 0x8E, 0x65, 0x00, 0x1D, 0x00, 0x20, 0x52, 0x11, 0xF2, 0x42, 0x32, 0xBA,
     0xA3, 0x7D, 0x60, 0x61, 0x10, 0xDC, 0xD1, 0x44, 0xC7, 0x12, 0xA0, 0x43, 0xB6, 0x3F, 0x7A, 0x29,
     0x9E, 0x39, 0x77, 0x6D, 0x97, 0x4F, 0x27, 0xFB, 0x8E, 0x65, 0x00, 0x17, 0x00, 0x41, 0x04, 0xAE,
     0xC8, 0xB7, 0x27, 0xE4, 0xC5, 0xB2, 0x33, 0x1E, 0x66, 0x0F, 0x9C, 0x90, 0x1E, 0xCC, 0x91, 0x28,
     0xA8, 0xAD, 0xD6, 0xD2, 0x38, 0x84, 0x58, 0xF2, 0xA4, 0x87, 0x9F, 0xC0, 0x41, 0x62, 0x46, 0xCA,
     0xAF, 0xD9, 0x32, 0xE1, 0x84, 0x55, 0x0A, 0x36, 0xF6, 0xDF, 0xDA, 0xE3, 0x5E, 0x2B, 0xCA, 0xAD,
     0x53, 0x10, 0xBD, 0x05, 0x6C, 0x2A, 0x0C, 0x59, 0x92, 0x11, 0x19, 0xC2, 0xD1, 0xCB, 0xCE]"

definition firefox_ech :: "byte list" where
  "firefox_ech =
    [0x00, 0x00, 0x01, 0x00, 0x03, 0x37, 0x00, 0x20, 0xE1, 0x32, 0xB6, 0xAD, 0xAF, 0x24, 0x5B, 0x82,
     0x45, 0x38, 0x53, 0x54, 0xDB, 0x6B, 0x1B, 0x36, 0xC9, 0x76, 0x11, 0x6D, 0x8A, 0x62, 0x0E, 0x43,
     0xB0, 0xE8, 0xB0, 0xF5, 0xA8, 0xFF, 0x16, 0x21, 0x00, 0xF0, 0x52, 0x18, 0xC0, 0x1D, 0x1D, 0x7B,
     0xE1, 0xBD, 0xD5, 0x95, 0xF4, 0x0E, 0x73, 0x6D, 0x14, 0xAE, 0x94, 0xFB, 0x65, 0xA5, 0x48, 0x76,
     0x59, 0x63, 0x33, 0x38, 0x4B, 0x41, 0x3E, 0xC7, 0xBC, 0xA3, 0xCA, 0xC4, 0x9A, 0x98, 0x83, 0x5E,
     0x22, 0x51, 0x4E, 0x40, 0xC6, 0xA7, 0xAD, 0xC6, 0xD1, 0xDC, 0x82, 0xAE, 0xC6, 0xB8, 0x79, 0x55,
     0x26, 0xD8, 0xDA, 0x3E, 0xAE, 0x5E, 0x92, 0x60, 0x21, 0x86, 0x74, 0x7C, 0x75, 0x98, 0xDA, 0x55,
     0x1E, 0x8C, 0x4C, 0x5B, 0xFD, 0x51, 0x32, 0x59, 0x08, 0xFF, 0x08, 0x35, 0xFF, 0x48, 0xF7, 0x6F,
     0x69, 0x3F, 0x99, 0x95, 0x65, 0x89, 0x5A, 0x1B, 0x88, 0x19, 0xC7, 0xCB, 0xF4, 0x6A, 0xF6, 0xA5,
     0xDF, 0x27, 0xC2, 0xA8, 0x8C, 0x34, 0x05, 0xD8, 0xA3, 0x7E, 0xCB, 0xA0, 0xC2, 0x4F, 0xB1, 0x41,
     0x90, 0x71, 0x83, 0x8C, 0x6D, 0xE5, 0x17, 0x36, 0xA0, 0xCF, 0xBE, 0x68, 0xE8, 0xCA, 0x84, 0xF2,
     0x2E, 0x43, 0x49, 0x25, 0x68, 0xF8, 0x29, 0xC2, 0x56, 0xFF, 0x1E, 0xDB, 0x64, 0xAE, 0xF3, 0xE2,
     0xA7, 0xB4, 0x93, 0x1B, 0xDA, 0xAA, 0x4F, 0x3B, 0x38, 0x1E, 0xC6, 0x34, 0x42, 0x36, 0x4A, 0x55,
     0xF4, 0x85, 0x55, 0x90, 0x34, 0xC9, 0x8C, 0x1A, 0xBA, 0x19, 0xB9, 0xA1, 0xED, 0x9E, 0xA1, 0x11,
     0x72, 0x6D, 0x33, 0x9D, 0xB8, 0x74, 0x54, 0x55, 0xA6, 0x2C, 0x62, 0x18, 0x26, 0x56, 0x1A, 0x35,
     0x41, 0x44, 0xD4, 0x0B, 0x22, 0xDF, 0x35, 0x27, 0xE9, 0x34, 0xFD, 0x40, 0xF0, 0x6C, 0xB4, 0xFB,
     0x8F, 0xA8, 0x48, 0xAC, 0xB0, 0x66, 0x95, 0x21, 0xD7, 0x02, 0x60, 0x75, 0x55, 0xFF, 0x37, 0xCC,
     0x8A, 0xE7, 0xC4, 0x5C, 0xC4, 0xCC, 0x1A, 0x0C, 0x09, 0xA8]"

definition firefox_bin :: "byte list" where
  "firefox_bin =
    [0x16, 0x03, 0x01, 0x07, 0x62, 0x01, 0x00, 0x07, 0x5E, 0x03, 0x03, 0xC1, 0x58, 0x54, 0x25, 0xBD,
     0xBD, 0xB6, 0x57, 0x24, 0xD1, 0xB1, 0x5C, 0xFE, 0x80, 0x77, 0x37, 0x9B, 0xE3, 0xC0, 0xC6, 0x70,
     0x60, 0xAC, 0xC4, 0xD6, 0x24, 0x28, 0x4D, 0xCD, 0xF7, 0x92, 0x26, 0x20, 0x1B, 0x73, 0xC7, 0xEC,
     0xA9, 0x66, 0x1C, 0x73, 0x97, 0x68, 0x19, 0x75, 0x73, 0xF3, 0x6A, 0xA1, 0x3C, 0x1F, 0xDF, 0xA5,
     0x15, 0x75, 0x21, 0xE5, 0xBB, 0xDF, 0x07, 0x54, 0x21, 0x18, 0xAA, 0xD0, 0x00, 0x1E, 0x13, 0x01,
     0x13, 0x03, 0x13, 0x02, 0xC0, 0x2B, 0xC0, 0x2F, 0xCC, 0xA9, 0xCC, 0xA8, 0xC0, 0x2C, 0xC0, 0x30,
     0xC0, 0x13, 0xC0, 0x14, 0x00, 0x9C, 0x00, 0x9D, 0x00, 0x2F, 0x00, 0x35, 0x01, 0x00, 0x06, 0xF7,
     0x00, 0x00, 0x00, 0x16, 0x00, 0x14, 0x00, 0x00, 0x11, 0x66, 0x69, 0x72, 0x65, 0x66, 0x6F, 0x78,
     0x2E, 0x6C, 0x6F, 0x63, 0x61, 0x6C, 0x68, 0x6F, 0x73, 0x74, 0x00, 0x17, 0x00, 0x00, 0xFF, 0x01,
     0x00, 0x01, 0x00, 0x00, 0x0A, 0x00, 0x0C, 0x00, 0x0A, 0x11, 0xEC, 0x00, 0x1D, 0x00, 0x17, 0x00,
     0x18, 0x00, 0x19, 0x00, 0x0B, 0x00, 0x02, 0x01, 0x00, 0x00, 0x23, 0x00, 0x00, 0x00, 0x10, 0x00,
     0x0E, 0x00, 0x0C, 0x02, 0x68, 0x32, 0x08, 0x68, 0x74, 0x74, 0x70, 0x2F, 0x31, 0x2E, 0x31, 0x00,
     0x05, 0x00, 0x05, 0x01, 0x00, 0x00, 0x00, 0x00, 0x00, 0x22, 0x00, 0x0A, 0x00, 0x08, 0x04, 0x03,
     0x05, 0x03, 0x06, 0x03, 0x02, 0x03, 0x00, 0x12, 0x00, 0x00, 0x00, 0x33, 0x05, 0x2F] @
    firefox_key_shares @
    [0x00, 0x2B, 0x00, 0x05, 0x04, 0x03, 0x04, 0x03, 0x03, 0x00, 0x0D, 0x00, 0x18, 0x00, 0x16, 0x04,
     0x03, 0x05, 0x03, 0x06, 0x03, 0x08, 0x04, 0x08, 0x05, 0x08, 0x06, 0x04, 0x01, 0x05, 0x01, 0x06,
     0x01, 0x02, 0x03, 0x02, 0x01, 0x00, 0x2D, 0x00, 0x02, 0x01, 0x01, 0x00, 0x1C, 0x00, 0x02, 0x40,
     0x01, 0x00, 0x1B, 0x00, 0x07, 0x06, 0x00, 0x01, 0x00, 0x02, 0x00, 0x03, 0xFE, 0x0D, 0x01, 0x1A] @
    firefox_ech"

section \<open>The fixtures and their tests\<close>

record fixture =
  fx_name :: string
  fx_wire :: "byte list"
  fx_sni :: string

definition FIXTURES :: "fixture list" where
  "FIXTURES =
     [\<lparr>fx_name = ''openssl_s_client'', fx_wire = openssl_bin, fx_sni = ''openssl.example.com''\<rparr>,
      \<lparr>fx_name = ''curl'', fx_wire = curl_bin, fx_sni = ''curl.example.com''\<rparr>,
      \<lparr>fx_name = ''firefox_pq'', fx_wire = firefox_bin, fx_sni = ''firefox.localhost''\<rparr>]"

definition handshake_of :: "byte list \<Rightarrow> byte list" where
  "handshake_of wire = drop RECORD_HEADER_LEN wire"

text \<open>\<open>parsed\<close>: the parser accepts the wire, and its answer passes the assertions.\<close>

definition parsed :: "byte list option \<Rightarrow> (client_hello_info \<Rightarrow> bool) \<Rightarrow> bool" where
  "parsed wire assertions =
     (case wire of
        None \<Rightarrow> False
      | Some w \<Rightarrow>
          (case parse_client_hello w hello_limits_default of
             Some (Ok info) \<Rightarrow> assertions info
           | _ \<Rightarrow> False))"

definition real_clients_parse_under_default_limits :: bool where
  "real_clients_parse_under_default_limits \<longleftrightarrow>
     list_all (\<lambda>f. parsed (Some (fx_wire f))
       (\<lambda>info. map_option as_str (info_sni info) = Some (fx_sni f) \<and>
          info_consumed info = length (fx_wire f))) FIXTURES"

definition post_quantum_hello_is_the_large_case :: bool where
  "post_quantum_hello_is_the_large_case \<longleftrightarrow>
     (case find (\<lambda>f. fx_name f = ''firefox_pq'') FIXTURES of
        None \<Rightarrow> False
      | Some firefox \<Rightarrow> length (fx_wire firefox) > 1500)"

definition every_prefix_of_real_hellos_is_incomplete :: bool where
  "every_prefix_of_real_hellos_is_incomplete \<longleftrightarrow>
     list_all (\<lambda>f. list_all (\<lambda>k.
       parse_client_hello (take k (fx_wire f)) hello_limits_default = Some (Err Incomplete))
       [0..<length (fx_wire f)]) FIXTURES"

definition every_two_record_split_of_real_hellos_parses :: bool where
  "every_two_record_split_of_real_hellos_parses \<longleftrightarrow>
     list_all (\<lambda>f. let handshake = handshake_of (fx_wire f) in
       list_all (\<lambda>split. parsed (records_from_splits handshake [split])
         (\<lambda>info. map_option as_str (info_sni info) = Some (fx_sni f)))
       [1..<length handshake]) FIXTURES"

definition div_ceil :: "nat \<Rightarrow> nat \<Rightarrow> nat" where
  "div_ceil a b = (if a mod b = 0 then a div b else a div b + 1)"

definition real_hellos_fragmented_to_the_record_limit_parse :: bool where
  "real_hellos_fragmented_to_the_record_limit_parse \<longleftrightarrow>
     list_all (\<lambda>f. let handshake = handshake_of (fx_wire f);
         chunk = div_ceil (length handshake) (max_records hello_limits_default) in
       parsed (records_of handshake chunk) (\<lambda>_. True)) FIXTURES"

definition single_byte_corruption_of_real_hellos_never_panics :: bool where
  "single_byte_corruption_of_real_hellos_never_panics \<longleftrightarrow>
     list_all (\<lambda>f. list_all (\<lambda>index. list_all (\<lambda>v.
       parse_client_hello ((fx_wire f)[index := v]) hello_limits_default \<noteq> None)
       [0x00, 0x01, 0x80, 0xff]) [0..<length (fx_wire f)]) FIXTURES"

section \<open>The hellos the captures encode\<close>

definition openssl_hello :: client_hello where
  "openssl_hello =
    \<lparr>ch_version = 0x0303,
     ch_random =
      [0xEC, 0x27, 0x27, 0xC9, 0x02, 0x26, 0x1F, 0x3F, 0x25, 0x40, 0x7A, 0xFE, 0xDD, 0x2F, 0xD1, 0x0E,
       0x0F, 0xBE, 0x7C, 0x30, 0x27, 0x53, 0xDF, 0x44, 0x2F, 0x28, 0x18, 0xCF, 0xAD, 0x0A, 0xCA, 0x74],
     ch_session_id =
      [0x2E, 0x98, 0x22, 0x83, 0xE0, 0x74, 0x82, 0x52, 0x76, 0xAF, 0x0F, 0x30, 0x2E, 0xF0, 0x07, 0xCB,
       0xDD, 0xD5, 0x56, 0x38, 0xCC, 0x16, 0x6E, 0xA3, 0xFC, 0xA0, 0xF7, 0x58, 0x83, 0x99, 0xCF, 0x44],
     ch_cipher_suites =
      [0x13, 0x02, 0x13, 0x03, 0x13, 0x01, 0xC0, 0x2C, 0xC0, 0x30, 0x00, 0x9F, 0xCC, 0xA9, 0xCC, 0xA8,
       0xCC, 0xAA, 0xC0, 0x2B, 0xC0, 0x2F, 0x00, 0x9E, 0xC0, 0x24, 0xC0, 0x28, 0x00, 0x6B, 0xC0, 0x23,
       0xC0, 0x27, 0x00, 0x67, 0xC0, 0x0A, 0xC0, 0x14, 0x00, 0x39, 0xC0, 0x09, 0xC0, 0x13, 0x00, 0x33,
       0x00, 0x9D, 0x00, 0x9C, 0x00, 0x3D, 0x00, 0x3C, 0x00, 0x35, 0x00, 0x2F, 0x00, 0xFF],
     ch_compression = [0x00],
     ch_extensions = Some
      [(0, [0x00, 0x16, 0x00, 0x00, 0x13, 0x6F, 0x70, 0x65, 0x6E, 0x73, 0x73, 0x6C, 0x2E, 0x65, 0x78, 0x61,
        0x6D, 0x70, 0x6C, 0x65, 0x2E, 0x63, 0x6F, 0x6D]),
       (11, [0x03, 0x00, 0x01, 0x02]),
       (10, [0x00, 0x14, 0x00, 0x1D, 0x00, 0x17, 0x00, 0x1E, 0x00, 0x19, 0x00, 0x18, 0x01, 0x00, 0x01, 0x01,
        0x01, 0x02, 0x01, 0x03, 0x01, 0x04]),
       (35, []),
       (22, []),
       (23, []),
       (13, [0x00, 0x28, 0x04, 0x03, 0x05, 0x03, 0x06, 0x03, 0x08, 0x07, 0x08, 0x08, 0x08, 0x09, 0x08, 0x0A,
        0x08, 0x0B, 0x08, 0x04, 0x08, 0x05, 0x08, 0x06, 0x04, 0x01, 0x05, 0x01, 0x06, 0x01, 0x03, 0x03,
        0x03, 0x01, 0x03, 0x02, 0x04, 0x02, 0x05, 0x02, 0x06, 0x02]),
       (43, [0x04, 0x03, 0x04, 0x03, 0x03]),
       (45, [0x01, 0x01]),
       (51, [0x00, 0x24, 0x00, 0x1D, 0x00, 0x20, 0x5C, 0x0D, 0xCE, 0xC8, 0x21, 0xA8, 0x5C, 0x7D, 0x0C, 0xE6,
        0xA5, 0x1D, 0xF3, 0xFB, 0x9F, 0xAF, 0x34, 0xFA, 0x5E, 0x25, 0xFA, 0x7A, 0x53, 0x66, 0xCE, 0x76,
        0xCE, 0x39, 0x25, 0x9B, 0x46, 0x6A])]\<rparr>"

definition curl_hello :: client_hello where
  "curl_hello =
    \<lparr>ch_version = 0x0303,
     ch_random =
      [0xBC, 0xB6, 0x18, 0xF4, 0x6F, 0x63, 0xB8, 0xAF, 0x92, 0x77, 0xD1, 0x1F, 0x1C, 0x50, 0x86, 0xB6,
       0x6A, 0x97, 0x24, 0x61, 0x50, 0xED, 0x1A, 0x26, 0x15, 0x9A, 0xDC, 0x98, 0xA2, 0x4A, 0x85, 0xAC],
     ch_session_id =
      [0x6E, 0x34, 0xF7, 0xB8, 0xD5, 0x35, 0x21, 0x21, 0x7E, 0x9E, 0x05, 0xA7, 0xFB, 0x83, 0x09, 0xE5,
       0xD4, 0x5D, 0xC0, 0x54, 0x15, 0x8A, 0x74, 0xD3, 0x73, 0x77, 0xCE, 0xBA, 0x11, 0x99, 0xBC, 0x4C],
     ch_cipher_suites =
      [0x13, 0x02, 0x13, 0x03, 0x13, 0x01, 0xC0, 0x2C, 0xC0, 0x30, 0x00, 0x9F, 0xCC, 0xA9, 0xCC, 0xA8,
       0xCC, 0xAA, 0xC0, 0x2B, 0xC0, 0x2F, 0x00, 0x9E, 0xC0, 0x24, 0xC0, 0x28, 0x00, 0x6B, 0xC0, 0x23,
       0xC0, 0x27, 0x00, 0x67, 0xC0, 0x0A, 0xC0, 0x14, 0x00, 0x39, 0xC0, 0x09, 0xC0, 0x13, 0x00, 0x33,
       0x00, 0x9D, 0x00, 0x9C, 0x00, 0x3D, 0x00, 0x3C, 0x00, 0x35, 0x00, 0x2F, 0x00, 0xFF],
     ch_compression = [0x00],
     ch_extensions = Some
      [(0, [0x00, 0x13, 0x00, 0x00, 0x10, 0x63, 0x75, 0x72, 0x6C, 0x2E, 0x65, 0x78, 0x61, 0x6D, 0x70, 0x6C,
        0x65, 0x2E, 0x63, 0x6F, 0x6D]),
       (11, [0x03, 0x00, 0x01, 0x02]),
       (10, [0x00, 0x14, 0x00, 0x1D, 0x00, 0x17, 0x00, 0x1E, 0x00, 0x19, 0x00, 0x18, 0x01, 0x00, 0x01, 0x01,
        0x01, 0x02, 0x01, 0x03, 0x01, 0x04]),
       (16, [0x00, 0x0C, 0x02, 0x68, 0x32, 0x08, 0x68, 0x74, 0x74, 0x70, 0x2F, 0x31, 0x2E, 0x31]),
       (22, []),
       (23, []),
       (49, []),
       (13, [0x00, 0x28, 0x04, 0x03, 0x05, 0x03, 0x06, 0x03, 0x08, 0x07, 0x08, 0x08, 0x08, 0x09, 0x08, 0x0A,
        0x08, 0x0B, 0x08, 0x04, 0x08, 0x05, 0x08, 0x06, 0x04, 0x01, 0x05, 0x01, 0x06, 0x01, 0x03, 0x03,
        0x03, 0x01, 0x03, 0x02, 0x04, 0x02, 0x05, 0x02, 0x06, 0x02]),
       (43, [0x04, 0x03, 0x04, 0x03, 0x03]),
       (45, [0x01, 0x01]),
       (51, [0x00, 0x24, 0x00, 0x1D, 0x00, 0x20, 0xCC, 0x51, 0x6F, 0x9A, 0xFA, 0x13, 0x01, 0x24, 0x37, 0x88,
        0x2E, 0xEB, 0x7D, 0x6A, 0x13, 0x97, 0xD7, 0x48, 0x47, 0xD8, 0xD7, 0x92, 0xDC, 0x9C, 0x5E, 0x05,
        0xB8, 0x74, 0x54, 0xE1, 0x8F, 0x6C]),
       (21, curl_padding)]\<rparr>"

definition firefox_hello :: client_hello where
  "firefox_hello =
    \<lparr>ch_version = 0x0303,
     ch_random =
      [0xC1, 0x58, 0x54, 0x25, 0xBD, 0xBD, 0xB6, 0x57, 0x24, 0xD1, 0xB1, 0x5C, 0xFE, 0x80, 0x77, 0x37,
       0x9B, 0xE3, 0xC0, 0xC6, 0x70, 0x60, 0xAC, 0xC4, 0xD6, 0x24, 0x28, 0x4D, 0xCD, 0xF7, 0x92, 0x26],
     ch_session_id =
      [0x1B, 0x73, 0xC7, 0xEC, 0xA9, 0x66, 0x1C, 0x73, 0x97, 0x68, 0x19, 0x75, 0x73, 0xF3, 0x6A, 0xA1,
       0x3C, 0x1F, 0xDF, 0xA5, 0x15, 0x75, 0x21, 0xE5, 0xBB, 0xDF, 0x07, 0x54, 0x21, 0x18, 0xAA, 0xD0],
     ch_cipher_suites =
      [0x13, 0x01, 0x13, 0x03, 0x13, 0x02, 0xC0, 0x2B, 0xC0, 0x2F, 0xCC, 0xA9, 0xCC, 0xA8, 0xC0, 0x2C,
       0xC0, 0x30, 0xC0, 0x13, 0xC0, 0x14, 0x00, 0x9C, 0x00, 0x9D, 0x00, 0x2F, 0x00, 0x35],
     ch_compression = [0x00],
     ch_extensions = Some
      [(0, [0x00, 0x14, 0x00, 0x00, 0x11, 0x66, 0x69, 0x72, 0x65, 0x66, 0x6F, 0x78, 0x2E, 0x6C, 0x6F, 0x63,
        0x61, 0x6C, 0x68, 0x6F, 0x73, 0x74]),
       (23, []),
       (65281, [0x00]),
       (10, [0x00, 0x0A, 0x11, 0xEC, 0x00, 0x1D, 0x00, 0x17, 0x00, 0x18, 0x00, 0x19]),
       (11, [0x01, 0x00]),
       (35, []),
       (16, [0x00, 0x0C, 0x02, 0x68, 0x32, 0x08, 0x68, 0x74, 0x74, 0x70, 0x2F, 0x31, 0x2E, 0x31]),
       (5, [0x01, 0x00, 0x00, 0x00, 0x00]),
       (34, [0x00, 0x08, 0x04, 0x03, 0x05, 0x03, 0x06, 0x03, 0x02, 0x03]),
       (18, []),
       (51, firefox_key_shares),
       (43, [0x04, 0x03, 0x04, 0x03, 0x03]),
       (13, [0x00, 0x16, 0x04, 0x03, 0x05, 0x03, 0x06, 0x03, 0x08, 0x04, 0x08, 0x05, 0x08, 0x06, 0x04, 0x01,
        0x05, 0x01, 0x06, 0x01, 0x02, 0x03, 0x02, 0x01]),
       (45, [0x01, 0x01]),
       (28, [0x40, 0x01]),
       (27, [0x06, 0x00, 0x01, 0x00, 0x02, 0x00, 0x03]),
       (65037, firefox_ech)]\<rparr>"

section \<open>The captures are encodings\<close>

lemma enc_vec16_length:
  "length v = n \<Longrightarrow> n < 65536 \<Longrightarrow> enc_vec16 v = of_nat (n div 256) # of_nat (n mod 256) # v"
  by (simp add: enc_vec16_def to_be_bytes16_def unat_of_nat)

lemma length_curl_padding: "length curl_padding = 177"
  by (simp add: curl_padding_def)

lemma length_firefox_key_shares: "length firefox_key_shares = 1327"
  by (simp add: firefox_key_shares_def)

lemma length_firefox_ech: "length firefox_ech = 282"
  by (simp add: firefox_ech_def)

lemmas capture_lengths =
  enc_vec16_length length_curl_padding length_firefox_key_shares length_firefox_ech

lemmas capture_encoding =
  enc_record_def enc_handshake_def enc_u24_def enc_hello_def enc_vec8_def to_be_bytes16_def capture_lengths

text \<open>What the general theorems need of a capture.\<close>

definition captures :: "fixture \<Rightarrow> client_hello \<Rightarrow> bool" where
  "captures f h \<longleftrightarrow>
     fx_wire f = enc_record (1, enc_handshake (enc_hello h)) \<and> wf_hello h \<and>
     hello_sni h = Ok (Some (Hostname (fx_sni f))) \<and> length (enc_hello h) \<le> 16000"

lemma version_major: "drop_bit 8 (0x0303 :: u16) = 3"
proof -
  have "(0x0303 :: u16) = word_of_int 771" by simp
  then show ?thesis by code_simp
qed

lemma capture_name:
  assumes "dns_name name" "parse_ip_addr name = None" "data = enc_vec16 (enc_names [(0, bytes_of_string name)])"
  shows "parse_server_name data = Ok (Some (Hostname name))"
proof -
  have "hostname_parse name = Ok (Hostname name)"
    using hostname_parse_valid [of "Hostname name"] assms(1,2) by (simp add: valid_hostname_def)
  from parse_server_name_single [OF this] assms(3) show ?thesis by simp
qed

lemma openssl_captured: "captures (FIXTURES ! 0) openssl_hello"
  unfolding captures_def
proof (intro conjI)
  show "fx_wire (FIXTURES ! 0) = enc_record (1, enc_handshake (enc_hello openssl_hello))"
    by (simp add: FIXTURES_def openssl_bin_def openssl_hello_def capture_encoding)
  show "wf_hello openssl_hello" "length (enc_hello openssl_hello) \<le> 16000"
    by (simp_all add: wf_hello_def enc_hello_def openssl_hello_def capture_lengths version_major)
  have "dns_name ''openssl.example.com''" by code_simp
  moreover have "parse_ip_addr ''openssl.example.com'' = None" by (rule parse_ip_addr_no_colon) code_simp+
  moreover have "the (map_of (the (ch_extensions openssl_hello)) 0) =
      enc_vec16 (enc_names [(0, bytes_of_string ''openssl.example.com'')])"
    by (simp add: openssl_hello_def bytes_of_string_def enc_vec16_length)
  ultimately have "parse_server_name (the (map_of (the (ch_extensions openssl_hello)) 0)) =
      Ok (Some (Hostname ''openssl.example.com''))" by (rule capture_name)
  then show "hello_sni openssl_hello = Ok (Some (Hostname (fx_sni (FIXTURES ! 0))))"
    by (simp add: hello_sni_def openssl_hello_def FIXTURES_def)
qed

lemma curl_captured: "captures (FIXTURES ! 1) curl_hello"
  unfolding captures_def
proof (intro conjI)
  show "fx_wire (FIXTURES ! 1) = enc_record (1, enc_handshake (enc_hello curl_hello))"
    by (simp add: FIXTURES_def curl_bin_def curl_hello_def capture_encoding)
  show "wf_hello curl_hello" "length (enc_hello curl_hello) \<le> 16000"
    by (simp_all add: wf_hello_def enc_hello_def curl_hello_def capture_lengths version_major)
  have "dns_name ''curl.example.com''" by code_simp
  moreover have "parse_ip_addr ''curl.example.com'' = None" by (rule parse_ip_addr_no_colon) code_simp+
  moreover have "the (map_of (the (ch_extensions curl_hello)) 0) =
      enc_vec16 (enc_names [(0, bytes_of_string ''curl.example.com'')])"
    by (simp add: curl_hello_def bytes_of_string_def enc_vec16_length)
  ultimately have "parse_server_name (the (map_of (the (ch_extensions curl_hello)) 0)) =
      Ok (Some (Hostname ''curl.example.com''))" by (rule capture_name)
  then show "hello_sni curl_hello = Ok (Some (Hostname (fx_sni (FIXTURES ! 1))))"
    by (simp add: hello_sni_def curl_hello_def FIXTURES_def)
qed

lemma firefox_captured: "captures (FIXTURES ! 2) firefox_hello"
  unfolding captures_def
proof (intro conjI)
  show "fx_wire (FIXTURES ! 2) = enc_record (1, enc_handshake (enc_hello firefox_hello))"
    by (simp add: FIXTURES_def firefox_bin_def firefox_hello_def capture_encoding)
  show "wf_hello firefox_hello" "length (enc_hello firefox_hello) \<le> 16000"
    by (simp_all add: wf_hello_def enc_hello_def firefox_hello_def capture_lengths version_major)
  have "dns_name ''firefox.localhost''" by code_simp
  moreover have "parse_ip_addr ''firefox.localhost'' = None" by (rule parse_ip_addr_no_colon) code_simp+
  moreover have "the (map_of (the (ch_extensions firefox_hello)) 0) =
      enc_vec16 (enc_names [(0, bytes_of_string ''firefox.localhost'')])"
    by (simp add: firefox_hello_def bytes_of_string_def enc_vec16_length)
  ultimately have "parse_server_name (the (map_of (the (ch_extensions firefox_hello)) 0)) =
      Ok (Some (Hostname ''firefox.localhost''))" by (rule capture_name)
  then show "hello_sni firefox_hello = Ok (Some (Hostname (fx_sni (FIXTURES ! 2))))"
    by (simp add: hello_sni_def firefox_hello_def FIXTURES_def)
qed

section \<open>What the tests assert, for any capture\<close>

lemma captures_carries:
  assumes "captures f h"
  shows "carries [(1, enc_handshake (enc_hello h))] (enc_hello h)"
  using assms by (simp add: captures_def carries_def)

lemma captures_body:
  "captures f h \<Longrightarrow> parse_client_hello_body (enc_hello h) = Ok (Some (Hostname (fx_sni f)))"
  by (simp add: captures_def parse_body_enc)

lemma captures_wire: "captures f h \<Longrightarrow> fx_wire f = enc_records [(1, enc_handshake (enc_hello h))]"
  by (simp add: captures_def)

lemma captures_handshake: "captures f h \<Longrightarrow> handshake_of (fx_wire f) = enc_handshake (enc_hello h)"
  by (simp add: captures_def handshake_of_def enc_record_def capture_lengths(1) RECORD_HEADER_LEN_def)

lemma default_limits: "max_records hello_limits_default = 32" "max_handshake_bytes hello_limits_default = 32768"
  by (simp_all add: hello_limits_default_def)

lemma captures_small: "captures f h \<Longrightarrow> length (enc_hello h) \<le> max_handshake_bytes hello_limits_default"
  by (simp add: captures_def default_limits)

text \<open>Any records that carry the hello, up to the limit, parse to the name.\<close>

lemma captures_parse:
  assumes "captures f h" "carries rs (enc_hello h)" "length rs \<le> 32"
  shows "parse_client_hello (enc_records rs) hello_limits_default =
    Some (Ok \<lparr>info_sni = Some (Hostname (fx_sni f)), info_consumed = length (enc_records rs)\<rparr>)"
  using parse_client_hello_carries [of rs "enc_hello h" hello_limits_default "[]"]
    assms captures_small [OF assms(1)] captures_body [OF assms(1)] by (simp add: default_limits)

lemma captures_prefix:
  assumes "captures f h" "k < length (fx_wire f)"
  shows "parse_client_hello (take k (fx_wire f)) hello_limits_default = Some (Err Incomplete)"
  using hello_of_wire_prefix [OF captures_carries [OF assms(1)], of hello_limits_default k]
    captures_small [OF assms(1)] assms captures_wire [OF assms(1)]
  by (simp add: parse_client_hello_eq default_limits)

lemma captures_split:
  assumes "captures f h" "1 \<le> k" "k < length (handshake_of (fx_wire f))"
  shows "\<exists>rs. records_from_splits (handshake_of (fx_wire f)) [k] = Some (enc_records rs) \<and>
    carries rs (enc_hello h) \<and> length rs = 2"
proof -
  let ?hs = "enc_handshake (enc_hello h)"
  have len: "length ?hs \<le> 16004" using assms(1) by (simp add: captures_def)
  have k: "k < length ?hs" using assms captures_handshake [OF assms(1)] by simp
  have "records_from_splits ?hs [k] = Some (enc_records [(1, take k ?hs), (1, drop k ?hs)])"
    using k len by (simp add: records_from_splits_def slice_def push_record_def push_vec_enc enc_record_def)
  moreover have "carries [(1, take k ?hs), (1, drop k ?hs)] (enc_hello h)"
    using k len assms(1,2) by (simp add: carries_def captures_def)
  ultimately show ?thesis using captures_handshake [OF assms(1)]
    by (intro exI [of _ "[(1, take k ?hs), (1, drop k ?hs)]"]) simp
qed

lemma div_ceil_cover: "0 < b \<Longrightarrow> a \<le> b * div_ceil a b"
proof -
  assume b: "0 < b"
  have split: "a = b * (a div b) + a mod b" by simp
  have "a mod b < b" using b by simp
  then have "a \<le> b * (a div b) + b" using split by linarith
  show ?thesis
  proof (cases "a mod b = 0")
    case True
    with split show ?thesis by (simp add: div_ceil_def)
  next
    case False
    with \<open>a \<le> b * (a div b) + b\<close> show ?thesis by (simp add: div_ceil_def)
  qed
qed

lemma captures_chunked:
  assumes "captures f h"
  shows "\<exists>rs. records_of (handshake_of (fx_wire f)) (div_ceil (length (handshake_of (fx_wire f))) 32) =
      Some (enc_records rs) \<and> carries rs (enc_hello h) \<and> length rs \<le> 32"
proof -
  let ?hs = "enc_handshake (enc_hello h)"
  let ?n = "div_ceil (length ?hs) 32"
  have hs: "handshake_of (fx_wire f) = ?hs" by (rule captures_handshake [OF assms])
  have len: "length ?hs \<le> 16004" and pos: "0 < length ?hs"
    using assms by (simp_all add: captures_def)
  have cover: "length ?hs \<le> 32 * ?n" by (rule div_ceil_cover) simp
  with pos have n: "0 < ?n" by (cases ?n) auto
  have small: "?n \<le> 16384" using len div_le_mono [OF len, of 32] by (simp add: div_ceil_def)
  have "length c < 65536" if "c \<in> set (chunks ?hs ?n)" for c
    using chunks_size [OF that] small by simp
  then have "records_of ?hs ?n = Some (enc_records (map (Pair 1) (chunks ?hs ?n)))"
    using n by (simp add: records_of_def push_records_enc)
  moreover have "carries (map (Pair 1) (chunks ?hs ?n)) (enc_hello h)"
    using carries_chunks [OF _ n small, of "enc_hello h" 1] assms by (simp add: captures_def)
  moreover have "length (chunks ?hs ?n) \<le> 32" by (rule length_chunks [OF n cover])
  ultimately show ?thesis unfolding hs by (intro exI [of _ "map (Pair 1) (chunks ?hs ?n)"]) simp
qed

lemma FIXTURES_captured: "f \<in> set FIXTURES \<Longrightarrow> \<exists>h. captures f h"
  using openssl_captured curl_captured firefox_captured by (auto simp: FIXTURES_def)

section \<open>Properties\<close>

text \<open>C20 (real\_hellos): every test over the captured hellos passes: they parse to their server name and
are consumed entirely, each strict prefix of each is \<open>Incomplete\<close>, every split into two records and the
finest fragmentation the record limit allows parse to the same name, and no corrupted byte panics.\<close>

theorem real_hellos:
  "real_clients_parse_under_default_limits \<and> post_quantum_hello_is_the_large_case \<and>
   every_prefix_of_real_hellos_is_incomplete \<and> every_two_record_split_of_real_hellos_parses \<and>
   real_hellos_fragmented_to_the_record_limit_parse \<and> single_byte_corruption_of_real_hellos_never_panics"
proof (intro conjI)
  show real_clients_parse_under_default_limits
    using captures_parse [OF _ captures_carries] captures_wire FIXTURES_captured
    by (fastforce simp: real_clients_parse_under_default_limits_def list_all_iff parsed_def)
  show post_quantum_hello_is_the_large_case
    by (simp add: post_quantum_hello_is_the_large_case_def FIXTURES_def firefox_bin_def capture_lengths)
  show every_prefix_of_real_hellos_is_incomplete
    using captures_prefix FIXTURES_captured
    by (fastforce simp: every_prefix_of_real_hellos_is_incomplete_def list_all_iff)
  show every_two_record_split_of_real_hellos_parses
    unfolding every_two_record_split_of_real_hellos_parses_def list_all_iff Let_def
  proof (intro ballI)
    fix f k assume "f \<in> set FIXTURES" "k \<in> set [1..<length (handshake_of (fx_wire f))]"
    with FIXTURES_captured captures_split obtain h rs where
      "captures f h" "records_from_splits (handshake_of (fx_wire f)) [k] = Some (enc_records rs)"
      "carries rs (enc_hello h)" "length rs = 2" by (metis atLeastLessThan_iff set_upt)
    then show "parsed (records_from_splits (handshake_of (fx_wire f)) [k])
        (\<lambda>info. map_option as_str (info_sni info) = Some (fx_sni f))"
      using captures_parse [of f h rs] by (simp add: parsed_def)
  qed
  show real_hellos_fragmented_to_the_record_limit_parse
    unfolding real_hellos_fragmented_to_the_record_limit_parse_def list_all_iff Let_def default_limits
  proof (intro ballI)
    fix f assume "f \<in> set FIXTURES"
    with FIXTURES_captured obtain h where h: "captures f h" by blast
    from captures_chunked [OF this] captures_parse [OF h] show
      "parsed (records_of (handshake_of (fx_wire f)) (div_ceil (length (handshake_of (fx_wire f))) 32)) (\<lambda>_. True)"
      by (fastforce simp: parsed_def)
  qed
  show single_byte_corruption_of_real_hellos_never_panics
    by (simp add: single_byte_corruption_of_real_hellos_never_panics_def list_all_iff parse_client_hello_eq)
qed

end
