(* ===== verification/Parser_Tests.thy ===== *)
theory Parser_Tests
  imports Captures Name_Tests
begin

text \<open>
  The unit tests of \<open>protocol/reader.rs\<close>, \<open>protocol/record.rs\<close> and \<open>protocol/hello.rs\<close> as
  propositions about the model, each proved. The wires are those the ClientHello builder makes; the
  theorems on the wire grammar decide the tests that range over all prefixes, splits and mutations.
\<close>

section \<open>Reader tests\<close>

definition short_reads_return_none_without_consuming_past_end :: bool where
  "short_reads_return_none_without_consuming_past_end \<longleftrightarrow>
     reader_vec16 [0x00, 0x05, 0xaa] = None \<and> reader_u8 [] = None \<and> reader_u16 [1] = None"

lemma short_reads_return_none_without_consuming_past_end_passes:
  short_reads_return_none_without_consuming_past_end
  by code_simp

definition length_prefixed_vectors_split_correctly :: bool where
  "length_prefixed_vectors_split_correctly \<longleftrightarrow>
     (case reader_vec8 [0x02, 0xaa, 0xbb, 0x00, 0x01, 0xcc] of
        Some (a, r) \<Rightarrow> a = [0xaa, 0xbb] \<and> reader_vec16 r = Some ([0xcc], [])
      | None \<Rightarrow> False)"

lemma length_prefixed_vectors_split_correctly_passes: length_prefixed_vectors_split_correctly
  by code_simp

section \<open>The tests' helpers\<close>

text \<open>\<open>sni(buf)\<close> of the record tests, and \<open>parse(builder)\<close> of the hello tests.\<close>

definition sni_of :: "byte list \<Rightarrow> (string option, parse_error) result option" where
  "sni_of buf =
     map_option (map_ok (\<lambda>info. map_option as_str (info_sni info))) (parse_client_hello buf hello_limits_default)"

definition parse_built :: "client_hello_builder \<Rightarrow> (string option, parse_error) result option" where
  "parse_built builder = Option.bind (builder_build builder) sni_of"

definition with_wire :: "byte list option \<Rightarrow> (byte list \<Rightarrow> bool) \<Rightarrow> bool" where
  "with_wire wire P = (case wire of None \<Rightarrow> False | Some w \<Rightarrow> P w)"

abbreviation sni_builder :: "string \<Rightarrow> client_hello_builder" where
  "sni_builder name \<equiv> builder_sni builder_new name"

lemma sni_of_eq: "sni_of buf = Some (map_ok (\<lambda>info. map_option as_str (info_sni info)) (hello_of_wire hello_limits_default buf))"
  by (simp add: sni_of_def parse_client_hello_eq)

lemma map_ok_twice [simp]: "map_ok f (map_ok g r) = map_ok (\<lambda>x. f (g x)) r"
  by (cases r) simp_all

lemma sni_of_carries:
  assumes "carries rs body" "length rs \<le> 32" "length body \<le> 32768"
  shows "sni_of (enc_records rs @ tail) = Some (map_ok (map_option as_str) (parse_client_hello_body body))"
  using hello_of_wire_enc [OF assms(1), of hello_limits_default tail] assms(2,3)
  by (simp add: sni_of_eq default_limits)

lemma parse_built_body:
  assumes "builder_body b = Some body" "length body \<le> 32768"
  shows "parse_built b = Some (map_ok (map_option as_str) (parse_client_hello_body body))"
proof -
  obtain rs where rs: "builder_build b = Some (enc_records rs)" "carries rs body"
    and few: "length body + 4 \<le> k * MAX_RECORD_PAYLOAD \<Longrightarrow> length rs \<le> k" for k
    using builder_build_enc [OF assms(1)] assms(2) by auto
  have "length rs \<le> 32" using few [of 3] assms(2) by (simp add: MAX_RECORD_PAYLOAD_def)
  with sni_of_carries [OF rs(2), of "[]"] assms(2) rs(1) show ?thesis by (simp add: parse_built_def)
qed

section \<open>The hello the builder makes for a name\<close>

definition plain_host :: "string \<Rightarrow> string \<Rightarrow> bool" where
  "plain_host name lower \<longleftrightarrow> to_ascii_lowercase name = lower \<and> plain_name lower"

abbreviation name_hello :: "string \<Rightarrow> client_hello" where
  "name_hello name \<equiv> builder_hello (sni_builder name)"

definition built :: "string \<Rightarrow> string \<Rightarrow> fixture" where
  "built name lower = \<lparr>fx_name = name, fx_wire = enc_record (1, enc_handshake (enc_hello (name_hello name))),
     fx_sni = lower\<rparr>"

lemma plain_host_parses: "plain_host name lower \<Longrightarrow> hostname_parse name = Ok (Hostname lower)"
  by (simp add: plain_host_def hostname_parses)

lemma built_length:
  assumes "plain_host name lower"
  shows "length (enc_hello (name_hello name)) = 86 + length name" "length name \<le> 253"
  using builder_new_wf(3) [OF plain_host_parses [OF assms]]
    hostname_parse_length [OF plain_host_parses [OF assms]] by simp_all

lemma built_captures:
  assumes "plain_host name lower"
  shows "captures (built name lower) (name_hello name)"
  using builder_new_wf(2) [OF plain_host_parses [OF assms]] built_length [OF assms]
    builder_sni_hello [OF plain_host_parses [OF assms], of builder_new]
  by (simp add: captures_def built_def builder_new_def)

lemma built_handshake:
  assumes "plain_host name lower"
  shows "builder_handshake (sni_builder name) = Some (enc_handshake (enc_hello (name_hello name)))"
  using builder_handshake_enc [OF builder_body_enc [OF builder_new_wf(1,2) [OF plain_host_parses [OF assms]]]]
    built_length [OF assms] by simp

lemma built_wire:
  assumes "plain_host name lower"
  shows "builder_build (sni_builder name) = Some (fx_wire (built name lower))"
proof -
  let ?hs = "enc_handshake (enc_hello (name_hello name))"
  have len: "length ?hs \<le> 16384" and ne: "?hs \<noteq> []"
    using built_length [OF assms] by (simp, simp add: enc_handshake_def)
  have "chunks ?hs 16384 = [?hs]" using len ne by (subst chunks.simps) (simp add: chunks.simps)
  then show ?thesis
    using len by (simp add: builder_build_def built_handshake [OF assms] records_of_def MAX_RECORD_PAYLOAD_def
        push_record_def push_vec_enc enc_record_def built_def)
qed

lemma built_parses:
  assumes "plain_host name lower"
  shows "hello_of_wire hello_limits_default (fx_wire (built name lower) @ tail) =
    Ok \<lparr>info_sni = Some (Hostname lower), info_consumed = length (fx_wire (built name lower))\<rparr>"
proof -
  note c = built_captures [OF assms]
  have w: "fx_wire (built name lower) = enc_records [(1, enc_handshake (enc_hello (name_hello name)))]"
    by (rule captures_wire [OF c])
  show ?thesis unfolding w
    using hello_of_wire_enc [OF captures_carries [OF c], of hello_limits_default tail]
      captures_small [OF c] captures_body [OF c] by (simp add: default_limits built_def)
qed

lemma test_hosts:
  "plain_host ''Example.COM'' ''example.com''" "plain_host ''a.test'' ''a.test''"
  "plain_host ''prefix.example.com'' ''prefix.example.com''"
  "plain_host ''split.example.com'' ''split.example.com''" "plain_host ''a.b'' ''a.b''"
  "plain_host ''r.test'' ''r.test''" "plain_host ''big.example.com'' ''big.example.com''"
  "plain_host ''fuzz.example.com'' ''fuzz.example.com''" "plain_host ''many.test'' ''many.test''"
  by code_simp+

section \<open>Record tests\<close>

definition parses_single_record_hello :: bool where
  "parses_single_record_hello \<longleftrightarrow>
     with_wire (builder_build (sni_builder ''Example.COM'')) (\<lambda>wire.
       case parse_client_hello wire hello_limits_default of
         Some (Ok info) \<Rightarrow> map_option as_str (info_sni info) = Some ''example.com'' \<and> info_consumed info = length wire
       | _ \<Rightarrow> False)"

lemma parses_single_record_hello_passes: parses_single_record_hello
  using built_wire [OF test_hosts(1)] built_parses [OF test_hosts(1), of "[]"]
  by (simp add: parses_single_record_hello_def with_wire_def parse_client_hello_eq)

definition hello_without_sni_parses_with_none :: bool where
  "hello_without_sni_parses_with_none \<longleftrightarrow> parse_built builder_new = Some (Ok None)"

lemma builder_new_bare:
  "plain_builder builder_new" "wf_hello (builder_hello builder_new)"
  "length (enc_hello (builder_hello builder_new)) \<le> 32768" "hello_sni (builder_hello builder_new) = Ok None"
  by (simp_all add: plain_builder_def builder_new_def wf_hello_def builder_hello_def builder_exts_def enc_hello_def
      hello_sni_def version_major)

lemma hello_without_sni_parses_with_none_passes: hello_without_sni_parses_with_none
  using parse_built_body [OF builder_body_enc [OF builder_new_bare(1,2)] builder_new_bare(3)]
  by (simp add: hello_without_sni_parses_with_none_def parse_body_enc builder_new_bare)

definition consumed_excludes_trailing_bytes :: bool where
  "consumed_excludes_trailing_bytes \<longleftrightarrow>
     with_wire (builder_build (sni_builder ''a.test'')) (\<lambda>wire.
       case parse_client_hello (wire @ [0x17, 0x03, 0x03, 0x00, 0x01, 0xff]) hello_limits_default of
         Some (Ok info) \<Rightarrow> info_consumed info = length wire
       | _ \<Rightarrow> False)"

lemma consumed_excludes_trailing_bytes_passes: consumed_excludes_trailing_bytes
  using built_wire [OF test_hosts(2)] built_parses [OF test_hosts(2)]
  by (simp add: consumed_excludes_trailing_bytes_def with_wire_def parse_client_hello_eq)

definition every_prefix_is_incomplete :: bool where
  "every_prefix_is_incomplete \<longleftrightarrow>
     with_wire (builder_build (sni_builder ''prefix.example.com'')) (\<lambda>wire.
       list_all (\<lambda>k. parse_client_hello (take k wire) hello_limits_default = Some (Err Incomplete))
         [0..<length wire])"

lemma every_prefix_is_incomplete_passes: every_prefix_is_incomplete
  using built_wire [OF test_hosts(3)] captures_prefix [OF built_captures [OF test_hosts(3)]]
  by (simp add: every_prefix_is_incomplete_def with_wire_def list_all_iff)

definition every_two_record_split_parses_the_same :: bool where
  "every_two_record_split_parses_the_same \<longleftrightarrow>
     with_wire (builder_handshake (sni_builder ''split.example.com'')) (\<lambda>handshake.
       list_all (\<lambda>k. with_wire (records_from_splits handshake [k]) (\<lambda>wire.
         sni_of wire = Some (Ok (Some ''split.example.com'')))) [1..<length handshake])"

lemma every_two_record_split_parses_the_same_passes: every_two_record_split_parses_the_same
proof -
  note c = built_captures [OF test_hosts(4)]
  have hs: "handshake_of (fx_wire (built ''split.example.com'' ''split.example.com'')) =
      enc_handshake (enc_hello (name_hello ''split.example.com''))" by (rule captures_handshake [OF c])
  have "with_wire (records_from_splits (enc_handshake (enc_hello (name_hello ''split.example.com''))) [k])
      (\<lambda>wire. sni_of wire = Some (Ok (Some ''split.example.com'')))"
    if "1 \<le> k" "k < length (enc_handshake (enc_hello (name_hello ''split.example.com'')))" for k
  proof -
    from captures_split [OF c, unfolded hs, OF that] obtain rs where rs:
      "records_from_splits (enc_handshake (enc_hello (name_hello ''split.example.com''))) [k] = Some (enc_records rs)"
      "carries rs (enc_hello (name_hello ''split.example.com''))" "length rs = 2" by blast
    from sni_of_carries [OF rs(2), of "[]"] rs captures_small [OF c] captures_body [OF c] show ?thesis
      by (simp add: with_wire_def default_limits built_def)
  qed
  then show ?thesis
    by (simp add: every_two_record_split_parses_the_same_def built_handshake [OF test_hosts(4)] with_wire_def list_all_iff)
qed

definition corrupting_length_bytes_never_panics :: bool where
  "corrupting_length_bytes_never_panics \<longleftrightarrow>
     with_wire (builder_build (sni_builder ''fuzz.example.com'')) (\<lambda>wire.
       list_all (\<lambda>index. list_all (\<lambda>v.
         parse_client_hello (wire[index := v]) hello_limits_default \<noteq> None)
         [0x00, 0x01, 0x7f, 0x80, 0xfe, 0xff]) [0..<length wire])"

lemma corrupting_length_bytes_never_panics_passes: corrupting_length_bytes_never_panics
  by (simp add: corrupting_length_bytes_never_panics_def with_wire_def built_wire [OF test_hosts(8)] list_all_iff
      parse_client_hello_eq)

section \<open>Splits into many records\<close>

text \<open>The fragments \<open>records_from_splits\<close> cuts a handshake into.\<close>

fun pieces :: "byte list \<Rightarrow> nat \<Rightarrow> nat list \<Rightarrow> byte list list" where
  "pieces hs start [] = []"
| "pieces hs start (split # splits) = take (split - start) (drop start hs) # pieces hs split splits"

lemma push_splits_pieces:
  assumes "sorted (start # splits)" "\<forall>s \<in> set splits. s \<le> length hs" "length hs < 65536"
  shows "push_splits hs wire start splits = Some (wire @ enc_records (map (Pair 1) (pieces hs start splits)))"
  using assms
proof (induction splits arbitrary: wire start)
  case (Cons split splits)
  then have "slice hs start split = Some (take (split - start) (drop start hs))"
    by (simp add: slice_def)
  moreover have "push_record wire (take (split - start) (drop start hs)) =
      Some (wire @ enc_record (1, take (split - start) (drop start hs)))"
    using Cons.prems by (simp add: push_record_def push_vec_enc enc_record_def)
  moreover have "push_splits hs w split splits = Some (w @ enc_records (map (Pair 1) (pieces hs split splits)))" for w
    by (rule Cons.IH) (use Cons.prems in auto)
  ultimately show ?case by simp
qed simp

lemma length_pieces [simp]: "length (pieces hs start splits) = length splits"
  by (induction splits arbitrary: start) simp_all

lemma concat_pieces:
  "sorted (start # splits) \<Longrightarrow> concat (pieces hs start splits) = take (last (start # splits) - start) (drop start hs)"
proof (induction splits arbitrary: start)
  case (Cons split splits)
  then have le: "start \<le> split" "split \<le> last (split # splits)" by auto
  then have "take (last (split # splits) - start) (drop start hs) =
      take (split - start) (drop start hs) @ take (last (split # splits) - split) (drop (split - start) (drop start hs))"
    using take_add [of "split - start" "last (split # splits) - split" "drop start hs"] by simp
  with Cons le show ?case by simp
qed simp

lemma pieces_sizes:
  "sorted_wrt (<) (start # splits) \<Longrightarrow> \<forall>s \<in> set splits. s \<le> length hs \<Longrightarrow>
   \<forall>f \<in> set (pieces hs start splits). 0 < length f \<and> length f \<le> length hs"
proof (induction splits arbitrary: start)
  case (Cons split splits)
  then have "\<forall>f \<in> set (pieces hs split splits). 0 < length f \<and> length f \<le> length hs" by auto
  with Cons.prems show ?case by auto
qed simp

text \<open>Fragments that together are the handshake, none of them empty, carry the body.\<close>

lemma carries_fragments:
  assumes "concat fs = enc_handshake body" "\<forall>f \<in> set fs. 0 < length f \<and> length f \<le> 16384" "length body < 16777216"
  shows "carries (map (Pair 1) fs) body"
proof -
  have ne: "fs \<noteq> []" using assms(1) by (auto simp: enc_handshake_def)
  have pay: "record_payloads (map (Pair 1) gs) = concat gs" for gs
    by (simp add: record_payloads_def comp_def)
  have "length (concat (butlast fs)) + length (last fs) = length body + 4"
  proof -
    have "concat fs = concat (butlast fs) @ last fs"
      using ne by (metis append_butlast_last_id concat.simps concat_append append_Nil2)
    then show ?thesis using assms(1) length_enc_handshake [of body] by (metis length_append)
  qed
  moreover have "0 < length (last fs)" using assms(2) ne by simp
  ultimately have "length (concat (butlast fs)) < length body + 4" by linarith
  then show ?thesis
    using assms ne by (simp add: carries_def pay wf_records_def map_butlast [symmetric] list_all_iff)
qed

text \<open>More records than the limit before the hello is complete: the parser gives up.\<close>

lemma hello_over_limit:
  assumes "carries rs body" "max_records limits < length rs"
  shows "hello_of_wire limits (enc_records rs) = Err TooLarge"
  using hello_of_wire_over [OF assms(1), of limits "[]"] assms(2) by simp

definition one_byte_records_parse_up_to_the_record_limit :: bool where
  "one_byte_records_parse_up_to_the_record_limit \<longleftrightarrow>
     with_wire (builder_handshake (sni_builder ''a.b'')) (\<lambda>handshake. with_wire (records_of handshake 1) (\<lambda>wire.
       let generous = hello_limits_default\<lparr>max_records := length handshake\<rparr>;
           tight = hello_limits_default\<lparr>max_records := length handshake - 1\<rparr>
       in (case parse_client_hello wire generous of
             Some (Ok info) \<Rightarrow> map_option as_str (info_sni info) = Some ''a.b''
           | _ \<Rightarrow> False) \<and>
          parse_client_hello wire tight = Some (Err TooLarge)))"

lemma length_chunks_1: "length (chunks xs 1) = length xs"
proof (induction xs)
  case Nil
  then show ?case by (simp add: chunks.simps)
next
  case (Cons x xs)
  have "chunks (x # xs) 1 = [x] # chunks xs 1" by (subst chunks.simps) simp
  with Cons show ?case by simp
qed

lemma one_byte_records_parse_up_to_the_record_limit_passes: one_byte_records_parse_up_to_the_record_limit
proof -
  let ?body = "enc_hello (name_hello ''a.b'')" and ?rs = "map (Pair 1) (chunks (enc_handshake (enc_hello (name_hello ''a.b''))) 1)"
  have body: "length ?body = 89" using built_length [OF test_hosts(5)] by simp
  have c: "carries ?rs ?body" by (rule carries_chunks) (simp_all add: body)
  have len: "length ?rs = 93" using body by (simp add: length_chunks_1 [simplified])
  have "\<forall>f \<in> set (chunks (enc_handshake ?body) 1). length f < 65536" using chunks_size by force
  then have w: "records_of (enc_handshake ?body) 1 = Some (enc_records ?rs)"
    by (simp add: records_of_def push_records_enc)
  have sni: "parse_client_hello_body ?body = Ok (Some (Hostname ''a.b''))"
    using captures_body [OF built_captures [OF test_hosts(5)]] by (simp add: built_def)
  have "hello_of_wire (hello_limits_default\<lparr>max_records := 93\<rparr>) (enc_records ?rs) =
      Ok \<lparr>info_sni = Some (Hostname ''a.b''), info_consumed = length (enc_records ?rs)\<rparr>"
    using hello_of_wire_enc [OF c, of "hello_limits_default\<lparr>max_records := 93\<rparr>" "[]"] len body sni
    by (simp add: default_limits)
  moreover have "hello_of_wire (hello_limits_default\<lparr>max_records := 92\<rparr>) (enc_records ?rs) = Err TooLarge"
    by (rule hello_over_limit [OF c]) (use len body in \<open>simp_all add: default_limits\<close>)
  ultimately show ?thesis
    using w body by (simp add: one_byte_records_parse_up_to_the_record_limit_def with_wire_def
        built_handshake [OF test_hosts(5)] parse_client_hello_eq Let_def)
qed

definition record_limit_is_inclusive :: bool where
  "record_limit_is_inclusive \<longleftrightarrow>
     with_wire (builder_handshake (sni_builder ''r.test'')) (\<lambda>handshake.
       with_wire (records_from_splits handshake [1..<32]) (\<lambda>wire.
         case parse_client_hello wire hello_limits_default of Some (Ok _) \<Rightarrow> True | _ \<Rightarrow> False) \<and>
       with_wire (records_from_splits handshake [1..<33]) (\<lambda>wire.
         parse_client_hello wire hello_limits_default = Some (Err TooLarge)))"

text \<open>A handshake cut into that many records carries its body.\<close>

lemma split_carries:
  assumes "1 \<le> n" "n < length (enc_handshake body)" "length body \<le> 16000"
  shows "\<exists>rs. records_from_splits (enc_handshake body) [1..<n] = Some (enc_records rs) \<and> carries rs body \<and> length rs = n"
proof -
  let ?hs = "enc_handshake body" and ?splits = "[1..<n] @ [length (enc_handshake body)]"
  have ss: "sorted_wrt (<) (0 # ?splits)" using assms(2) by (auto simp: sorted_wrt_append)
  then have s: "sorted (0 # ?splits)" using strict_sorted_imp_sorted by blast
  have le: "\<forall>x \<in> set ?splits. x \<le> length ?hs" using assms(2) by auto
  have "records_from_splits ?hs [1..<n] = Some (enc_records (map (Pair 1) (pieces ?hs 0 ?splits)))"
    using push_splits_pieces [OF s le] assms(3) by (simp add: records_from_splits_def)
  moreover have "carries (map (Pair 1) (pieces ?hs 0 ?splits)) body"
  proof (rule carries_fragments)
    show "concat (pieces ?hs 0 ?splits) = ?hs" using concat_pieces [OF s, of ?hs] by simp
    show "\<forall>f \<in> set (pieces ?hs 0 ?splits). 0 < length f \<and> length f \<le> 16384"
      using pieces_sizes [OF ss le] assms(3) by force
  qed (use assms(3) in simp)
  moreover have "length (pieces ?hs 0 ?splits) = n" using assms(1) by simp
  ultimately show ?thesis by (intro exI [of _ "map (Pair 1) (pieces ?hs 0 ?splits)"]) simp
qed

lemma record_limit_is_inclusive_passes: record_limit_is_inclusive
proof -
  let ?body = "enc_hello (name_hello ''r.test'')"
  have body: "length ?body = 92" using built_length [OF test_hosts(6)] by simp
  obtain rs where rs: "records_from_splits (enc_handshake ?body) [1..<32] = Some (enc_records rs)" "carries rs ?body"
    "length rs = 32" using split_carries [of 32 ?body] body by auto
  obtain rs' where rs': "records_from_splits (enc_handshake ?body) [1..<33] = Some (enc_records rs')" "carries rs' ?body"
    "length rs' = 33" using split_carries [of 33 ?body] body by auto
  have "hello_of_wire hello_limits_default (enc_records rs') = Err TooLarge"
    by (rule hello_over_limit [OF rs'(2)]) (use rs'(3) body in \<open>simp_all add: default_limits\<close>)
  moreover have "is_ok (hello_of_wire hello_limits_default (enc_records rs))"
    using hello_of_wire_enc [OF rs(2), of hello_limits_default "[]"] rs(3) body
      captures_body [OF built_captures [OF test_hosts(6)]] by (simp add: default_limits)
  ultimately show ?thesis
    using rs(1) rs'(1)
    by (cases "hello_of_wire hello_limits_default (enc_records rs)")
      (simp_all add: record_limit_is_inclusive_def with_wire_def built_handshake [OF test_hosts(6)]
        parse_client_hello_eq del: upt_rec_numeral)
qed

section \<open>Malformed records\<close>

definition oversized_declared_length_is_rejected_from_the_header_alone :: bool where
  "oversized_declared_length_is_rejected_from_the_header_alone \<longleftrightarrow>
     (let declared = max_handshake_bytes hello_limits_default + 1
      in parse_client_hello [0x16, 0x03, 0x01, 0x40, 0x00, 0x01, of_nat (drop_bit 16 declared),
           of_nat (drop_bit 8 declared), of_nat declared] hello_limits_default = Some (Err TooLarge))"

lemmas reject_eval = parse_client_hello_eq sni_of_eq hello_of_wire_def check_partial_record_header_def
  check_record_header_def CONTENT_TYPE_HANDSHAKE_def RECORD_VERSION_MAJOR_def MAX_RECORD_PAYLOAD_def header_check_def
  default_limits

lemma oversized_declared_length_is_rejected_from_the_header_alone_passes:
  oversized_declared_length_is_rejected_from_the_header_alone
  by (simp add: oversized_declared_length_is_rejected_from_the_header_alone_def reject_eval Let_def
      reassemble.simps [where rest = "_ # _"] hh_length_bytes)

definition rejects_non_handshake_first_byte_immediately :: bool where
  "rejects_non_handshake_first_byte_immediately \<longleftrightarrow>
     sni_of (bytes_of_string ''G'') = Some (Err NotHandshake) \<and>
     sni_of (bytes_of_string (''GET / HTTP/1.1'' @ [CHR 0x0D, CHR 0x0A])) = Some (Err NotHandshake)"

lemma rejects_non_handshake_first_byte_immediately_passes: rejects_non_handshake_first_byte_immediately
  by (simp add: rejects_non_handshake_first_byte_immediately_def reject_eval bytes_of_string_def
      reassemble.simps [where rest = "_ # _"])

definition rejects_bad_record_headers :: bool where
  "rejects_bad_record_headers \<longleftrightarrow>
     sni_of [0x16, 0x02] = Some (Err InvalidRecord) \<and>
     sni_of [0x16, 0x03, 0x01, 0x00, 0x00] = Some (Err InvalidRecord) \<and>
     sni_of [0x16, 0x03, 0x01, 0x40, 0x01] = Some (Err InvalidRecord)"

lemma rejects_bad_record_headers_passes: rejects_bad_record_headers
  by (simp add: rejects_bad_record_headers_def reject_eval reassemble.simps [where rest = "_ # _"]
      )

definition rejects_non_client_hello_on_first_byte :: bool where
  "rejects_non_client_hello_on_first_byte \<longleftrightarrow>
     sni_of [0x16, 0x03, 0x01, 0x00, 0x10, 0x02] = Some (Err NotClientHello)"

lemma rejects_non_client_hello_on_first_byte_passes: rejects_non_client_hello_on_first_byte
  by (simp add: rejects_non_client_hello_on_first_byte_def reject_eval reassemble.simps [where rest = "_ # _"]
      )

text \<open>The second record of a split hello turned into application data.\<close>

definition rejects_non_handshake_record_mid_hello :: bool where
  "rejects_non_handshake_record_mid_hello \<longleftrightarrow>
     with_wire (builder_handshake (sni_builder ''a.test'')) (\<lambda>handshake.
       with_wire (records_from_splits handshake [10]) (\<lambda>wire.
         sni_of (wire[RECORD_HEADER_LEN + 10 := 0x17]) = Some (Err InvalidRecord)))"

lemma reassemble_bad_type:
  assumes "n \<noteq> 0" "t \<noteq> 0x16" "4 \<le> length rest"
  shows "reassemble limits n offset msg (t # rest) = Err InvalidRecord"
proof -
  have "take 5 (t # rest) ! 0 = t" "0 < length (take 5 (t # rest))" by simp_all
  with assms show ?thesis
    by (simp add: reassemble.simps [of limits n offset msg] check_record_header_def check_partial_record_header_def
        CONTENT_TYPE_HANDSHAKE_def)
qed

lemma rejects_non_handshake_record_mid_hello_passes: rejects_non_handshake_record_mid_hello
proof -
  let ?body = "enc_hello (name_hello ''a.test'')"
  let ?hs = "enc_handshake ?body"
  have len: "length ?body = 92" using built_length [OF test_hosts(2)] by simp
  have w: "records_from_splits ?hs [10] = Some (enc_record (1, take 10 ?hs) @ enc_record (1, drop 10 ?hs))"
    using len by (simp add: records_from_splits_def slice_def push_record_def push_vec_enc enc_record_def)
  obtain rest where second: "enc_record (1, drop 10 ?hs) = 0x16 # rest" "4 \<le> length rest"
    by (simp add: enc_record_def enc_vec16_def)
  have first: "length (enc_record (1, take 10 ?hs)) = 15" using len by simp
  have mutated: "(enc_record (1, take 10 ?hs) @ enc_record (1, drop 10 ?hs))[15 := 0x17] =
      enc_record (1, take 10 ?hs) @ 0x17 # rest"
    using first by (simp add: list_update_append second(1))
  have "header_check hello_limits_default (take 10 ?hs) = Ok (Some 92)"
    using header_check_handshake [of ?body "take 10 ?hs" hello_limits_default] len by (simp add: default_limits)
  then have "reassemble hello_limits_default 0 0 [] (enc_record (1, take 10 ?hs) @ 0x17 # rest) = Err InvalidRecord"
    using reassemble_record [of "(1, take 10 ?hs)" hello_limits_default 0 0 "[]" "0x17 # rest"] len
      reassemble_bad_type [where n = 1 and t = "0x17" and rest = rest] second(2) by (simp add: default_limits)
  then show ?thesis
    using w mutated by (simp add: rejects_non_handshake_record_mid_hello_def built_handshake [OF test_hosts(2)]
        with_wire_def RECORD_HEADER_LEN_def sni_of_eq hello_of_wire_def)
qed

text \<open>A hello padded to the largest body the default limits allow.\<close>

definition large_hello_at_the_limit_parses :: bool where
  "large_hello_at_the_limit_parses \<longleftrightarrow>
     (let builder = padding_to (sni_builder ''big.example.com'') (max_handshake_bytes hello_limits_default)
      in with_wire (builder_handshake builder) (\<lambda>handshake.
           length handshake = HANDSHAKE_HEADER_LEN + max_handshake_bytes hello_limits_default) \<and>
         parse_built builder = Some (Ok (Some ''big.example.com'')))"

lemma builder_padded_body:
  assumes "plain_builder b" "wf_hello (builder_hello b)" "\<not> b_omit_extensions b"
    and "length (enc_hello (builder_hello b)) + 4 \<le> target" "target < 65536"
  shows "builder_body (padding_to b target) =
    Some (enc_hello (builder_hello (builder_extension b 0x15
      (replicate (target - (length (enc_hello (builder_hello b)) + 4)) 0))))"
proof -
  have lens: "length (b_session_id b) < 256" "length (b_cipher_suites b) < 65536"
    "length (b_compression_methods b) < 256"
    using assms(2) by (auto simp: wf_hello_def builder_hello_def)
  have exts: "wf_exts (builder_exts b)" "length (enc_exts (builder_exts b)) < 65536"
    using assms(2,3) by (simp_all add: wf_hello_def builder_hello_def)
  have more: "builder_exts (builder_extension b t d) = builder_exts b @ [(t, d)]" for t d
    by (simp add: builder_exts_def builder_extension_def)
  have enc: "enc_exts (xs @ ys) = enc_exts xs @ enc_exts ys" for xs ys by (simp add: enc_exts_def)
  have eb: "extension_bytes (padding_to b target) = Some (enc_exts (builder_exts b))"
    using extension_bytes_enc [OF assms(1) exts(1)] by (simp add: padding_to_def extension_bytes_def)
  show ?thesis
    using assms lens exts
    by (simp add: builder_body_def padding_to_def push_vec_enc eb [unfolded padding_to_def]
        plain_builder_def Let_def enc_hello_def builder_hello_def more enc EXTENSION_PADDING_def)
      (simp add: builder_extension_def push_vec_enc)
qed

lemma large_hello_at_the_limit_parses_passes: large_hello_at_the_limit_parses
proof -
  let ?b = "sni_builder ''big.example.com''"
  note name = plain_host_parses [OF test_hosts(7)]
  have len: "length (enc_hello (builder_hello ?b)) = 101" using built_length [OF test_hosts(7)] by simp
  let ?p = "builder_extension ?b 0x15 (replicate 32663 0)"
  have "\<not> b_omit_extensions ?b" by (simp add: builder_sni_def raw_server_names_def builder_new_def)
  from builder_padded_body [OF builder_new_wf(1,2) [OF name] this, of 32768] len
  have body: "builder_body (padding_to ?b 32768) = Some (enc_hello (builder_hello ?p))" by simp
  have size: "length (enc_hello (builder_hello ?p)) = 32768"
    by (rule builder_padding_exact [OF body]) (simp add: builder_sni_def raw_server_names_def builder_new_def)
  have exts: "builder_exts ?p = builder_exts ?b @ [(0x15, replicate 32663 0)]"
    by (simp add: builder_exts_def builder_extension_def)
  have "length (enc_exts (builder_exts ?p)) < 65536"
    using size by (simp add: enc_hello_def builder_hello_def builder_extension_def builder_sni_def raw_server_names_def
        builder_new_def)
  then have wf: "wf_hello (builder_hello ?p)"
    using builder_new_wf(2) [OF name] exts
    by (simp add: wf_hello_def builder_hello_def builder_extension_def builder_sni_def raw_server_names_def
        builder_new_def builder_exts_def)
  have "hello_sni (builder_hello ?p) = Ok (Some (Hostname ''big.example.com''))"
    using parse_server_name_single [OF name]
    by (simp add: hello_sni_def builder_hello_def exts)
      (simp add: builder_exts_def builder_extension_def builder_sni_def raw_server_names_def builder_new_def)
  with parse_built_body [OF body] size parse_body_enc [OF wf]
  have "parse_built (padding_to ?b 32768) = Some (Ok (Some ''big.example.com''))" by simp
  moreover have "builder_handshake (padding_to ?b 32768) = Some (enc_handshake (enc_hello (builder_hello ?p)))"
    using builder_handshake_enc [OF body] size by simp
  ultimately show ?thesis
    using size by (simp add: large_hello_at_the_limit_parses_def with_wire_def default_limits HANDSHAKE_HEADER_LEN_def)
qed

section \<open>Hello tests\<close>

text \<open>The body of any builder without padding, well-formed or not, as long as its vectors fit.\<close>

definition fits :: "client_hello_builder \<Rightarrow> bool" where
  "fits b \<longleftrightarrow> b_padded_body_len b = None \<and> length (b_session_id b) < 256 \<and> length (b_cipher_suites b) < 65536 \<and>
     length (b_compression_methods b) < 256 \<and>
     (case b_server_names b of
        None \<Rightarrow> True
      | Some names \<Rightarrow> list_all (\<lambda>n. length (snd n) < 65536) names \<and> length (enc_names names) < 60000) \<and>
     wf_exts (builder_exts b) \<and> length (enc_exts (builder_exts b)) < 65536"

lemma push_names_any:
  "list_all (\<lambda>n. length (snd n) < 65536) names \<Longrightarrow> push_names list names = Some (list @ enc_names names)"
  by (induction names arbitrary: list) (auto simp: push_vec_enc)

lemma builder_body_any:
  assumes "fits b"
  shows "builder_body b = Some (enc_hello (builder_hello b) @ b_trailing_body_bytes b)"
proof -
  have "extension_bytes b = Some (enc_exts (builder_exts b))"
    using assms by (cases "b_server_names b")
      (auto simp: fits_def extension_bytes_def builder_exts_def push_names_any push_vec_enc push_extensions_enc)
  with assms show ?thesis
    by (simp add: fits_def builder_body_def builder_hello_def enc_hello_def push_vec_enc)
qed

lemma parse_built_any:
  assumes "fits b" "length (enc_hello (builder_hello b) @ b_trailing_body_bytes b) \<le> 32768"
  shows "parse_built b = Some (map_ok (map_option as_str)
    (parse_client_hello_body (enc_hello (builder_hello b) @ b_trailing_body_bytes b)))"
  using parse_built_body [OF builder_body_any [OF assms(1)]] assms(2) by simp

lemmas builder_ops = builder_new_def builder_sni_def raw_server_names_def builder_extension_def
  builder_session_id_def builder_cipher_suites_def builder_compression_methods_def builder_legacy_version_def
  builder_omit_extensions_def builder_trailing_body_bytes_def

lemmas build_eval = fits_def builder_hello_def builder_exts_def enc_hello_def builder_ops

lemmas body_eval = build_eval parse_client_hello_body_def RANDOM_LEN_def MAX_SESSION_ID_LEN_def version_major reader_empty

definition rejects_structural_body_errors :: bool where
  "rejects_structural_body_errors \<longleftrightarrow>
     parse_built (builder_session_id builder_new (replicate 33 0)) =
       Some (Err (Malformed ''legacy_session_id longer than 32 bytes'')) \<and>
     parse_built (builder_cipher_suites builder_new [0x13]) =
       Some (Err (Malformed ''cipher_suites length is empty or odd'')) \<and>
     parse_built (builder_compression_methods builder_new []) =
       Some (Err (Malformed ''empty legacy_compression_methods'')) \<and>
     parse_built (builder_legacy_version builder_new 0x0200) =
       Some (Err (Malformed ''unsupported legacy_version''))"

lemma old_version: "drop_bit 8 (0x0200 :: u16) \<noteq> 3"
proof -
  have "(0x0200 :: u16) = word_of_int 512" by simp
  then show ?thesis by code_simp
qed

lemma rejects_structural_body_errors_passes: rejects_structural_body_errors
  unfolding rejects_structural_body_errors_def
proof (intro conjI)
  show "parse_built (builder_session_id builder_new (replicate 33 0)) =
      Some (Err (Malformed ''legacy_session_id longer than 32 bytes''))"
    by (subst parse_built_any) (simp_all add: body_eval)
  show "parse_built (builder_cipher_suites builder_new [0x13]) =
      Some (Err (Malformed ''cipher_suites length is empty or odd''))"
    by (subst parse_built_any) (simp_all add: body_eval)
  show "parse_built (builder_compression_methods builder_new []) =
      Some (Err (Malformed ''empty legacy_compression_methods''))"
    by (subst parse_built_any) (simp_all add: body_eval)
  show "parse_built (builder_legacy_version builder_new 0x0200) = Some (Err (Malformed ''unsupported legacy_version''))"
    by (subst parse_built_any) (simp_all add: body_eval old_version)
qed

definition hello_without_extensions_block_has_no_sni :: bool where
  "hello_without_extensions_block_has_no_sni \<longleftrightarrow> parse_built (builder_omit_extensions builder_new) = Some (Ok None)"

lemma hello_without_extensions_block_has_no_sni_passes: hello_without_extensions_block_has_no_sni
  unfolding hello_without_extensions_block_has_no_sni_def
  by (subst parse_built_any) (simp_all add: body_eval)

definition rejects_trailing_bytes_after_extensions :: bool where
  "rejects_trailing_bytes_after_extensions \<longleftrightarrow>
     parse_built (builder_trailing_body_bytes (sni_builder ''a.test'') [0]) =
       Some (Err (Malformed ''trailing bytes after extensions''))"

lemma rejects_trailing_bytes_after_extensions_passes: rejects_trailing_bytes_after_extensions
  unfolding rejects_trailing_bytes_after_extensions_def
  by (subst parse_built_any) (simp_all add: body_eval)

section \<open>Tests of the server names\<close>

text \<open>One host name more: what the parser's loop does next.\<close>

lemma name_loop_enc:
  "length (snd n) < 65536 \<Longrightarrow>
   parse_server_name_loop (enc_names (n # names)) host =
     (if snd n = [] then Err (Malformed ''empty server name'')
      else if fst n \<noteq> 0 then parse_server_name_loop (enc_names names) host
      else if host \<noteq> None then Err (Malformed ''multiple host_name entries'')
      else case from_utf8 (snd n) of
        None \<Rightarrow> Err (InvalidServerName InvalidCharacter)
      | Some name \<Rightarrow>
          (case hostname_parse name of
             Err e \<Rightarrow> Err (InvalidServerName e)
           | Ok h \<Rightarrow> parse_server_name_loop (enc_names names) (Some h)))"
  by (subst parse_server_name_loop.simps) (simp add: NAME_TYPE_HOST_NAME_def split: option.split)

lemma name_loop_Nil: "parse_server_name_loop [] host = Ok host"
  by (simp add: parse_server_name_loop.simps)

lemma parse_server_name_enc:
  "length (enc_names names) < 65536 \<Longrightarrow>
   parse_server_name (enc_vec16 (enc_names names)) =
     (if names = [] then Err (Malformed ''empty server_name_list'')
      else parse_server_name_loop (enc_names names) None)"
  by (simp add: parse_server_name_def reader_empty)

lemma parse_built_names:
  assumes "list_all (\<lambda>n. length (snd n) < 65536) names" "length (enc_names names) < 30000"
  shows "parse_built (raw_server_names builder_new names) =
    Some (map_ok (map_option as_str)
      (if names = [] then Err (Malformed ''empty server_name_list'')
       else parse_server_name_loop (enc_names names) None))"
proof -
  let ?b = "raw_server_names builder_new names"
  have fits: "fits ?b" using assms by (simp add: build_eval)
  have wf: "wf_hello (builder_hello ?b)" using assms by (simp add: wf_hello_def build_eval version_major)
  have none: "b_trailing_body_bytes ?b = []" by (simp add: builder_ops)
  have small: "length (enc_hello (builder_hello ?b) @ b_trailing_body_bytes ?b) \<le> 32768"
    using assms by (simp add: build_eval)
  have "hello_sni (builder_hello ?b) = parse_server_name (enc_vec16 (enc_names names))"
    by (simp add: hello_sni_def build_eval)
  with parse_built_any [OF fits small] none parse_server_name_enc [of names] assms(2) show ?thesis
    by (simp add: parse_body_enc [OF wf])
qed

text \<open>A name of plain characters reaches the name parser as it is.\<close>

lemma utf8_plain: "list_all (\<lambda>c. (of_char c :: nat) < 128) s \<Longrightarrow> from_utf8 (bytes_of_string s) = Some s"
  by (rule from_utf8_ascii) (simp add: list_all_iff)

lemma bytes_of_string_simps: "length (bytes_of_string s) = length s" "bytes_of_string s = [] \<longleftrightarrow> s = []"
  by (simp_all add: bytes_of_string_def)

lemma utf8_test_names:
  "from_utf8 (bytes_of_string ''a.test'') = Some ''a.test''" "from_utf8 (bytes_of_string ''b.test'') = Some ''b.test''"
  "from_utf8 (bytes_of_string ''example.com.'') = Some ''example.com.''"
  "from_utf8 (bytes_of_string ''10.1.2.3'') = Some ''10.1.2.3''"
  by (rule utf8_plain; simp)+

lemma names_length: "length (enc_names ns) = sum_list (map (\<lambda>n. length (snd n) + 3) ns)"
  by (induction ns) simp_all

definition rejects_trailing_dot_and_invalid_names :: bool where
  "rejects_trailing_dot_and_invalid_names \<longleftrightarrow>
     parse_built (sni_builder ''example.com.'') = Some (Err (InvalidServerName EmptyLabel)) \<and>
     parse_built (sni_builder ''10.1.2.3'') = Some (Err (InvalidServerName IpLiteral)) \<and>
     parse_built (raw_server_names builder_new [(0, 0xff # 0xfe # bytes_of_string ''.com'')]) =
       Some (Err (InvalidServerName InvalidCharacter))"

lemma rejects_trailing_dot_and_invalid_names_passes: rejects_trailing_dot_and_invalid_names
proof -
  have "hostname_parse ''example.com.'' = Err EmptyLabel" by (rule hostname_rejects) code_simp
  moreover have "hostname_parse ''10.1.2.3'' = Err IpLiteral"
  proof -
    have "show_ipv4 [10, 1, 2, 3] = ''10.1.2.3''" by code_simp
    with parse_ip_addr_show_ipv4 [of "[10, 1, 2, 3]"] have "parse_ip_addr ''10.1.2.3'' = Some (V4 [10, 1, 2, 3])" by simp
    moreover have "to_ascii_lowercase ''10.1.2.3'' = ''10.1.2.3''" "validate_dns_name ''10.1.2.3'' = Ok ()" by code_simp+
    ultimately show ?thesis by (simp add: hostname_parse_def)
  qed
  moreover have "from_utf8 (0xff # 0xfe # bytes_of_string ''.com'') = None"
    by (simp add: from_utf8_def bytes_of_string_def)
  ultimately show ?thesis
    by (simp add: rejects_trailing_dot_and_invalid_names_def builder_sni_def parse_built_names name_loop_enc
        utf8_test_names bytes_of_string_simps names_length del: enc_names_Cons)
qed

definition rejects_multiple_host_names :: bool where
  "rejects_multiple_host_names \<longleftrightarrow>
     parse_built (raw_server_names builder_new [(0, bytes_of_string ''a.test''), (0, bytes_of_string ''b.test'')]) =
       Some (Err (Malformed ''multiple host_name entries''))"

lemma a_test_parses: "hostname_parse ''a.test'' = Ok (Hostname ''a.test'')"
  by (rule plain_host_parses [OF test_hosts(2)])

lemmas names_eval = parse_built_names name_loop_enc utf8_test_names bytes_of_string_simps a_test_parses
  names_length name_loop_Nil

lemma rejects_multiple_host_names_passes: rejects_multiple_host_names
  by (simp add: rejects_multiple_host_names_def names_eval del: enc_names_Cons)

definition skips_non_host_name_entries :: bool where
  "skips_non_host_name_entries \<longleftrightarrow>
     parse_built (raw_server_names builder_new [(7, bytes_of_string ''ignored''), (0, bytes_of_string ''a.test'')]) =
       Some (Ok (Some ''a.test'')) \<and>
     parse_built (raw_server_names builder_new [(7, bytes_of_string ''ignored'')]) = Some (Ok None)"

lemma skips_non_host_name_entries_passes: skips_non_host_name_entries
  by (simp add: skips_non_host_name_entries_def names_eval del: enc_names_Cons)

definition rejects_empty_server_name_list_and_empty_names :: bool where
  "rejects_empty_server_name_list_and_empty_names \<longleftrightarrow>
     parse_built (raw_server_names builder_new []) = Some (Err (Malformed ''empty server_name_list'')) \<and>
     parse_built (raw_server_names builder_new [(0, [])]) = Some (Err (Malformed ''empty server name''))"

lemma rejects_empty_server_name_list_and_empty_names_passes: rejects_empty_server_name_list_and_empty_names
  by (simp add: rejects_empty_server_name_list_and_empty_names_def names_eval del: enc_names_Cons)

section \<open>Tests of the extensions\<close>

text \<open>What the parser makes of a plain builder's extensions, whatever their types.\<close>

definition builder_with :: "string \<Rightarrow> (u16 \<times> byte list) list \<Rightarrow> client_hello_builder" where
  "builder_with name es = (sni_builder name)\<lparr>b_extensions := es\<rparr>"

lemma builder_with_exts:
  "builder_exts (builder_with name es) = (0, enc_vec16 (enc_names [(0, bytes_of_string name)])) # es"
  by (simp add: builder_with_def builder_exts_def builder_ops)

lemma parse_built_exts:
  assumes es: "wf_exts es" "length (enc_exts es) < 20000" "0 \<notin> set (map fst es)"
    and name: "plain_host name lower"
  shows "parse_built (builder_with name es) =
    Some (if distinct (map fst es) then Ok (Some lower) else Err (Malformed ''duplicate extension type''))"
proof -
  let ?b = "builder_with name es"
  have len: "length (bytes_of_string name) \<le> 253"
    using built_length(2) [OF name] by (simp add: bytes_of_string_simps)
  have wf: "wf_exts (builder_exts ?b)" "length (enc_exts (builder_exts ?b)) < 30000"
    using len es(1,2) by (simp_all add: builder_with_exts)
  have fits: "fits ?b"
    using wf len by (simp add: fits_def) (simp add: builder_with_def builder_ops)
  have body: "enc_hello (builder_hello ?b) = to_be_bytes16 0x0303 @ replicate 32 0x42 @ enc_vec8 (replicate 32 0x5a) @
      enc_vec16 [0x13, 0x01, 0x13, 0x02] @ enc_vec8 [0] @ enc_vec16 (enc_exts (builder_exts ?b))"
    by (simp add: enc_hello_def builder_hello_def) (simp add: builder_with_def builder_ops)
  have tail: "b_trailing_body_bytes ?b = []" by (simp add: builder_with_def builder_ops)
  have small: "length (enc_hello (builder_hello ?b) @ b_trailing_body_bytes ?b) \<le> 32768"
    using wf(2) by (simp add: body tail)
  have "parse_client_hello_body (enc_hello (builder_hello ?b)) = parse_extensions (enc_exts (builder_exts ?b))"
    using wf(2) unfolding body by (simp add: parse_client_hello_body_def RANDOM_LEN_def MAX_SESSION_ID_LEN_def
        version_major reader_empty)
  moreover have "ext_sni (builder_exts ?b) None = Ok (Some (Hostname lower))"
    using es(3) parse_server_name_single [OF plain_host_parses [OF name]]
    by (simp add: builder_with_exts ext_sni_no_name del: enc_names_Cons)
  ultimately have "parse_client_hello_body (enc_hello (builder_hello ?b)) =
      (if distinct (map fst es) then Ok (Some (Hostname lower)) else Err (Malformed ''duplicate extension type''))"
    using es(3) by (simp add: parse_extensions_enc [OF wf(1)]) (simp add: builder_with_exts)
  with parse_built_any [OF fits small] tail show ?thesis by simp
qed

definition rejects_duplicate_extensions :: bool where
  "rejects_duplicate_extensions \<longleftrightarrow>
     parse_built (builder_extension (builder_extension (sni_builder ''a.test'') 0x000a [0, 2, 0, 0x1d])
         0x000a [0, 2, 0, 0x17]) = Some (Err (Malformed ''duplicate extension type''))"

lemma rejects_duplicate_extensions_passes: rejects_duplicate_extensions
proof -
  have "builder_extension (builder_extension (sni_builder ''a.test'') 0x000a [0, 2, 0, 0x1d]) 0x000a [0, 2, 0, 0x17] =
      builder_with ''a.test'' [(0x000a, [0, 2, 0, 0x1d]), (0x000a, [0, 2, 0, 0x17])]"
    by (simp add: builder_with_def builder_ops)
  then show ?thesis
    using parse_built_exts [OF _ _ _ test_hosts(2), of "[(0x000a, [0, 2, 0, 0x1d]), (0x000a, [0, 2, 0, 0x17])]"]
    by (simp add: rejects_duplicate_extensions_def)
qed

text \<open>Forty extensions without data, more than the parser keeps inline.\<close>

definition many_builder :: client_hello_builder where
  "many_builder = fold (\<lambda>t b. builder_extension b (of_nat t) []) [100..<140] (sni_builder ''many.test'')"

definition many_exts :: "(u16 \<times> byte list) list" where
  "many_exts = map (\<lambda>t. (of_nat t, [])) [100..<140]"

lemma fold_builder_extension:
  "fold (\<lambda>t b. builder_extension b (f t) []) ts b = b\<lparr>b_extensions := b_extensions b @ map (\<lambda>t. (f t, [])) ts\<rparr>"
  by (induction ts arbitrary: b) (simp_all add: builder_extension_def)

lemma many_builder_with: "many_builder = builder_with ''many.test'' many_exts"
  unfolding many_builder_def fold_builder_extension by (simp add: builder_with_def many_exts_def builder_ops)

lemma enc_exts_no_data: "length (enc_exts (map (\<lambda>t. (f t, [])) ts)) = 4 * length ts"
  "wf_exts (map (\<lambda>t. (f t, [])) ts)"
  by (induction ts) simp_all

lemma u16_inj: "inj_on (of_nat :: nat \<Rightarrow> u16) {..<65536}"
  by (rule inj_onI) (simp add: word_unat_eq_iff unat_of_nat)

lemma many_exts_ok:
  "wf_exts many_exts" "length (enc_exts many_exts) = 160" "distinct (map fst many_exts)" "0 \<notin> set (map fst many_exts)"
proof -
  have fst: "map fst many_exts = map of_nat [100..<140]" by (simp add: many_exts_def del: upt_rec_numeral)
  show "wf_exts many_exts" "length (enc_exts many_exts) = 160"
    unfolding many_exts_def by (simp_all add: enc_exts_no_data del: upt_rec_numeral)
  have "inj_on (of_nat :: nat \<Rightarrow> u16) (set [100..<140])" by (rule inj_on_subset [OF u16_inj]) auto
  then show "distinct (map fst many_exts)" unfolding fst distinct_map by simp
  have "(of_nat t :: u16) \<noteq> 0" if "t \<in> set [100..<140]" for t
    using that by (simp add: word_unat_eq_iff unat_of_nat del: upt_rec_numeral)
  then show "0 \<notin> set (map fst many_exts)" unfolding fst by (metis imageE list.set_map)
qed

definition more_extensions_than_inline_capacity_still_parse :: bool where
  "more_extensions_than_inline_capacity_still_parse \<longleftrightarrow> parse_built many_builder = Some (Ok (Some ''many.test''))"

lemma more_extensions_than_inline_capacity_still_parse_passes: more_extensions_than_inline_capacity_still_parse
  using parse_built_exts [OF many_exts_ok(1) _ many_exts_ok(4) test_hosts(9)] many_exts_ok(2,3)
  by (simp add: more_extensions_than_inline_capacity_still_parse_def many_builder_with)

definition duplicate_beyond_inline_capacity_is_rejected :: bool where
  "duplicate_beyond_inline_capacity_is_rejected \<longleftrightarrow>
     parse_built (builder_extension many_builder 100 []) = Some (Err (Malformed ''duplicate extension type''))"

lemma duplicate_beyond_inline_capacity_is_rejected_passes: duplicate_beyond_inline_capacity_is_rejected
proof -
  let ?es = "many_exts @ [(100, [])]"
  have enc: "enc_exts (xs @ ys) = enc_exts xs @ enc_exts ys" for xs ys by (simp add: enc_exts_def)
  have "(of_nat 100 :: u16) \<in> set (map of_nat [100..<140])" unfolding set_map by (rule imageI) simp
  then have "100 \<in> set (map fst many_exts)" by (simp add: many_exts_def comp_def del: upt_rec_numeral)
  then have dup: "\<not> distinct (map fst ?es)" by simp
  have "wf_exts ?es" using many_exts_ok(1) by (simp add: wf_exts_def)
  moreover have "length (enc_exts ?es) < 20000" using many_exts_ok(2) by (simp add: enc)
  moreover have "0 \<notin> set (map fst ?es)" using many_exts_ok(4) by simp
  ultimately have "parse_built (builder_with ''many.test'' ?es) = Some (Err (Malformed ''duplicate extension type''))"
    using parse_built_exts [OF _ _ _ test_hosts(9)] dup by presburger
  then show ?thesis
    by (simp add: duplicate_beyond_inline_capacity_is_rejected_def many_builder_with builder_with_def builder_extension_def)
qed

end
