(* ===== verification/Resolver_Tests.thy ===== *)
theory Resolver_Tests
  imports Dns_Resolver
begin

text \<open>
  The unit tests of \<open>delivery/resolver.rs\<close> as propositions about the model, each proved. A test runs
  the resolver in virtual time over a lookup function that depends on the number of the call and
  takes a while; what the join error of a panicked lookup says is left open.
\<close>

section \<open>The test harness\<close>

text \<open>A call takes some time and then yields an outcome, or panics.\<close>

type_synonym dns_answer = "nat \<times> dns_outcome option"

text \<open>The system of the model, the calls that are running with the instant each ends, the number of
calls made and the largest number that ran at once.\<close>

record dns_test =
  dt_sys :: dns_sys
  dt_running :: "(nat \<times> dns_key \<times> dns_outcome) list"
  dt_calls :: nat
  dt_peak :: nat

record dns_script =
  ds_config :: dns_config
  ds_answer :: "nat \<Rightarrow> dns_answer"
  ds_join_error :: string

definition dt_new :: dns_test where
  "dt_new = \<lparr>dt_sys = dns_init, dt_running = [], dt_calls = 0, dt_peak = 0\<rparr>"

definition dt_outcome :: "dns_script \<Rightarrow> dns_outcome option \<Rightarrow> dns_outcome" where
  "dt_outcome script r =
     (case r of
        Some out \<Rightarrow> out
      | None \<Rightarrow> Err \<lparr>io_kind = IoOther, io_message = ''resolver task failed: '' @ ds_join_error script\<rparr>)"

text \<open>A queued lookup gets a permit, if there is one, and its blocking call starts.\<close>

definition dt_acquire :: "dns_script \<Rightarrow> dns_key \<Rightarrow> dns_test \<Rightarrow> dns_test" where
  "dt_acquire script key t =
     (let s = dt_sys t
      in if length (dns_blocking s) < dns_permits (ds_config script)
         then (case ds_answer script (dt_calls t) of (delay, r) \<Rightarrow>
           t\<lparr>dt_sys := s\<lparr>dns_queued := remove1 key (dns_queued s), dns_blocking := key # dns_blocking s\<rparr>,
             dt_running := dt_running t @ [(dns_clock s + delay, key, dt_outcome script r)],
             dt_calls := dt_calls t + 1,
             dt_peak := max (dt_peak t) (length (dns_blocking s) + 1)\<rparr>)
         else t)"

text \<open>The semaphore serves the oldest first.\<close>

definition dt_admit :: "dns_script \<Rightarrow> dns_test \<Rightarrow> dns_test" where
  "dt_admit script t = fold (dt_acquire script) (rev (dns_queued (dt_sys t))) t"

definition dt_finish :: "dns_script \<Rightarrow> nat \<times> dns_key \<times> dns_outcome \<Rightarrow> dns_test \<Rightarrow> dns_test" where
  "dt_finish script run t =
     (case run of (due, key, out) \<Rightarrow>
        let s = (dt_sys t)\<lparr>dns_clock := max (dns_clock (dt_sys t)) due\<rparr>
        in case dns_store (ds_config script) (dns_clock s) (dns_cache s) key out of (answer, cache) \<Rightarrow>
             dt_admit script
               (t\<lparr>dt_sys := s\<lparr>dns_blocking := remove1 key (dns_blocking s), dns_cache := cache,
                    dns_inflight := removeAll key (dns_inflight s), dns_answers := (key, answer) # dns_answers s\<rparr>,
                 dt_running := remove1 run (dt_running t)\<rparr>))"

definition dt_earliest :: "dns_test \<Rightarrow> (nat \<times> dns_key \<times> dns_outcome) option" where
  "dt_earliest t = (case sort_key fst (dt_running t) of [] \<Rightarrow> None | run # _ \<Rightarrow> Some run)"

text \<open>The loop ends a lookup in each round, so as many rounds as there are lookups are enough.\<close>

primrec dt_run :: "nat \<Rightarrow> dns_script \<Rightarrow> nat \<Rightarrow> dns_test \<Rightarrow> dns_test" where
  "dt_run 0 script time t = t"
| "dt_run (Suc n) script time t =
     (case dt_earliest t of
        None \<Rightarrow> t
      | Some run \<Rightarrow> if fst run \<le> time then dt_run n script time (dt_finish script run t) else t)"

definition dt_until :: "dns_script \<Rightarrow> nat \<Rightarrow> dns_test \<Rightarrow> dns_test" where
  "dt_until script time t =
     (let t' = dt_run (length (dns_lookups (dt_sys t))) script time t
      in t'\<lparr>dt_sys := (dt_sys t')\<lparr>dns_clock := max (dns_clock (dt_sys t')) time\<rparr>\<rparr>)"

definition dt_sleep :: "dns_script \<Rightarrow> nat \<Rightarrow> dns_test \<Rightarrow> dns_test" where
  "dt_sleep script d t = dt_until script (dns_clock (dt_sys t) + d) t"

definition dt_begin :: "dns_script \<Rightarrow> dns_key \<Rightarrow> dns_test \<Rightarrow> dns_step_result \<times> dns_test" where
  "dt_begin script key t =
     (case resolve_begin key (dt_sys t) of (r, s) \<Rightarrow> (r, dt_admit script (t\<lparr>dt_sys := s\<rparr>)))"

text \<open>A caller that began gets its answer; one that waits lets the lookups end until its own has.\<close>

primrec dt_wait :: "nat \<Rightarrow> dns_script \<Rightarrow> dns_key \<Rightarrow> dns_test \<Rightarrow> dns_test" where
  "dt_wait 0 script key t = t"
| "dt_wait (Suc n) script key t =
     (if key \<notin> set (dns_inflight (dt_sys t)) then t
      else case dt_earliest t of
             None \<Rightarrow> t
           | Some run \<Rightarrow> dt_wait n script key (dt_finish script run t))"

definition dt_end :: "dns_script \<Rightarrow> dns_key \<Rightarrow> dns_step_result \<Rightarrow> dns_test \<Rightarrow> dns_outcome \<times> dns_test" where
  "dt_end script key r t =
     (case r of
        DnsAnswer out \<Rightarrow> (out, t)
      | DnsWait \<Rightarrow>
          (case dt_wait (length (dns_lookups (dt_sys t))) script key t of t' \<Rightarrow>
           case resolve_end (map_of (dns_answers (dt_sys t')) key) (dns_rotation (dt_sys t')) of (out, rotation) \<Rightarrow>
             (out, t'\<lparr>dt_sys := (dt_sys t')\<lparr>dns_rotation := rotation\<rparr>\<rparr>)))"

text \<open>\<open>resolver.resolve(name, port).await\<close>, alone and given up after a while.\<close>

definition dt_resolve :: "dns_script \<Rightarrow> dns_key \<Rightarrow> dns_test \<Rightarrow> dns_outcome \<times> dns_test" where
  "dt_resolve script key t = (case dt_begin script key t of (r, t') \<Rightarrow> dt_end script key r t')"

definition dt_give_up :: "dns_script \<Rightarrow> nat \<Rightarrow> dns_key \<Rightarrow> dns_test \<Rightarrow> dns_test" where
  "dt_give_up script d key t =
     (case dt_begin script key t of (r, t') \<Rightarrow> case r of DnsAnswer _ \<Rightarrow> t' | DnsWait \<Rightarrow> dt_sleep script d t')"

section \<open>The tests' helpers\<close>

definition test_addr :: "byte \<Rightarrow> socket_addr" where
  "test_addr n = (V4 [10, 0, 0, n], 443)"

definition dns_ms :: "nat \<Rightarrow> nat" where "dns_ms n = n * 1000000"

abbreviation svc :: dns_key where "svc \<equiv> (''svc'', 443)"

text \<open>\<open>Resolver::with_lookup(ttl, max_concurrent, lookup)\<close> over a scripted lookup.\<close>

definition with_lookup :: "nat \<Rightarrow> string \<Rightarrow> nat \<Rightarrow> nat \<Rightarrow> (nat \<Rightarrow> dns_answer) \<Rightarrow> dns_script" where
  "with_lookup instant_max join_error ttl slots answer =
     \<lparr>ds_config = \<lparr>dns_instant_max = instant_max, dns_ttl = ttl, dns_max_concurrent = slots\<rparr>,
      ds_answer = answer, ds_join_error = join_error\<rparr>"

lemmas dt_eval = dt_new_def dt_outcome_def dt_acquire_def dt_admit_def dt_finish_def dt_earliest_def dt_until_def
  dt_sleep_def dt_begin_def dt_end_def dt_resolve_def dt_give_up_def with_lookup_def dns_ms_def
  dns_init_def resolve_begin_def resolve_end_def dns_lookups_def dns_permits_def dns_fresh_def dns_store_def
  dns_prune_def PRUNE_THRESHOLD_def DNS_NEGATIVE_TTL_def DNS_STALE_IF_ERROR_def NANOS_def dns_later_def
  dns_rotated_def dns_error_def Let_def

declare let_weak_cong [cong]

section \<open>Tests\<close>

definition fresh_answers_are_served_from_cache :: "nat \<Rightarrow> string \<Rightarrow> bool" where
  "fresh_answers_are_served_from_cache instant_max join_error \<longleftrightarrow>
     (let script = with_lookup instant_max join_error (dns_ms 30000) 4 (\<lambda>_. (0, Some (Ok [test_addr 1])))
      in case dt_resolve script svc dt_new of (r1, t) \<Rightarrow>
         case dt_resolve script svc t of (r2, t) \<Rightarrow>
         case dt_resolve script svc t of (r3, t) \<Rightarrow>
         case dt_resolve script svc t of (r4, t) \<Rightarrow>
         case dt_resolve script svc t of (r5, t) \<Rightarrow>
           list_all (\<lambda>r. r = Ok [test_addr 1]) [r1, r2, r3, r4, r5] \<and> dt_calls t = 1)"

lemma fresh_answers_are_served_from_cache_passes:
  "1000000000000 \<le> instant_max \<Longrightarrow> fresh_answers_are_served_from_cache instant_max join_error"
  by (simp add: fresh_answers_are_served_from_cache_def dt_eval)

definition expired_answers_are_re_resolved :: "nat \<Rightarrow> string \<Rightarrow> bool" where
  "expired_answers_are_re_resolved instant_max join_error \<longleftrightarrow>
     (let script = with_lookup instant_max join_error (dns_ms 20) 4
            (\<lambda>call. (0, Some (Ok [test_addr (of_nat call + 1)])))
      in case dt_resolve script svc dt_new of (r1, t) \<Rightarrow>
         case dt_resolve script svc (dt_sleep script (dns_ms 40) t) of (r2, t) \<Rightarrow>
           r1 = Ok [test_addr 1] \<and> r2 = Ok [test_addr 2] \<and> dt_calls t = 2)"

lemma expired_answers_are_re_resolved_passes:
  "1000000000000 \<le> instant_max \<Longrightarrow> expired_answers_are_re_resolved instant_max join_error"
  by (simp add: expired_answers_are_re_resolved_def dt_eval)

definition failures_are_briefly_cached :: "nat \<Rightarrow> string \<Rightarrow> bool" where
  "failures_are_briefly_cached instant_max join_error \<longleftrightarrow>
     (let script = with_lookup instant_max join_error (dns_ms 30000) 4
            (\<lambda>_. (0, Some (Err \<lparr>io_kind = IoNotFound, io_message = ''nxdomain''\<rparr>)));
          gone = (''gone'', 443)
      in case dt_resolve script gone dt_new of (r1, t) \<Rightarrow>
         case dt_resolve script gone t of (r2, t) \<Rightarrow> \<not> is_ok r1 \<and> \<not> is_ok r2 \<and> dt_calls t = 1)"

lemma failures_are_briefly_cached_passes:
  "1000000000000 \<le> instant_max \<Longrightarrow> failures_are_briefly_cached instant_max join_error"
  by (simp add: failures_are_briefly_cached_def dt_eval)

definition stale_answer_is_used_when_re_resolution_fails :: "nat \<Rightarrow> string \<Rightarrow> bool" where
  "stale_answer_is_used_when_re_resolution_fails instant_max join_error \<longleftrightarrow>
     (let script = with_lookup instant_max join_error (dns_ms 20) 4
            (\<lambda>call. (0, Some (if call = 0 then Ok [test_addr 1]
                              else Err \<lparr>io_kind = IoOther, io_message = ''resolver down''\<rparr>)))
      in case dt_resolve script svc dt_new of (r1, t) \<Rightarrow>
         case dt_resolve script svc (dt_sleep script (dns_ms 40) t) of (r2, t) \<Rightarrow>
           is_ok r1 \<and> r2 = Ok [test_addr 1])"

lemma stale_answer_is_used_when_re_resolution_fails_passes:
  "1000000000000 \<le> instant_max \<Longrightarrow> stale_answer_is_used_when_re_resolution_fails instant_max join_error"
  by (simp add: stale_answer_is_used_when_re_resolution_fails_def dt_eval)

definition empty_answer_is_an_error :: "nat \<Rightarrow> string \<Rightarrow> bool" where
  "empty_answer_is_an_error instant_max join_error \<longleftrightarrow>
     (let script = with_lookup instant_max join_error (dns_ms 30000) 4 (\<lambda>_. (0, Some (Ok [])))
      in \<not> is_ok (fst (dt_resolve script svc dt_new)))"

lemma empty_answer_is_an_error_passes:
  "1000000000000 \<le> instant_max \<Longrightarrow> empty_answer_is_an_error instant_max join_error"
  by (simp add: empty_answer_is_an_error_def dt_eval)

definition addresses_rotate_across_calls :: "nat \<Rightarrow> string \<Rightarrow> bool" where
  "addresses_rotate_across_calls instant_max join_error \<longleftrightarrow>
     (let script = with_lookup instant_max join_error (dns_ms 30000) 4
            (\<lambda>_. (0, Some (Ok [test_addr 1, test_addr 2, test_addr 3])))
      in case dt_resolve script svc dt_new of (r1, t) \<Rightarrow>
         case dt_resolve script svc t of (r2, t) \<Rightarrow>
         case dt_resolve script svc t of (r3, t) \<Rightarrow>
           list_all (\<lambda>r. map_ok length r = Ok 3) [r1, r2, r3] \<and>
           mset (map (map_ok hd) [r1, r2, r3]) = mset (map Ok [test_addr 1, test_addr 2, test_addr 3]))"

lemma addresses_rotate_across_calls_passes:
  "1000000000000 \<le> instant_max \<Longrightarrow> addresses_rotate_across_calls instant_max join_error"
  by (simp add: addresses_rotate_across_calls_def dt_eval)

definition lookup_completes_and_caches_after_callers_give_up :: "nat \<Rightarrow> string \<Rightarrow> bool" where
  "lookup_completes_and_caches_after_callers_give_up instant_max join_error \<longleftrightarrow>
     (let script = with_lookup instant_max join_error (dns_ms 30000) 4 (\<lambda>_. (dns_ms 50, Some (Ok [test_addr 1])))
      in case dt_sleep script (dns_ms 150) (dt_give_up script (dns_ms 5) svc dt_new) of t \<Rightarrow>
         case dt_resolve script svc t of (r, t) \<Rightarrow> r = Ok [test_addr 1] \<and> dt_calls t = 1)"

lemma lookup_completes_and_caches_after_callers_give_up_passes:
  "1000000000000 \<le> instant_max \<Longrightarrow> lookup_completes_and_caches_after_callers_give_up instant_max join_error"
  by (simp add: lookup_completes_and_caches_after_callers_give_up_def dt_eval)

definition panicking_lookup_reports_an_error_and_recovers :: "nat \<Rightarrow> string \<Rightarrow> bool" where
  "panicking_lookup_reports_an_error_and_recovers instant_max join_error \<longleftrightarrow>
     (let script = with_lookup instant_max join_error 0 4
            (\<lambda>call. (0, if call = 0 then None else Some (Ok [test_addr 1])))
      in case dt_resolve script svc dt_new of (r1, t) \<Rightarrow>
         case dt_resolve script svc (dt_sleep script (dns_ms 1100) t) of (r2, _) \<Rightarrow>
           \<not> is_ok r1 \<and> r2 = Ok [test_addr 1])"

lemma panicking_lookup_reports_an_error_and_recovers_passes:
  "1000000000000 \<le> instant_max \<Longrightarrow> panicking_lookup_reports_an_error_and_recovers instant_max join_error"
  by (simp add: panicking_lookup_reports_an_error_and_recovers_def dt_eval)

section \<open>Many callers\<close>

text \<open>Callers that begin one after the other, and are then awaited in turn.\<close>

primrec dt_begin_all :: "dns_script \<Rightarrow> nat \<Rightarrow> dns_key \<Rightarrow> dns_test \<Rightarrow> dns_step_result list \<times> dns_test" where
  "dt_begin_all script 0 key t = ([], t)"
| "dt_begin_all script (Suc n) key t =
     (case dt_begin script key t of (r, t') \<Rightarrow>
        case dt_begin_all script n key t' of (rs, t'') \<Rightarrow> (r # rs, t''))"

primrec dt_end_all :: "dns_script \<Rightarrow> dns_key \<Rightarrow> dns_step_result list \<Rightarrow> dns_test \<Rightarrow> dns_outcome list \<times> dns_test" where
  "dt_end_all script key [] t = ([], t)"
| "dt_end_all script key (r # rs) t =
     (case dt_end script key r t of (out, t') \<Rightarrow>
        case dt_end_all script key rs t' of (outs, t'') \<Rightarrow> (out # outs, t''))"

lemma dt_begin_all_join:
  assumes "key \<in> set (dns_inflight (dt_sys t))" "map_of (dns_cache (dt_sys t)) key = None" "dns_queued (dt_sys t) = []"
  shows "dt_begin_all script n key t = (replicate n DnsWait, t)"
  using assms by (induction n) (simp_all add: dt_begin_def resolve_begin_def dns_fresh_def dt_admit_def)

lemma dt_end_all_shared:
  "key \<notin> set (dns_inflight (dt_sys t)) \<Longrightarrow> map_of (dns_answers (dt_sys t)) key = Some (Ok [a]) \<Longrightarrow>
   fst (dt_end_all script key (replicate n DnsWait) t) = replicate n (Ok [a]) \<and>
   dt_calls (snd (dt_end_all script key (replicate n DnsWait) t)) = dt_calls t"
proof (induction n arbitrary: t)
  case (Suc n)
  let ?t = "t\<lparr>dt_sys := (dt_sys t)\<lparr>dns_rotation := dns_rotation (dt_sys t) + 1\<rparr>\<rparr>"
  have wait: "dt_wait m script key t = t" for m using Suc.prems(1) by (cases m) simp_all
  have "dt_end script key DnsWait t = (Ok [a], ?t)"
    using Suc.prems by (simp add: dt_end_def wait resolve_end_def dns_rotated_def)
  moreover have "fst (dt_end_all script key (replicate n DnsWait) ?t) = replicate n (Ok [a]) \<and>
      dt_calls (snd (dt_end_all script key (replicate n DnsWait) ?t)) = dt_calls ?t"
    by (rule Suc.IH) (use Suc.prems in simp_all)
  ultimately show ?case by (simp add: case_prod_beta)
qed simp

definition concurrent_callers_share_one_lookup :: "nat \<Rightarrow> string \<Rightarrow> bool" where
  "concurrent_callers_share_one_lookup instant_max join_error \<longleftrightarrow>
     (let script = with_lookup instant_max join_error (dns_ms 30000) 16 (\<lambda>_. (dns_ms 50, Some (Ok [test_addr 1])))
      in case dt_begin_all script 50 svc dt_new of (callers, t) \<Rightarrow>
         case dt_end_all script svc callers t of (outs, t) \<Rightarrow>
           list_all (\<lambda>out. out = Ok [test_addr 1]) outs \<and> length outs = 50 \<and> dt_calls t = 1)"

lemma concurrent_callers_share_one_lookup_passes:
  assumes "1000000000000 \<le> instant_max"
  shows "concurrent_callers_share_one_lookup instant_max join_error"
proof -
  let ?script = "with_lookup instant_max join_error (dns_ms 30000) 16 (\<lambda>_. (dns_ms 50, Some (Ok [test_addr 1])))"
  obtain t1 where t1: "dt_begin ?script svc dt_new = (DnsWait, t1)" "svc \<in> set (dns_inflight (dt_sys t1))"
    "map_of (dns_cache (dt_sys t1)) svc = None" "dns_queued (dt_sys t1) = []"
    "t1 = snd (dt_begin ?script svc dt_new)"
    by (simp add: dt_eval)
  have began: "dt_begin_all ?script (Suc 49) svc dt_new = (DnsWait # replicate 49 DnsWait, t1)"
    using dt_begin_all_join [OF t1(2-4), of ?script 49] by (simp only: dt_begin_all.simps t1(1) prod.case)
  obtain t2 where t2: "dt_end ?script svc DnsWait t1 = (Ok [test_addr 1], t2)" "svc \<notin> set (dns_inflight (dt_sys t2))"
    "map_of (dns_answers (dt_sys t2)) svc = Some (Ok [test_addr 1])" "dt_calls t2 = 1"
    unfolding t1(5) using assms by (simp add: dt_eval)
  have "dt_end_all ?script svc (DnsWait # replicate 49 DnsWait) t1 =
      (Ok [test_addr 1] # fst (dt_end_all ?script svc (replicate 49 DnsWait) t2),
       snd (dt_end_all ?script svc (replicate 49 DnsWait) t2))"
    by (simp only: dt_end_all.simps t2(1) prod.case) (simp only: case_prod_beta)
  with began dt_end_all_shared [OF t2(2,3), of ?script 49] t2(4) show ?thesis
    by (simp add: concurrent_callers_share_one_lookup_def list_all_iff)
qed

text \<open>No step lets more calls run at once than there are permits.\<close>

definition peak_ok :: "dns_script \<Rightarrow> dns_test \<Rightarrow> bool" where
  "peak_ok script t \<longleftrightarrow> dt_peak t \<le> dns_permits (ds_config script)"

lemma peak_acquire: "peak_ok script t \<Longrightarrow> peak_ok script (dt_acquire script key t)"
  by (simp add: peak_ok_def dt_acquire_def Let_def split: prod.split)

lemma peak_admit: "peak_ok script t \<Longrightarrow> peak_ok script (dt_admit script t)"
proof -
  have "peak_ok script t \<Longrightarrow> peak_ok script (fold (dt_acquire script) keys t)" for keys
    by (induction keys arbitrary: t) (simp_all add: peak_acquire)
  then show "peak_ok script t \<Longrightarrow> peak_ok script (dt_admit script t)" by (simp add: dt_admit_def)
qed

lemma peak_finish: "peak_ok script t \<Longrightarrow> peak_ok script (dt_finish script run t)"
  by (auto simp: dt_finish_def Let_def peak_ok_def [of script "t\<lparr>dt_sys := _, dt_running := _\<rparr>"]
      peak_ok_def [of script t] intro!: peak_admit split: prod.split)

lemma peak_run: "peak_ok script t \<Longrightarrow> peak_ok script (dt_run n script time t)"
  by (induction n arbitrary: t) (auto simp: peak_finish split: option.split)

lemma peak_sleep: "peak_ok script t \<Longrightarrow> peak_ok script (dt_sleep script d t)"
  using peak_run [of script t] by (simp add: dt_sleep_def dt_until_def Let_def peak_ok_def)

lemma peak_begin: "peak_ok script t \<Longrightarrow> peak_ok script (snd (dt_begin script key t))"
proof -
  assume "peak_ok script t"
  then have "peak_ok script (t\<lparr>dt_sys := s\<rparr>)" for s by (simp add: peak_ok_def)
  then show ?thesis by (simp add: dt_begin_def peak_admit split: prod.split)
qed

definition slow_lookups_are_capped_even_after_callers_give_up :: "nat \<Rightarrow> string \<Rightarrow> bool" where
  "slow_lookups_are_capped_even_after_callers_give_up instant_max join_error \<longleftrightarrow>
     (let script = with_lookup instant_max join_error (dns_ms 30000) 2
            (\<lambda>_. (dns_ms 100, Some (Err \<lparr>io_kind = IoOther, io_message = ''slow resolver''\<rparr>)));
          callers = map (\<lambda>i. (''svc'' @ [i], 443)) ''0123456789'';
          t = fold (\<lambda>key t. snd (dt_begin script key t)) callers dt_new
      in dt_peak (dt_sleep script (dns_ms 300) (dt_sleep script (dns_ms 5) t)) \<le> 2)"

lemma slow_lookups_are_capped_even_after_callers_give_up_passes:
  "slow_lookups_are_capped_even_after_callers_give_up instant_max join_error"
proof -
  let ?script = "with_lookup instant_max join_error (dns_ms 30000) 2
    (\<lambda>_. (dns_ms 100, Some (Err \<lparr>io_kind = IoOther, io_message = ''slow resolver''\<rparr>)))"
  have "peak_ok ?script t \<Longrightarrow> peak_ok ?script (fold (\<lambda>key t. snd (dt_begin ?script key t)) keys t)" for keys t
    by (induction keys arbitrary: t) (simp_all add: peak_begin)
  moreover have "peak_ok ?script dt_new" by (simp add: peak_ok_def dt_new_def)
  ultimately have peak: "peak_ok ?script (dt_sleep ?script (dns_ms 300) (dt_sleep ?script (dns_ms 5)
      (fold (\<lambda>key t. snd (dt_begin ?script key t)) keys dt_new)))" for keys
    by (intro peak_sleep)
  have two: "dns_permits (ds_config ?script) = 2" by (simp add: with_lookup_def dns_permits_def)
  show ?thesis
    using peak [of "map (\<lambda>i. (''svc'' @ [i], 443)) ''0123456789''", unfolded peak_ok_def two]
    by (simp only: slow_lookups_are_capped_even_after_callers_give_up_def Let_def)
qed

end
