(* ===== verification/Delivery_Tests.thy ===== *)
theory Delivery_Tests
  imports Parser_Tests Lookup_Tests Hello_Reader Proxy_Gate Splice Route_File
begin

text \<open>
  The unit tests of \<open>delivery/hello_reader.rs\<close>, \<open>delivery/gate.rs\<close>, \<open>delivery/resolver.rs\<close>,
  \<open>delivery/splice.rs\<close> (the admission) and \<open>config/routes.rs\<close> as propositions about the model, each
  proved.
\<close>

section \<open>Splice admission\<close>

definition permits_reserve_at_least_half_the_limit_for_everything_else :: bool where
  "permits_reserve_at_least_half_the_limit_for_everything_else \<longleftrightarrow> splice_permits 8000 = (8000 div 2) div 4"

definition permits_are_zero_below_one_connections_worth_of_fds :: bool where
  "permits_are_zero_below_one_connections_worth_of_fds \<longleftrightarrow> splice_permits 7 = 0"

definition permits_are_zero_when_the_limit_is_unknown :: bool where
  "permits_are_zero_when_the_limit_is_unknown \<longleftrightarrow> splice_permits 0 = 0"

definition override_replaces_the_heuristic_when_set_and_valid :: bool where
  "override_replaces_the_heuristic_when_set_and_valid \<longleftrightarrow> admission_capacity (Some ''3'') 8000 = 3"

definition override_of_zero_disables_splice_admission :: bool where
  "override_of_zero_disables_splice_admission \<longleftrightarrow> admission_capacity (Some ''0'') 1000000 = 0"

definition unset_or_unparseable_override_falls_back_to_the_heuristic :: bool where
  "unset_or_unparseable_override_falls_back_to_the_heuristic \<longleftrightarrow>
     admission_capacity None 8000 = splice_permits 8000 \<and>
     admission_capacity (Some ''not-a-number'') 8000 = splice_permits 8000"

lemma splice_admission_tests_pass:
  permits_reserve_at_least_half_the_limit_for_everything_else
  permits_are_zero_below_one_connections_worth_of_fds
  permits_are_zero_when_the_limit_is_unknown
  override_replaces_the_heuristic_when_set_and_valid
  override_of_zero_disables_splice_admission
  unset_or_unparseable_override_falls_back_to_the_heuristic
proof -
  have "parse_usize ''3'' = Some 3" "parse_usize ''0'' = Some 0" "parse_usize ''not-a-number'' = None"
    by (simp_all add: parse_usize_def parse_unsigned_def to_digit_def)
  then show permits_reserve_at_least_half_the_limit_for_everything_else
    permits_are_zero_below_one_connections_worth_of_fds permits_are_zero_when_the_limit_is_unknown
    override_replaces_the_heuristic_when_set_and_valid override_of_zero_disables_splice_admission
    unset_or_unparseable_override_falls_back_to_the_heuristic
    by (simp_all add: permits_reserve_at_least_half_the_limit_for_everything_else_def
        permits_are_zero_below_one_connections_worth_of_fds_def permits_are_zero_when_the_limit_is_unknown_def
        override_replaces_the_heuristic_when_set_and_valid_def override_of_zero_disables_splice_admission_def
        unset_or_unparseable_override_falls_back_to_the_heuristic_def admission_capacity_def splice_permits_def
        MAX_SPLICE_FD_SHARE_def FDS_PER_SPLICE_CONNECTION_def)
qed

section \<open>Splice copy\<close>

text \<open>Whatever the environment and the limit are at the two calls, if the first does not panic.\<close>

definition admission_is_one_process_wide_instance ::
    "string option \<times> nat option \<Rightarrow> string option \<times> nat option \<Rightarrow> admission_cell \<Rightarrow> bool" where
  "admission_is_one_process_wide_instance env1 env2 cell \<longleftrightarrow>
     (case admission_get (fst env1) (snd env1) cell of
        None \<Rightarrow> False
      | Some (first, cell') \<Rightarrow> map_option fst (admission_get (fst env2) (snd env2) cell') = Some first)"

lemma admission_is_one_process_wide_instance_passes:
  "admission_get (fst env1) (snd env1) cell \<noteq> None \<Longrightarrow> admission_is_one_process_wide_instance env1 env2 cell"
  by (auto simp: admission_is_one_process_wide_instance_def admission_get_def split: option.splits)

text \<open>Without the variable it does not, as in the test.\<close>

lemma admission_get_heuristic: "admission_get None rlim_cur cell \<noteq> None"
  using admission_new_heuristic [of rlim_cur] by (simp add: admission_get_def split: option.splits)

definition client_payload :: "byte list" where
  "client_payload = bytes_of_string ''hello upstream, this is the client speaking''"

text \<open>The apostrophe of the code's text is the character \<open>0x27\<close>.\<close>

definition upstream_payload :: "byte list" where
  "upstream_payload = bytes_of_string (''and this is the upstream'' @ CHR 0x27 # ''s reply'')"

text \<open>
  The two peers write, close their write half and read to the end; \<open>calls\<close> are the system calls of
  the copy in any order in which they come to return, so also the test's, where the upstream
  replies after it has seen the end of the client's bytes.
\<close>

definition copy_bidirectional_moves_both_ways_and_propagates_half_close ::
    "int \<Rightarrow> int \<Rightarrow> (nat \<times> side \<times> sysret) list \<Rightarrow> bool" where
  "copy_bidirectional_moves_both_ways_and_propagates_half_close size1 size2 calls \<longleftrightarrow>
     (case prepare 4096 (Ok (), size1) (Ok (), size2) of
        Err _ \<Rightarrow> False
      | Ok pipes \<Rightarrow>
          (let s = copy_bidirectional pipes calls (copy_start client_payload upstream_payload counters_default None)
           in copy_result s = Some (Ok ()) \<and>
              d_dst (snd (cp_up s)) = client_payload \<and> d_shut (snd (cp_up s)) \<and>
              d_dst (snd (cp_down s)) = upstream_payload \<and> d_shut (snd (cp_down s)) \<and>
              bc_read (cp_counters s) = of_nat (length client_payload) \<and>
              bc_written (cp_counters s) = of_nat (length upstream_payload)))"

lemma copy_bidirectional_moves_both_ways_and_propagates_half_close_passes:
  assumes "list_all (\<lambda>(_, _, r). progress r) calls"
    and "2 * length client_payload + 2 \<le> calls_of ToUpstream calls"
    and "2 * length upstream_payload + 2 \<le> calls_of ToClient calls"
  shows "copy_bidirectional_moves_both_ways_and_propagates_half_close size1 size2 calls"
proof -
  obtain pipes where pipes: "prepare 4096 (Ok (), size1) (Ok (), size2) = Ok pipes"
    "0 < pipe_capacity (fst pipes)" "0 < pipe_capacity (snd pipes)"
    by (cases "size1 > 0"; cases "size2 > 0") (auto simp: prepare_def pipe_new_def)
  define s where "s = copy_bidirectional pipes calls (copy_start client_payload upstream_payload counters_default None)"
  note finishes = copy_finishes [OF pipes(2,3) assms s_def]
  have "copy_ok pipes client_payload upstream_payload counters_default s"
    unfolding s_def by (rule copy_bidirectional_ok [OF copy_ok_start pipes(2,3)])
  then have ok: "dir_ok (pipe_capacity (fst pipes)) client_payload (cp_up s)"
    "dir_ok (pipe_capacity (snd pipes)) upstream_payload (cp_down s)"
    "bc_read (cp_counters s) = of_nat (dir_taken (cp_up s))"
    "bc_written (cp_counters s) = of_nat (dir_landed (cp_down s))"
    by (simp_all add: copy_ok_def counters_default_def)
  have fin: "fst (cp_up s) = DirDone (Ok ())" "fst (cp_down s) = DirDone (Ok ())"
    using finishes by (auto simp: copy_result_Ok)
  from dir_ok_done [OF ok(1) fin(1)] dir_ok_done [OF ok(2) fin(2)] finishes ok(3,4) ok(1) show ?thesis
    by (auto simp: copy_bidirectional_moves_both_ways_and_propagates_half_close_def pipes(1) s_def [symmetric] Let_def
        dir_taken_def dir_landed_def dir_ok_def)
qed

section \<open>Proxy gate\<close>

definition enter_before_close_is_admitted_and_counted :: bool where
  "enter_before_close_is_admitted_and_counted \<longleftrightarrow>
     (case gate_enter gate_new of (admitted, gate) \<Rightarrow>
      case gate_close gate of (counted, gate) \<Rightarrow>
        admitted \<and> counted = 1 \<and> gate_cancelled gate \<and>
        map_option gate_proxying (pass_drop gate) = Some 0)"

definition enter_after_close_is_refused :: bool where
  "enter_after_close_is_refused \<longleftrightarrow> \<not> fst (gate_enter (snd (gate_close gate_new)))"

text \<open>The mutex leaves two orders for the race.\<close>

definition racing_enter_and_close_always_land_on_one_side :: bool where
  "racing_enter_and_close_always_land_on_one_side \<longleftrightarrow>
     list_all (\<lambda>enters_first.
       let (admitted, counted) =
         (if enters_first
          then (case gate_enter gate_new of (admitted, gate) \<Rightarrow> (admitted, fst (gate_close gate)))
          else (case gate_close gate_new of (counted, gate) \<Rightarrow> (fst (gate_enter gate), counted)))
       in admitted = (counted = 1)) [True, False]"

lemma gate_tests_pass:
  enter_before_close_is_admitted_and_counted enter_after_close_is_refused
  racing_enter_and_close_always_land_on_one_side
  by code_simp+

section \<open>Hello reader\<close>

definition read_default :: "string stream \<Rightarrow> (string hello_read \<times> string stream) option" where
  "read_default stream = read_client_hello stream hello_limits_default"

text \<open>What a peer sends in pieces before it closes; a slice that is read is one piece.\<close>

definition sends :: "byte list list \<Rightarrow> string stream" where
  "sends cs = map Arrive cs @ [Fin]"

lemma sends_data: "stream_data (sends cs) = concat cs" "stream_end (sends cs) = Finished"
  unfolding sends_def by (induction cs) simp_all

definition reads_a_hello_delivered_one_byte_at_a_time :: bool where
  "reads_a_hello_delivered_one_byte_at_a_time \<longleftrightarrow>
     with_wire (builder_build (sni_builder ''drip.test'')) (\<lambda>wire.
       case read_default (sends (map (\<lambda>b. [b]) wire)) of
         Some (Some (Ok (buf, info)), _) \<Rightarrow>
           rb_bytes buf = wire \<and> map_option as_str (info_sni info) = Some ''drip.test''
       | _ \<Rightarrow> False)"

definition keeps_bytes_read_past_the_hello_for_replay :: bool where
  "keeps_bytes_read_past_the_hello_for_replay \<longleftrightarrow>
     with_wire (builder_build (sni_builder ''early.test'')) (\<lambda>hello.
       let wire = hello @ bytes_of_string ''early-data''
       in case read_default (sends [wire]) of
            Some (Some (Ok (buf, info)), _) \<Rightarrow> info_consumed info = length hello \<and> rb_bytes buf = wire
          | _ \<Rightarrow> False)"

definition eof_before_complete_hello_is_closed :: bool where
  "eof_before_complete_hello_is_closed \<longleftrightarrow>
     with_wire (builder_build (sni_builder ''short.test'')) (\<lambda>wire.
       case read_default (sends [take (length wire - 1) wire]) of
         Some (Some (Err Closed), _) \<Rightarrow> True
       | _ \<Rightarrow> False)"

definition garbage_fails_on_first_read :: bool where
  "garbage_fails_on_first_read \<longleftrightarrow>
     (case read_default (sends [bytes_of_string (''GET / HTTP/1.1'' @ [CHR 0x0D, CHR 0x0A, CHR 0x0D, CHR 0x0A])]) of
        Some (Some (Err (Parse NotHandshake)), _) \<Rightarrow> True
      | _ \<Rightarrow> False)"

definition buffer_never_exceeds_wire_limit :: bool where
  "buffer_never_exceeds_wire_limit \<longleftrightarrow>
     (let limits = \<lparr>max_handshake_bytes = 1024, max_records = 2\<rparr>
      in with_wire (builder_handshake (padding_to (sni_builder ''x.test'') 1024)) (\<lambda>handshake.
           with_wire (records_of handshake 100) (\<lambda>wire.
             case read_client_hello (sends [wire]) limits of
               Some (Some (Err (Parse TooLarge)), _) \<Rightarrow> True
             | _ \<Rightarrow> False)))"

definition buffer_capacity_stays_within_the_wire_limit :: bool where
  "buffer_capacity_stays_within_the_wire_limit \<longleftrightarrow>
     with_wire (builder_build (padding_to (sni_builder ''big.test'') (max_handshake_bytes hello_limits_default)))
       (\<lambda>wire.
         case read_default (sends (chunks wire 1500)) of
           Some (Some (Ok (buf, _)), _) \<Rightarrow> rb_capacity buf \<le> max_wire_bytes hello_limits_default
         | _ \<Rightarrow> False)"

lemma reader_hosts:
  "plain_host ''drip.test'' ''drip.test''" "plain_host ''early.test'' ''early.test''"
  "plain_host ''short.test'' ''short.test''" "plain_host ''x.test'' ''x.test''" "plain_host ''big.test'' ''big.test''"
  by code_simp+

lemma max_wire_default: "max_wire_bytes hello_limits_default = 32932"
  by (simp add: max_wire_bytes_def default_limits HANDSHAKE_HEADER_LEN_def RECORD_HEADER_LEN_def)

lemma verdict_of_built:
  assumes "plain_host name lower" "length (fx_wire (built name lower) @ tail) \<le> 32932"
  shows "hello_verdict hello_limits_default 32932 (fx_wire (built name lower) @ tail) ending =
    Some (Ok \<lparr>info_sni = Some (Hostname lower), info_consumed = length (fx_wire (built name lower))\<rparr>)"
  using built_parses [OF assms(1), of tail] assms(2) by (simp add: hello_verdict_def)

lemma built_wire_length: "plain_host name lower \<Longrightarrow> length (fx_wire (built name lower)) = 95 + length name"
  using built_length by (simp add: built_def)

lemma read_agreesI_ok:
  assumes "hello_verdict limits (max_wire_bytes limits) (stream_data s) (stream_end s) = Some (Ok info)"
  shows "\<exists>buf s'. read_client_hello s limits = Some (Some (Ok (buf, info)), s') \<and>
    rb_ok (max_wire_bytes limits) buf \<and> rb_bytes buf @ stream_data s' = stream_data s \<and>
    hello_of_wire limits (rb_bytes buf) = Ok info"
  using read_client_hello_agrees [of limits s]
  by (rule read_agreesE) (use read_client_hello_agrees [of limits s] assms in \<open>auto simp: read_agrees_def\<close>)

lemma read_agreesI_err:
  assumes "hello_verdict limits (max_wire_bytes limits) (stream_data s) (stream_end s) = Some (Err e)"
  shows "\<exists>s'. read_client_hello s limits = Some (Some (Err e), s')"
  using read_client_hello_agrees [of limits s] by (rule read_agreesE) (use assms in auto)

lemma reads_a_hello_delivered_one_byte_at_a_time_passes: reads_a_hello_delivered_one_byte_at_a_time
proof -
  let ?w = "fx_wire (built ''drip.test'' ''drip.test'')" and ?s = "sends (map (\<lambda>b. [b]) (fx_wire (built ''drip.test'' ''drip.test'')))"
  note host = reader_hosts(1)
  have data: "stream_data ?s = ?w" by (simp add: sends_data)
  let ?info = "\<lparr>info_sni = Some (Hostname ''drip.test''), info_consumed = length ?w\<rparr>"
  have "hello_verdict hello_limits_default (max_wire_bytes hello_limits_default) (stream_data ?s) (stream_end ?s) =
      Some (Ok ?info)"
    using verdict_of_built [OF host, of "[]" Finished] built_wire_length [OF host]
    by (simp add: data max_wire_default sends_data(2))
  from read_agreesI_ok [OF this] data obtain buf s' where
    r: "read_default ?s = Some (Some (Ok (buf, ?info)), s')" "rb_bytes buf @ stream_data s' = ?w"
    "hello_of_wire hello_limits_default (rb_bytes buf) = Ok ?info"
    by (auto simp: read_default_def)
  have "stream_data s' = []"
  proof (rule ccontr)
    assume more: "stream_data s' \<noteq> []"
    then have "rb_bytes buf = take (length (rb_bytes buf)) ?w" "length (rb_bytes buf) < length ?w"
      using r(2) by (simp_all flip: r(2))
    then have "parse_client_hello (rb_bytes buf) hello_limits_default = Some (Err Incomplete)"
      using captures_prefix [OF built_captures [OF host]] by metis
    with r(3) show False by (simp add: parse_client_hello_eq)
  qed
  with r show ?thesis
    by (simp add: reads_a_hello_delivered_one_byte_at_a_time_def with_wire_def built_wire [OF host])
qed

lemma keeps_bytes_read_past_the_hello_for_replay_passes: keeps_bytes_read_past_the_hello_for_replay
proof -
  note host = reader_hosts(2)
  let ?w = "fx_wire (built ''early.test'' ''early.test'')"
  let ?all = "?w @ bytes_of_string ''early-data''"
  have len: "length ?all = 115" "?all \<noteq> []" using built_wire_length [OF host] by (auto simp: bytes_of_string_simps)
  have "read_default (sends [?all]) =
      Some (Some (Ok (\<lparr>rb_bytes = ?all, rb_capacity = 4096\<rparr>,
        \<lparr>info_sni = Some (Hostname ''early.test''), info_consumed = length ?w\<rparr>)), [Fin])"
    using len built_parses [OF host, of "bytes_of_string ''early-data''"]
    by (simp add: read_default_def read_client_hello_def read_loop.simps [where stream = "_ # _"] max_wire_default
        READ_CHUNK_def sends_def Let_def parse_client_hello_eq rb_with_capacity_def rb_reserve_exact_def rb_append_def)
  then show ?thesis
    by (simp add: keeps_bytes_read_past_the_hello_for_replay_def with_wire_def built_wire [OF host] Let_def)
qed

lemma eof_before_complete_hello_is_closed_passes: eof_before_complete_hello_is_closed
proof -
  note host = reader_hosts(3)
  let ?w = "fx_wire (built ''short.test'' ''short.test'')"
  have len: "length ?w = 105" using built_wire_length [OF host] by simp
  then have "hello_of_wire hello_limits_default (take 104 ?w) = Err Incomplete"
    using captures_prefix [OF built_captures [OF host], of 104] by (simp add: parse_client_hello_eq)
  then have "hello_verdict hello_limits_default 32932 (take 104 ?w) Finished = Some (Err Closed)"
    using len by (simp add: hello_verdict_def)
  then obtain s' where "read_default (sends [take 104 ?w]) = Some (Some (Err Closed), s')"
    using read_agreesI_err [of hello_limits_default "sends [take 104 ?w]"]
    by (auto simp: max_wire_default sends_data read_default_def)
  then show ?thesis using len
    by (simp add: eof_before_complete_hello_is_closed_def with_wire_def built_wire [OF host])
qed

lemma garbage_fails_on_first_read_passes: garbage_fails_on_first_read
proof -
  let ?g = "bytes_of_string (''GET / HTTP/1.1'' @ [CHR 0x0D, CHR 0x0A, CHR 0x0D, CHR 0x0A])"
  have "hello_of_wire hello_limits_default ?g = Err NotHandshake"
    by (simp add: reject_eval bytes_of_string_def reassemble.simps [where rest = "_ # _"])
  moreover have "length ?g = 18" by (simp add: bytes_of_string_simps)
  ultimately have "hello_verdict hello_limits_default 32932 ?g Finished = Some (Err (Parse NotHandshake))"
    by (simp add: hello_verdict_def)
  then obtain s' where "read_default (sends [?g]) = Some (Some (Err (Parse NotHandshake)), s')"
    using read_agreesI_err [of hello_limits_default "sends [?g]"]
    by (auto simp: max_wire_default sends_data read_default_def)
  then show ?thesis by (simp add: garbage_fails_on_first_read_def)
qed

text \<open>A padded hello, as the builder makes it.\<close>

lemma hello_extension:
  "\<not> b_omit_extensions b \<Longrightarrow>
   builder_hello (builder_extension b t d) =
     (builder_hello b)\<lparr>ch_extensions := Some (builder_exts b @ [(t, d)])\<rparr>"
  by (simp add: builder_hello_def builder_extension_def builder_exts_def)

lemma padded_hello:
  assumes "plain_host name lower" "90 + length name \<le> target" "target < 65536"
  shows "\<exists>body. builder_body (padding_to (sni_builder name) target) = Some body \<and> length body = target \<and>
    is_ok (parse_client_hello_body body)"
proof -
  let ?b = "sni_builder name"
  note name = plain_host_parses [OF assms(1)]
  have len: "length (enc_hello (builder_hello ?b)) = 86 + length name" by (rule built_length(1) [OF assms(1)])
  have omit: "\<not> b_omit_extensions ?b" by (simp add: builder_ops)
  let ?pad = "replicate (target - (length (enc_hello (builder_hello ?b)) + 4)) 0"
  let ?p = "builder_extension ?b 0x15 ?pad"
  have body: "builder_body (padding_to ?b target) = Some (enc_hello (builder_hello ?p))"
    using builder_padded_body [OF builder_new_wf(1,2) [OF name] omit _ assms(3)] len assms(2) by simp
  have size: "length (enc_hello (builder_hello ?p)) = target" by (rule builder_padding_exact [OF body omit])
  have exts: "builder_exts ?p = builder_exts ?b @ [(0x15, ?pad)]" by (simp add: builder_exts_def builder_extension_def)
  have sni_exts: "builder_exts ?b = [(0, enc_vec16 (enc_names [(0, bytes_of_string name)]))]"
    by (simp add: builder_exts_def builder_ops)
  have hello: "builder_hello ?p = (builder_hello ?b)\<lparr>ch_extensions := Some (builder_exts ?b @ [(0x15, ?pad)])\<rparr>"
    by (rule hello_extension [OF omit])
  have small: "length (enc_exts (builder_exts ?b @ [(0x15, ?pad)])) < 65536"
    using size assms(3) unfolding hello by (simp add: enc_hello_def)
  then have wf: "wf_hello (builder_hello ?p)"
    using builder_new_wf(2) [OF name] assms(3) unfolding hello
    by (simp add: wf_hello_def builder_hello_def sni_exts)
  have "hello_sni (builder_hello ?p) = Ok (Some (Hostname lower))"
    using parse_server_name_single [OF name] unfolding hello
    by (simp add: hello_sni_def sni_exts del: enc_names_Cons)
  with parse_body_enc [OF wf] body size show ?thesis by (intro exI [of _ "enc_hello (builder_hello ?p)"]) simp
qed

lemma length_concat_le: "\<forall>c \<in> set cs. length c \<le> n \<Longrightarrow> length (concat cs) \<le> n * length cs"
  by (induction cs) auto

lemma buffer_never_exceeds_wire_limit_passes: buffer_never_exceeds_wire_limit
proof -
  let ?limits = "\<lparr>max_handshake_bytes = 1024, max_records = 2\<rparr>"
  obtain body where body: "builder_body (padding_to (sni_builder ''x.test'') 1024) = Some body" "length body = 1024"
    using padded_hello [OF reader_hosts(4), of 1024] by auto
  let ?cs = "chunks (enc_handshake body) 100" and ?rs = "map (Pair 1) (chunks (enc_handshake body) 100)"
  have c: "carries ?rs body" by (rule carries_chunks) (simp_all add: body(2))
  have "\<forall>f \<in> set ?cs. length f < 65536" using chunks_size [of _ "enc_handshake body" 100] by force
  then have w: "records_of (enc_handshake body) 100 = Some (enc_records ?rs)"
    by (simp add: records_of_def push_records_enc)
  have "length (concat ?cs) \<le> 100 * length ?cs"
    by (rule length_concat_le) (use chunks_size [of _ "enc_handshake body" 100] in blast)
  then have many: "11 \<le> length ?rs" using body(2) by (simp add: concat_chunks)
  have big: "hello_of_wire ?limits (enc_records ?rs) = Err TooLarge"
    by (rule hello_over_limit [OF c]) (use many body(2) in simp_all)
  have mx: "max_wire_bytes ?limits = 1038"
    by (simp add: max_wire_bytes_def HANDSHAKE_HEADER_LEN_def RECORD_HEADER_LEN_def)
  have long: "1038 \<le> length (enc_records ?rs)"
    using many body(2) by (simp add: length_enc_records) (simp add: record_payloads_def comp_def concat_chunks)
  have "hello_of_wire ?limits (take 1038 (enc_records ?rs)) = Err Incomplete \<or>
      hello_of_wire ?limits (take 1038 (enc_records ?rs)) = Err TooLarge"
    using hello_of_wire_stable [of ?limits "take 1038 (enc_records ?rs)" "drop 1038 (enc_records ?rs)"] big
    by (cases "hello_of_wire ?limits (take 1038 (enc_records ?rs)) = Err Incomplete") simp_all
  then have "hello_verdict ?limits 1038 (enc_records ?rs) Finished = Some (Err (Parse TooLarge))"
    using long by (auto simp: hello_verdict_def)
  then obtain s' where "read_client_hello (sends [enc_records ?rs]) ?limits = Some (Some (Err (Parse TooLarge)), s')"
    using read_agreesI_err [of ?limits "sends [enc_records ?rs]"] by (auto simp: mx sends_data)
  moreover have "builder_handshake (padding_to (sni_builder ''x.test'') 1024) = Some (enc_handshake body)"
    using builder_handshake_enc [OF body(1)] body(2) by simp
  ultimately show ?thesis using w by (simp add: buffer_never_exceeds_wire_limit_def with_wire_def Let_def)
qed

lemma buffer_capacity_stays_within_the_wire_limit_passes: buffer_capacity_stays_within_the_wire_limit
proof -
  obtain body where body: "builder_body (padding_to (sni_builder ''big.test'') 32768) = Some body" "length body = 32768"
    "is_ok (parse_client_hello_body body)"
    using padded_hello [OF reader_hosts(5), of 32768] by auto
  obtain rs where rs: "builder_build (padding_to (sni_builder ''big.test'') 32768) = Some (enc_records rs)"
    "carries rs body" "record_payloads rs = enc_handshake body"
    and few: "\<And>k. length body + 4 \<le> k * MAX_RECORD_PAYLOAD \<Longrightarrow> length rs \<le> k"
    using builder_build_enc [OF body(1)] body(2) by auto
  have rs3: "length rs \<le> 3" using few [of 3] body(2) by (simp add: MAX_RECORD_PAYLOAD_def)
  have len: "length (enc_records rs) \<le> 32932" using rs3 rs(3) body(2) by (simp add: length_enc_records)
  have "hello_of_wire hello_limits_default (enc_records rs) =
      map_ok (\<lambda>sni. \<lparr>info_sni = sni, info_consumed = length (enc_records rs)\<rparr>) (parse_client_hello_body body)"
    using hello_of_wire_enc [OF rs(2), of hello_limits_default "[]"] rs3 body(2) by (simp add: default_limits)
  with body(3) obtain info where "hello_of_wire hello_limits_default (enc_records rs) = Ok info"
    by (cases "parse_client_hello_body body") auto
  then have "hello_verdict hello_limits_default 32932 (enc_records rs) Finished = Some (Ok info)"
    using len by (simp add: hello_verdict_def)
  then obtain buf s' where "read_default (sends (chunks (enc_records rs) 1500)) = Some (Some (Ok (buf, info)), s')"
    "rb_ok 32932 buf"
    using read_agreesI_ok [of hello_limits_default "sends (chunks (enc_records rs) 1500)" info]
    by (auto simp: max_wire_default sends_data concat_chunks read_default_def)
  then show ?thesis
    using rs(1) by (simp add: buffer_capacity_stays_within_the_wire_limit_def with_wire_def default_limits
        max_wire_default rb_ok_def)
qed

section \<open>File routes\<close>

definition replace_swaps_the_table_for_new_lookups :: bool where
  "replace_swaps_the_table_for_new_lookups \<longleftrightarrow>
     with_table [(''a.test'', ''old:1'')] (\<lambda>old_routes. with_table [(''a.test'', ''new:1'')] (\<lambda>new_routes.
     with_host ''a.test'' (\<lambda>host.
       let lookup = file_new old_routes; candidates = candidates_for_hostname host;
           first = (\<lambda>r. case r of Ok ((_, b) # _) \<Rightarrow> Some (backend_display b) | _ \<Rightarrow> None)
       in first (file_lookup lookup candidates) = Some ''old:1'' \<and>
          first (file_lookup (file_replace lookup new_routes) candidates) = Some ''new:1'')))"

lemma replace_swaps_the_table_for_new_lookups_passes: replace_swaps_the_table_for_new_lookups
proof -
  have rows: "route_table_rows [(''a.test'', ''old:1'')] = Some [(exact_key ''a.test'', named ''old'' 1)]"
    "route_table_rows [(''a.test'', ''new:1'')] = Some [(exact_key ''a.test'', named ''new'' 1)]"
    by (rule plain_row; (simp add: show_ports; fail)?; code_simp)+
  have host: "with_host ''a.test'' P = P (Hostname ''a.test'')" for P by (rule with_host_plain; code_simp)
  have "candidates_for_hostname (Hostname ''a.test'') =
      \<lparr>cand_exact = exact_key ''a.test'', cand_wildcard = None\<rparr>" by code_simp
  then show ?thesis
    by (simp add: replace_swaps_the_table_for_new_lookups_def with_table_def route_table_def rows host file_lookup_def
        file_new_def file_replace_def file_snapshot_def mem_hits_def cand_keys_def List.map_filter_def
        mem_get_from_iter [unfolded mem_get_def] backend_display_def show_ports)
qed

end
