(* ===== verification/Config_Tests.thy ===== *)
theory Config_Tests
  imports Lookup_Tests Route_File "HOL-Library.Sublist"
begin

text \<open>
  The messages of configuration errors (\<open>app:config/mod.rs\<close>), and the unit tests of
  \<open>app:config/mod.rs\<close> and \<open>app:reload.rs\<close> as propositions about the model. The TOML reader is an
  argument; a test holds for every reader that reads the test's own texts as what they say.
\<close>

section \<open>Messages\<close>

definition show_nat :: "nat \<Rightarrow> string" where
  "show_nat n = show_radix 10 n"

text \<open>
  What the standard library and the TOML reader print is an argument: \<open>debug\<close> is \<open>{:?}\<close> of a string,
  \<open>show_toml\<close> the reader's message.
\<close>

fun config_error_display :: "(string \<Rightarrow> string) \<Rightarrow> ('t \<Rightarrow> string) \<Rightarrow> 't config_error \<Rightarrow> string" where
  "config_error_display debug show_toml (ReadError path error) = ''failed to read '' @ path @ '': '' @ io_message error"
| "config_error_display debug show_toml (ParseError error) = ''invalid TOML: '' @ show_toml error"
| "config_error_display debug show_toml NoListenAddresses = ''server.listen must not be empty''"
| "config_error_display debug show_toml (DuplicateListenAddress addr) =
     ''server.listen contains '' @ show_socket_addr addr @ '' more than once''"
| "config_error_display debug show_toml (OutOfRange field lo hi) =
     field @ '' must be between '' @ show_nat lo @ '' and '' @ show_nat hi"
| "config_error_display debug show_toml (InvalidHealthPath path) =
     ''admin.health_path '' @ debug path @
     '' must start with `/`, contain no whitespace, and not be /metrics''"
| "config_error_display debug show_toml (InvalidRouteHostname index hostname error) =
     ''routes['' @ show_nat index @ ''].hostname '' @ debug hostname @ '': '' @ name_error_display error"
| "config_error_display debug show_toml (InvalidRouteBackend index b error) =
     ''routes['' @ show_nat index @ ''].backend '' @ debug b @ '': '' @ name_error_display error"
| "config_error_display debug show_toml (DuplicateRoute hostname) =
     ''route hostname '' @ debug hostname @ '' appears more than once''"

datatype 't config_source = SourceIo io_error | SourceToml 't | SourceName name_error

fun config_error_source :: "'t config_error \<Rightarrow> 't config_source option" where
  "config_error_source (ReadError _ error) = Some (SourceIo error)"
| "config_error_source (ParseError error) = Some (SourceToml error)"
| "config_error_source (InvalidRouteHostname _ _ error) = Some (SourceName error)"
| "config_error_source (InvalidRouteBackend _ _ error) = Some (SourceName error)"
| "config_error_source _ = None"

section \<open>The texts of the tests\<close>

text \<open>Lines with a newline after each but the last.\<close>

fun toml_lines :: "string list \<Rightarrow> string" where
  "toml_lines [] = []"
| "toml_lines [l] = l"
| "toml_lines (l # ls) = l @ CHR 0x0A # toml_lines ls"

definition raw_config_default :: raw_config where
  "raw_config_default = \<lparr>raw_server = raw_server_default, raw_admin = raw_admin_default, raw_routes = []\<rparr>"

definition on_server :: "(raw_server \<Rightarrow> raw_server) \<Rightarrow> raw_config" where
  "on_server f = raw_config_default\<lparr>raw_server := f raw_server_default\<rparr>"

definition on_routes :: "(string \<times> string) list \<Rightarrow> raw_config" where
  "on_routes routes =
     raw_config_default\<lparr>raw_routes := map (\<lambda>(h, b). \<lparr>raw_hostname = h, raw_backend = b\<rparr>) routes\<rparr>"

definition server_line :: "string \<Rightarrow> string" where
  "server_line l = toml_lines [''[server]'', l]"

definition quoted :: "string \<Rightarrow> string" where
  "quoted s = CHR 0x22 # s @ [CHR 0x22]"

definition admin_line :: "string \<Rightarrow> string" where
  "admin_line path = toml_lines [''[admin]'', ''health_path = '' @ quoted path]"

definition route_lines :: "string \<Rightarrow> string \<Rightarrow> string" where
  "route_lines h b = toml_lines [''[[routes]]'', ''hostname = '' @ quoted h, ''backend = '' @ quoted b]"

definition settings_text :: string where
  "settings_text = toml_lines
     [[],
      ''            [server]'',
      ''            listen = ['' @ quoted ''127.0.0.1:9443'' @ '', '' @ quoted ''[::1]:9443'' @ '']'',
      ''            max_connections = 7'',
      ''            client_hello_timeout_ms = 1500'',
      ''            lookup_timeout_ms = 250'',
      ''            upstream_timeout_ms = 3000'',
      ''            idle_timeout_secs = 600'',
      ''            shutdown_grace_secs = 0'',
      ''            max_client_hello_bytes = 4096'',
      ''            max_client_hello_records = 4'',
      ''            dns_cache_ttl_secs = 0'',
      ''            max_concurrent_dns_lookups = 8'',
      ''            copy_buffer_bytes = 65536'',
      ''            '']"

definition settings_raw :: raw_server where
  "settings_raw = \<lparr>raw_listen = [(V4 [127, 0, 0, 1], 9443), (V6 [0, 0, 0, 0, 0, 0, 0, 1], 9443)],
     raw_max_connections = 7, raw_client_hello_timeout_ms = 1500, raw_lookup_timeout_ms = 250,
     raw_upstream_timeout_ms = 3000, raw_idle_timeout_secs = 600, raw_shutdown_grace_secs = 0,
     raw_max_client_hello_bytes = 4096, raw_max_client_hello_records = 4, raw_dns_cache_ttl_secs = 0,
     raw_max_concurrent_dns_lookups = 8, raw_copy_buffer_bytes = 65536\<rparr>"

definition routes_text :: string where
  "routes_text = toml_lines
     [[],
      ''            [[routes]]'',
      ''            hostname = '' @ quoted ''API.Example.com'',
      ''            backend = '' @ quoted ''API-svc:8443'',
      ''            [[routes]]'',
      ''            hostname = '' @ quoted ''*.apps.example.com'',
      ''            backend = '' @ quoted ''10.0.0.5:443'',
      ''            '']"

text \<open>What the accepted texts of the tests say; those \<open>reject_cases\<close> lists are rejected later.\<close>

definition accept_readings :: "(string \<times> raw_config) list" where
  "accept_readings =
     [('''', raw_config_default),
      (server_line ''idle_timeout_secs = 0'', on_server (raw_idle_timeout_secs_update (\<lambda>_. 0))),
      (server_line ''idle_timeout_secs = 45'', on_server (raw_idle_timeout_secs_update (\<lambda>_. 45))),
      (settings_text, on_server (\<lambda>_. settings_raw)),
      (routes_text, on_routes [(''API.Example.com'', ''API-svc:8443''), (''*.apps.example.com'', ''10.0.0.5:443'')])]"

text \<open>The cases of \<open>rejects_invalid_values\<close>: the text, what it says, and what the message must contain.\<close>

definition reject_cases :: "(string \<times> raw_config \<times> string) list" where
  "reject_cases =
     [(server_line ''listen = []'', on_server (raw_listen_update (\<lambda>_. [])), ''server.listen must not be empty''),
      (server_line (''listen = ['' @ quoted ''127.0.0.1:1'' @ '', '' @ quoted ''127.0.0.1:1'' @ '']''),
       on_server (raw_listen_update (\<lambda>_. [(V4 [127, 0, 0, 1], 1), (V4 [127, 0, 0, 1], 1)])), ''more than once''),
      (server_line ''max_connections = 0'', on_server (raw_max_connections_update (\<lambda>_. 0)), ''server.max_connections''),
      (server_line ''lookup_timeout_ms = 0'', on_server (raw_lookup_timeout_ms_update (\<lambda>_. 0)),
       ''server.lookup_timeout_ms''),
      (server_line ''client_hello_timeout_ms = 0'', on_server (raw_client_hello_timeout_ms_update (\<lambda>_. 0)),
       ''server.client_hello_timeout_ms''),
      (server_line ''upstream_timeout_ms = 0'', on_server (raw_upstream_timeout_ms_update (\<lambda>_. 0)),
       ''server.upstream_timeout_ms''),
      (server_line ''max_client_hello_bytes = 512'', on_server (raw_max_client_hello_bytes_update (\<lambda>_. 512)),
       ''between 1024 and 65536''),
      (server_line ''max_client_hello_bytes = 70000'', on_server (raw_max_client_hello_bytes_update (\<lambda>_. 70000)),
       ''between 1024 and 65536''),
      (server_line ''max_client_hello_records = 0'', on_server (raw_max_client_hello_records_update (\<lambda>_. 0)),
       ''max_client_hello_records''),
      (server_line ''idle_timeout_secs = 18446744073709551615'',
       on_server (raw_idle_timeout_secs_update (\<lambda>_. 18446744073709551615)), ''server.idle_timeout_secs''),
      (server_line ''lookup_timeout_ms = 3600001'', on_server (raw_lookup_timeout_ms_update (\<lambda>_. 3600001)),
       ''server.lookup_timeout_ms''),
      (server_line ''shutdown_grace_secs = 99999'', on_server (raw_shutdown_grace_secs_update (\<lambda>_. 99999)),
       ''server.shutdown_grace_secs''),
      (server_line ''max_connections = 2000000'', on_server (raw_max_connections_update (\<lambda>_. 2000000)),
       ''server.max_connections''),
      (server_line ''dns_cache_ttl_secs = 100000'', on_server (raw_dns_cache_ttl_secs_update (\<lambda>_. 100000)),
       ''server.dns_cache_ttl_secs''),
      (server_line ''max_concurrent_dns_lookups = 0'', on_server (raw_max_concurrent_dns_lookups_update (\<lambda>_. 0)),
       ''server.max_concurrent_dns_lookups''),
      (server_line ''max_concurrent_dns_lookups = 1000'', on_server (raw_max_concurrent_dns_lookups_update (\<lambda>_. 1000)),
       ''server.max_concurrent_dns_lookups''),
      (server_line ''copy_buffer_bytes = 10'', on_server (raw_copy_buffer_bytes_update (\<lambda>_. 10)),
       ''server.copy_buffer_bytes''),
      (admin_line ''health'', raw_config_default\<lparr>raw_admin := raw_admin_default\<lparr>raw_health_path := ''health''\<rparr>\<rparr>,
       ''admin.health_path''),
      (admin_line ''/metrics'', raw_config_default\<lparr>raw_admin := raw_admin_default\<lparr>raw_health_path := ''/metrics''\<rparr>\<rparr>,
       ''admin.health_path''),
      (route_lines ''*.com'' ''a:1'', on_routes [(''*.com'', ''a:1'')], ''routes[0].hostname''),
      (route_lines ''a.test.'' ''a:1'', on_routes [(''a.test.'', ''a:1'')], ''routes[0].hostname''),
      (route_lines ''a.test'' ''a'', on_routes [(''a.test'', ''a'')], ''routes[0].backend''),
      (route_lines ''a.test'' ''a:0'', on_routes [(''a.test'', ''a:0'')], ''routes[0].backend''),
      (toml_lines [route_lines ''a.test'' ''a:1'', route_lines ''A.TEST'' ''b:1''],
       on_routes [(''a.test'', ''a:1''), (''A.TEST'', ''b:1'')], ''appears more than once'')]"

text \<open>The texts with a field the configuration does not have: the reader's own error says so.\<close>

definition unknown_fields :: "string list" where
  "unknown_fields =
     [server_line ''bogus = 1'', ''bogus = 1'',
      toml_lines [route_lines ''a.test'' ''a:1'', ''extra = true'']]"

definition reads_tests :: "(string \<Rightarrow> (raw_config, 't) result) \<Rightarrow> ('t \<Rightarrow> string) \<Rightarrow> bool" where
  "reads_tests toml show_toml \<longleftrightarrow>
     list_all (\<lambda>(source, raw). toml source = Ok raw) accept_readings \<and>
     list_all (\<lambda>(source, raw, _). toml source = Ok raw) reject_cases \<and>
     list_all (\<lambda>source. case toml source of Err e \<Rightarrow> sublist ''unknown field'' (show_toml e) | Ok _ \<Rightarrow> False)
       unknown_fields"

section \<open>Evaluation\<close>

lemma raw_server_default_values:
  "raw_server_default = \<lparr>raw_listen = [(V4 [0, 0, 0, 0], 8080)], raw_max_connections = 10000,
     raw_client_hello_timeout_ms = 5000, raw_lookup_timeout_ms = 2000, raw_upstream_timeout_ms = 5000,
     raw_idle_timeout_secs = 1800, raw_shutdown_grace_secs = 30, raw_max_client_hello_bytes = 32768,
     raw_max_client_hello_records = 32, raw_dns_cache_ttl_secs = 30, raw_max_concurrent_dns_lookups = 64,
     raw_copy_buffer_bytes = 32768\<rparr>"
  by (simp add: raw_server_default_def router_config_default_def hello_limits_default_def millis_def as_millis_def
      as_secs_def from_secs_def NANOS_def U64_MAX_def Let_def)

lemma from_toml_str_eval:
  "toml source = Ok raw \<Longrightarrow>
   from_toml_str toml source =
     bind_ok (raw_server_validate (raw_server raw)) (\<lambda>server.
     bind_ok (raw_admin_validate (raw_admin raw)) (\<lambda>admin.
     bind_ok (build_route_table (raw_routes raw)) (\<lambda>routes.
     Ok \<lparr>app_server = server, app_admin = admin, app_routes = routes\<rparr>)))"
  by (simp add: from_toml_str_def)

lemma admin_default_ok:
  "raw_admin_validate raw_admin_default =
     Ok \<lparr>adm_listen = (V4 [127, 0, 0, 1], 8081), adm_health_path = ''/health''\<rparr>"
  by (rule raw_defaults_accepted [THEN conjunct2])

lemma server_default_ok:
  "raw_server_validate raw_server_default =
     Ok \<lparr>srv_listen = [(V4 [0, 0, 0, 0], 8080)], srv_router = router_config_default\<rparr>"
  by (rule raw_defaults_accepted [THEN conjunct1])

lemma no_routes: "build_route_table [] = Ok mem_new"
  by (simp add: build_route_table_def)

text \<open>A text that only sets fields of the server.\<close>

lemma server_only:
  "toml source = Ok (on_server f) \<Longrightarrow>
   from_toml_str toml source =
     bind_ok (raw_server_validate (f raw_server_default)) (\<lambda>server.
       Ok \<lparr>app_server = server, app_admin = \<lparr>adm_listen = (V4 [127, 0, 0, 1], 8081), adm_health_path = ''/health''\<rparr>,
         app_routes = mem_new\<rparr>)"
  by (simp add: from_toml_str_eval on_server_def raw_config_default_def admin_default_ok no_routes)

text \<open>A text that only lists routes.\<close>

lemma routes_only:
  "toml source = Ok (on_routes routes) \<Longrightarrow>
   from_toml_str toml source =
     bind_ok (build_route_table (map (\<lambda>(h, b). \<lparr>raw_hostname = h, raw_backend = b\<rparr>) routes)) (\<lambda>table.
       Ok \<lparr>app_server = \<lparr>srv_listen = [(V4 [0, 0, 0, 0], 8080)], srv_router = router_config_default\<rparr>,
         app_admin = \<lparr>adm_listen = (V4 [127, 0, 0, 1], 8081), adm_health_path = ''/health''\<rparr>,
         app_routes = table\<rparr>)"
  by (simp add: from_toml_str_eval on_routes_def raw_config_default_def admin_default_ok server_default_ok)

lemmas server_eval = raw_server_validate_reference raw_server_default_values server_fields_def server_of_def

section \<open>Tests of the configuration\<close>

definition empty_file_uses_defaults :: "(string \<Rightarrow> (raw_config, 't) result) \<Rightarrow> bool" where
  "empty_file_uses_defaults toml \<longleftrightarrow>
     (case from_toml_str toml '''' of
        Ok config \<Rightarrow>
          srv_listen (app_server config) = [(V4 [0, 0, 0, 0], 8080)] \<and>
          srv_router (app_server config) = router_config_default \<and>
          adm_listen (app_admin config) = (V4 [127, 0, 0, 1], 8081) \<and> mem_is_empty (app_routes config)
      | Err _ \<Rightarrow> False)"

lemma reads_empty: "reads_tests toml show_toml \<Longrightarrow> toml '''' = Ok (on_routes [])"
  by (simp add: reads_tests_def accept_readings_def on_routes_def raw_config_default_def)

lemma empty_file_uses_defaults_passes:
  assumes "reads_tests toml show_toml"
  shows "empty_file_uses_defaults toml"
  by (simp add: empty_file_uses_defaults_def routes_only [where toml = toml, OF reads_empty [OF assms]] no_routes
      mem_is_empty_def mem_new_def)

definition copy_buffer_defaults_to_32_kib :: "(string \<Rightarrow> (raw_config, 't) result) \<Rightarrow> bool" where
  "copy_buffer_defaults_to_32_kib toml \<longleftrightarrow>
     (case from_toml_str toml '''' of
        Ok config \<Rightarrow> rc_copy_buffer_size (srv_router (app_server config)) = 32 * 1024
      | Err _ \<Rightarrow> False)"

lemma copy_buffer_defaults_to_32_kib_passes:
  assumes "reads_tests toml show_toml"
  shows "copy_buffer_defaults_to_32_kib toml"
  by (simp add: copy_buffer_defaults_to_32_kib_def routes_only [where toml = toml, OF reads_empty [OF assms]] no_routes
      router_config_default_def)

definition idle_timeout_defaults_to_30_minutes_and_zero_disables_it ::
    "(string \<Rightarrow> (raw_config, 't) result) \<Rightarrow> bool" where
  "idle_timeout_defaults_to_30_minutes_and_zero_disables_it toml \<longleftrightarrow>
     list_all (\<lambda>(source, idle).
       case from_toml_str toml source of
         Ok config \<Rightarrow> rc_idle_timeout (srv_router (app_server config)) = idle
       | Err _ \<Rightarrow> False)
     [('''', Some (from_secs 1800)), (server_line ''idle_timeout_secs = 0'', None),
      (server_line ''idle_timeout_secs = 45'', Some (from_secs 45))]"

lemma idle_timeout_defaults_to_30_minutes_and_zero_disables_it_passes:
  assumes "reads_tests toml show_toml"
  shows "idle_timeout_defaults_to_30_minutes_and_zero_disables_it toml"
proof -
  have "toml (server_line ''idle_timeout_secs = 0'') = Ok (on_server (raw_idle_timeout_secs_update (\<lambda>_. 0)))"
    "toml (server_line ''idle_timeout_secs = 45'') = Ok (on_server (raw_idle_timeout_secs_update (\<lambda>_. 45)))"
    using assms by (simp_all add: reads_tests_def accept_readings_def)
  from this [THEN server_only [where toml = toml]] show ?thesis
    by (simp add: idle_timeout_defaults_to_30_minutes_and_zero_disables_it_def routes_only [where toml = toml, OF reads_empty [OF assms]]
        no_routes router_config_default_def server_eval)
qed

definition server_settings_map_onto_router_config :: "(string \<Rightarrow> (raw_config, 't) result) \<Rightarrow> bool" where
  "server_settings_map_onto_router_config toml \<longleftrightarrow>
     (case from_toml_str toml settings_text of
        Ok config \<Rightarrow>
          (let router = srv_router (app_server config)
           in length (srv_listen (app_server config)) = 2 \<and> rc_max_connections router = 7 \<and>
              rc_client_hello_timeout router = from_millis 1500 \<and> rc_lookup_timeout router = from_millis 250 \<and>
              rc_upstream_timeout router = from_secs 3 \<and> rc_idle_timeout router = Some (from_secs 600) \<and>
              rc_shutdown_grace router = 0 \<and>
              rc_hello_limits router = \<lparr>max_handshake_bytes = 4096, max_records = 4\<rparr> \<and>
              rc_dns_cache_ttl router = 0 \<and> rc_max_concurrent_dns_lookups router = 8 \<and>
              rc_copy_buffer_size router = 65536)
      | Err _ \<Rightarrow> False)"

lemma server_settings_map_onto_router_config_passes:
  assumes "reads_tests toml show_toml"
  shows "server_settings_map_onto_router_config toml"
proof -
  have "toml settings_text = Ok (on_server (\<lambda>_. settings_raw))"
    using assms by (simp add: reads_tests_def accept_readings_def)
  from server_only [where toml = toml, OF this] show ?thesis
    by (simp add: server_settings_map_onto_router_config_def settings_raw_def raw_server_validate_reference
        server_fields_def server_of_def from_secs_def from_millis_def NANOS_def)
qed

definition routes_are_normalized_and_matchable :: "(string \<Rightarrow> (raw_config, 't) result) \<Rightarrow> bool" where
  "routes_are_normalized_and_matchable toml \<longleftrightarrow>
     (case from_toml_str toml routes_text of
        Ok config \<Rightarrow>
          with_host ''x.apps.example.com'' (\<lambda>host.
            hits_len (mem_hits (app_routes config) (candidates_for_hostname host)) = 1) \<and>
          with_host ''api.example.com'' (\<lambda>host.
            map_option (\<lambda>(_, b). backend_display b)
              (case mem_hits (app_routes config) (candidates_for_hostname host) of [] \<Rightarrow> None | hit # _ \<Rightarrow> Some hit) =
            Some ''api-svc:8443'')
      | Err _ \<Rightarrow> False)"

lemma test_rows:
  "route_key_parse ''API.Example.com'' = Ok (exact_key ''api.example.com'')"
  "route_key_parse ''*.apps.example.com'' = Ok (wild_key ''*.apps.example.com'')"
  "backend_from_str ''API-svc:8443'' = Ok \<lparr>backend_host = Dns ''api-svc'', backend_port = 8443\<rparr>"
  "backend_from_str ''10.0.0.5:443'' = Ok \<lparr>backend_host = Ip (V4 [10, 0, 0, 5]), backend_port = 443\<rparr>"
proof -
  show "route_key_parse ''API.Example.com'' = Ok (exact_key ''api.example.com'')" by (rule exact_parses; code_simp)
  have "route_key_parse ''*.apps.example.com'' = Ok (wild_key (''*.'' @ ''apps.example.com''))"
    by (rule wildcard_parses; code_simp)
  then show "route_key_parse ''*.apps.example.com'' = Ok (wild_key ''*.apps.example.com'')" by simp
  have "show_ipv4 [10, 0, 0, 5] = ''10.0.0.5''" by code_simp
  then show "backend_from_str ''10.0.0.5:443'' = Ok \<lparr>backend_host = Ip (V4 [10, 0, 0, 5]), backend_port = 443\<rparr>"
    using backend_round_trip_v4 [of "[10, 0, 0, 5]" 443] by (simp add: backend_display_def show_ports)
  have "backend_from_str ''API-svc:8443'' =
      Ok \<lparr>backend_host = Dns (to_ascii_lowercase ''API-svc''), backend_port = 8443\<rparr>"
  proof (rule backend_parses)
    show "split_host_port ''API-svc:8443'' = Ok (''API-svc'', ''8443'')" by code_simp
    show "parse_port ''8443'' = Some 8443" by (simp add: port_eval)
  qed code_simp+
  moreover have "to_ascii_lowercase ''API-svc'' = ''api-svc''" by code_simp
  ultimately show "backend_from_str ''API-svc:8443'' = Ok \<lparr>backend_host = Dns ''api-svc'', backend_port = 8443\<rparr>"
    by simp
qed

lemma routes_wildcards:
  "route_key_wildcard_for (Hostname ''x.apps.example.com'') = Some (wild_key ''*.apps.example.com'')"
  by code_simp

lemma routes_are_normalized_and_matchable_passes:
  fixes toml :: "string \<Rightarrow> (raw_config, 't) result"
  assumes "reads_tests toml show_toml"
  shows "routes_are_normalized_and_matchable toml"
proof -
  have host: "with_host ''x.apps.example.com'' P = P (Hostname ''x.apps.example.com'')" for P
    by (rule with_host_plain; code_simp)
  let ?routes = "[(''API.Example.com'', ''API-svc:8443''), (''*.apps.example.com'', ''10.0.0.5:443'')]"
  have "toml routes_text = Ok (on_routes ?routes)"
    using assms by (simp add: reads_tests_def accept_readings_def)
  moreover have "build_route_table (map (\<lambda>(h, b). \<lparr>raw_hostname = h, raw_backend = b\<rparr>) ?routes) =
      (Ok \<lparr>mem_routes = [(exact_key ''api.example.com'', named ''api-svc'' 8443),
        (wild_key ''*.apps.example.com'', \<lparr>backend_host = Ip (V4 [10, 0, 0, 5]), backend_port = 443\<rparr>)]\<rparr> ::
       (in_memory_lookup, 't config_error) result)"
    by (simp add: build_route_table_def test_rows mem_insert_def mem_new_def)
  ultimately show ?thesis
    by (simp add: routes_are_normalized_and_matchable_def routes_only [where toml = toml] host hosts mem_hits_def
        candidates_for_hostname_def cand_keys_def routes_wildcards wildcards route_key_exact_def List.map_filter_def
        hits_len_def backend_display_def show_ports)
qed

section \<open>The example file\<close>

text \<open>What \<open>examples/sni_router.toml\<close> says.\<close>

definition example_file :: raw_config where
  "example_file =
     \<lparr>raw_server = \<lparr>raw_listen = [(V4 [0, 0, 0, 0], 8080)], raw_max_connections = 10000,
        raw_client_hello_timeout_ms = 5000, raw_lookup_timeout_ms = 2000, raw_upstream_timeout_ms = 5000,
        raw_idle_timeout_secs = 1800, raw_shutdown_grace_secs = 30, raw_max_client_hello_bytes = 32768,
        raw_max_client_hello_records = 32, raw_dns_cache_ttl_secs = 30, raw_max_concurrent_dns_lookups = 64,
        raw_copy_buffer_bytes = 32768\<rparr>,
      raw_admin = \<lparr>raw_admin_listen = (V4 [127, 0, 0, 1], 8081), raw_health_path = ''/health''\<rparr>,
      raw_routes =
        [\<lparr>raw_hostname = ''api.example.com'', raw_backend = ''api-svc.default.svc.cluster.local:8443''\<rparr>,
         \<lparr>raw_hostname = ''*.apps.example.com'', raw_backend = ''10.0.0.5:443''\<rparr>,
         \<lparr>raw_hostname = ''v6.example.com'', raw_backend = ''[2001:db8::10]:443''\<rparr>]\<rparr>"

text \<open>Its values are the defaults, as its comment says.\<close>

lemma example_states_defaults:
  "raw_server example_file = raw_server_default \<and> raw_admin example_file = raw_admin_default"
  by (simp add: example_file_def raw_server_default_values raw_admin_default_def)

lemmas groups_numeral = read_octets.simps(2) [of _ "pred_numeral k" for k, folded numeral_eq_Suc]
  read_groups.simps(2) [of _ "pred_numeral k" for k, folded numeral_eq_Suc]

lemma example_v6:
  "parse_ipv6_addr ''2001:db8::10'' = Some [0x2001, 0xdb8, 0, 0, 0, 0, 0, 0x10]"
  "parse_ip_addr ''2001:db8::10'' = Some (V6 [0x2001, 0xdb8, 0, 0, 0, 0, 0, 0x10])"
proof -
  have digits: "to_digit 16 CHR ''2'' = Some 2" "to_digit 16 CHR ''0'' = Some 0" "to_digit 16 CHR ''1'' = Some 1"
    "to_digit 16 CHR ''d'' = Some 13" "to_digit 16 CHR ''b'' = Some 11" "to_digit 16 CHR ''8'' = Some 8"
    "to_digit 16 CHR '':'' = None" "to_digit 10 CHR '':'' = None" "to_digit 10 CHR ''2'' = Some 2"
    "to_digit 10 CHR ''0'' = Some 0" "to_digit 10 CHR ''1'' = Some 1" "to_digit 10 CHR ''d'' = None"
    by code_simp+
  have "read_ipv4_addr ''2001:db8::10'' = None"
    by (simp add: read_separator_def read_number_def read_given_char_def digits groups_numeral)
  moreover have "read_ipv6_addr ''2001:db8::10'' = Some ([0x2001, 0xdb8, 0, 0, 0, 0, 0, 0x10], [])"
    by (simp add: read_ipv6_addr_def read_separator_def read_number_def read_given_char_def digits groups_numeral)
      (simp add: eval_nat_numeral)
  ultimately show "parse_ipv6_addr ''2001:db8::10'' = Some [0x2001, 0xdb8, 0, 0, 0, 0, 0, 0x10]"
    "parse_ip_addr ''2001:db8::10'' = Some (V6 [0x2001, 0xdb8, 0, 0, 0, 0, 0, 0x10])"
    by (simp_all add: parse_ipv6_addr_def parse_ip_addr_def)
qed

lemma example_rows:
  "route_key_parse ''api.example.com'' = Ok (exact_key ''api.example.com'')"
  "route_key_parse ''v6.example.com'' = Ok (exact_key ''v6.example.com'')"
  "backend_from_str ''api-svc.default.svc.cluster.local:8443'' = Ok (named ''api-svc.default.svc.cluster.local'' 8443)"
  "backend_from_str ''[2001:db8::10]:443'' =
     Ok \<lparr>backend_host = Ip (V6 [0x2001, 0xdb8, 0, 0, 0, 0, 0, 0x10]), backend_port = 443\<rparr>"
proof -
  show "route_key_parse ''api.example.com'' = Ok (exact_key ''api.example.com'')"
    "route_key_parse ''v6.example.com'' = Ok (exact_key ''v6.example.com'')"
    by (rule exact_parses; code_simp)+
  have "plain_name ''api-svc.default.svc.cluster.local''" by code_simp
  then show "backend_from_str ''api-svc.default.svc.cluster.local:8443'' = Ok (named ''api-svc.default.svc.cluster.local'' 8443)"
    using row_parses [of "''api-svc.default.svc.cluster.local''" 8443] by (simp add: show_ports)
  have "split_host_port ''[2001:db8::10]:443'' = Ok (''2001:db8::10'', ''443'')"
    using example_v6 by (simp add: split_host_port_def)
  then show "backend_from_str ''[2001:db8::10]:443'' =
      Ok \<lparr>backend_host = Ip (V6 [0x2001, 0xdb8, 0, 0, 0, 0, 0, 0x10]), backend_port = 443\<rparr>"
    by (simp add: backend_from_str_def parse_backend_host_def port_eval example_v6)
qed

definition example_config_is_valid :: "(string \<Rightarrow> (raw_config, 't) result) \<Rightarrow> string \<Rightarrow> bool" where
  "example_config_is_valid toml example \<longleftrightarrow>
     (case from_toml_str toml example of
        Ok config \<Rightarrow>
          srv_listen (app_server config) = [(V4 [0, 0, 0, 0], 8080)] \<and>
          adm_health_path (app_admin config) = ''/health'' \<and> \<not> mem_is_empty (app_routes config)
      | Err _ \<Rightarrow> False)"

lemma example_config_is_valid_passes:
  fixes toml :: "string \<Rightarrow> (raw_config, 't) result"
  assumes "toml example = Ok example_file"
  shows "example_config_is_valid toml example"
proof -
  have "build_route_table (raw_routes example_file) =
      (Ok \<lparr>mem_routes =
         [(exact_key ''api.example.com'', named ''api-svc.default.svc.cluster.local'' 8443),
          (wild_key ''*.apps.example.com'', \<lparr>backend_host = Ip (V4 [10, 0, 0, 5]), backend_port = 443\<rparr>),
          (exact_key ''v6.example.com'',
           \<lparr>backend_host = Ip (V6 [0x2001, 0xdb8, 0, 0, 0, 0, 0, 0x10]), backend_port = 443\<rparr>)]\<rparr> ::
       (in_memory_lookup, 't config_error) result)"
    by (simp add: example_file_def build_route_table_def example_rows test_rows mem_insert_def mem_new_def)
  then show ?thesis
    by (simp add: example_config_is_valid_def from_toml_str_eval [where toml = toml, OF assms] example_states_defaults
        server_default_ok admin_default_ok mem_is_empty_def)
qed

section \<open>Rejected texts\<close>

definition rejects_invalid_values :: "(string \<Rightarrow> string) \<Rightarrow> ('t \<Rightarrow> string) \<Rightarrow> (string \<Rightarrow> (raw_config, 't) result) \<Rightarrow> bool" where
  "rejects_invalid_values debug show_toml toml \<longleftrightarrow>
     list_all (\<lambda>(source, expected).
       case from_toml_str toml source of
         Err e \<Rightarrow> sublist expected (config_error_display debug show_toml e)
       | Ok _ \<Rightarrow> False)
     (map (\<lambda>(source, _, expected). (source, expected)) reject_cases @
      map (\<lambda>source. (source, ''unknown field'')) unknown_fields)"

text \<open>Whether a configuration is rejected, and with which message, depends on what the text says.\<close>

definition rejected_with :: "(string \<Rightarrow> string) \<Rightarrow> ('t \<Rightarrow> string) \<Rightarrow> raw_config \<Rightarrow> string \<Rightarrow> bool" where
  "rejected_with debug show_toml raw expected \<longleftrightarrow>
     (case from_toml_str (\<lambda>_. Ok raw) '''' of
        Err e \<Rightarrow> sublist expected (config_error_display debug show_toml e)
      | Ok _ \<Rightarrow> False)"

lemma rejected_with_text:
  "toml source = Ok raw \<Longrightarrow>
   (case from_toml_str toml source of
      Err e \<Rightarrow> sublist expected (config_error_display debug show_toml e)
    | Ok _ \<Rightarrow> False) = rejected_with debug show_toml raw expected"
  by (simp add: rejected_with_def from_toml_str_def)

lemma rejected_server:
  fixes show_toml :: "'t \<Rightarrow> string"
  shows "rejected_with debug show_toml (on_server f) expected =
     (case raw_server_validate (f raw_server_default) of
        Err e \<Rightarrow> sublist expected (config_error_display debug show_toml e)
      | Ok _ \<Rightarrow> False)"
  unfolding rejected_with_def
  by (subst server_only [where toml = "\<lambda>_. Ok (on_server f)"], simp)
    (cases "raw_server_validate (f raw_server_default) :: (server_config, 't config_error) result"; simp)

lemma rejected_routes:
  fixes show_toml :: "'t \<Rightarrow> string"
  shows "rejected_with debug show_toml (on_routes routes) expected =
     (case build_route_table (map (\<lambda>(h, b). \<lparr>raw_hostname = h, raw_backend = b\<rparr>) routes) of
        Err e \<Rightarrow> sublist expected (config_error_display debug show_toml e)
      | Ok _ \<Rightarrow> False)"
  unfolding rejected_with_def
  by (subst routes_only [where toml = "\<lambda>_. Ok (on_routes routes)"], simp)
    (cases "build_route_table (map (\<lambda>(h, b). \<lparr>raw_hostname = h, raw_backend = b\<rparr>) routes) ::
        (in_memory_lookup, 't config_error) result"; simp)

lemma sublist_last: "sublist ys (xs @ c # ys)"
  by (metis append_Cons append_Nil sublist_appendI sublist_append_leftI append.assoc)

lemma show_bounds: "show_nat 0 = ''0''" "show_nat 1024 = ''1024''" "show_nat 65536 = ''65536''"
proof -
  have "map char_of [48, 49, 50, 51, 52, 53, 54 :: nat] = ''0123456''" by code_simp
  then show "show_nat 0 = ''0''" "show_nat 1024 = ''1024''" "show_nat 65536 = ''65536''"
    by (simp_all add: show_nat_def from_digit_def show_radix.simps)
qed

lemma bad_routes:
  "route_key_parse ''*.com'' = Err InvalidWildcard" "route_key_parse ''a.test.'' = Err EmptyLabel"
  "route_key_parse ''a.test'' = Ok (exact_key ''a.test'')" "route_key_parse ''A.TEST'' = Ok (exact_key ''a.test'')"
  "backend_from_str ''a'' = Err MissingPort" "backend_from_str ''a:0'' = Err InvalidPort"
  "backend_from_str ''a:1'' = Ok (named ''a'' 1)" "backend_from_str ''b:1'' = Ok (named ''b'' 1)"
proof -
  show "route_key_parse ''a.test'' = Ok (exact_key ''a.test'')" "route_key_parse ''A.TEST'' = Ok (exact_key ''a.test'')"
    by (rule exact_parses; code_simp)+
  have plain: "plain_name ''a''" "plain_name ''b''" by code_simp+
  show "backend_from_str ''a:1'' = Ok (named ''a'' 1)" "backend_from_str ''b:1'' = Ok (named ''b'' 1)"
    using row_parses [of "''a''" 1] row_parses [of "''b''" 1] plain by (simp_all add: show_ports)
  have com: "hostname_parse ''com'' = Ok (Hostname ''com'')" by (rule hostname_parses; code_simp)
  have "to_ascii_lowercase ''*.com'' = ''*.'' @ ''com''" by code_simp
  with com show "route_key_parse ''*.com'' = Err InvalidWildcard" by (simp add: route_key_parse_star)
  show "route_key_parse ''a.test.'' = Err EmptyLabel" by code_simp
  have "split_host_port ''a'' = Err MissingPort" by (simp add: split_host_port_def rsplit_once_def)
  then show "backend_from_str ''a'' = Err MissingPort" by (simp add: backend_from_str_def)
  have "split_host_port ''a:0'' = Ok (''a'', ''0'')" by code_simp
  moreover have "parse_port ''0'' = None" by (simp add: port_eval)
  ultimately show "backend_from_str ''a:0'' = Err InvalidPort" by (simp add: backend_from_str_def)
qed

lemma rejected_admin:
  fixes show_toml :: "'t \<Rightarrow> string"
  shows "rejected_with debug show_toml (raw_config_default\<lparr>raw_admin := raw\<rparr>) expected =
     (case raw_admin_validate raw of
        Err e \<Rightarrow> sublist expected (config_error_display debug show_toml e)
      | Ok _ \<Rightarrow> False)"
  unfolding rejected_with_def
  by (subst from_toml_str_eval [where raw = "raw_config_default\<lparr>raw_admin := raw\<rparr>"], simp)
    (cases "raw_admin_validate raw :: (admin_config, 't config_error) result";
      simp add: raw_config_default_def server_default_ok no_routes)

lemma bad_paths:
  "raw_admin_validate (raw_admin_default\<lparr>raw_health_path := ''health''\<rparr>) = Err (InvalidHealthPath ''health'')"
  "raw_admin_validate (raw_admin_default\<lparr>raw_health_path := ''/metrics''\<rparr>) = Err (InvalidHealthPath ''/metrics'')"
  by (simp_all add: raw_admin_validate_def raw_admin_default_def)

lemma reject_cases_rejected:
  "list_all (\<lambda>(_, raw, expected). rejected_with debug show_toml raw expected) reject_cases"
  unfolding reject_cases_def
  by (simp add: rejected_server rejected_routes rejected_admin bad_paths bad_routes build_route_table_def mem_insert_def
      mem_new_def server_eval show_bounds sublist_Cons_right sublist_last)

lemma rejects_invalid_values_passes:
  assumes "reads_tests toml show_toml"
  shows "rejects_invalid_values debug show_toml toml"
proof -
  have "case from_toml_str toml source of
      Err e \<Rightarrow> sublist expected (config_error_display debug show_toml e) | Ok _ \<Rightarrow> False"
    if "(source, raw, expected) \<in> set reject_cases" for source raw expected
  proof -
    have "toml source = Ok raw" using assms that by (auto simp: reads_tests_def list_all_iff)
    moreover have "rejected_with debug show_toml raw expected"
      using reject_cases_rejected that by (fastforce simp: list_all_iff)
    ultimately show ?thesis by (simp add: rejected_with_text [where toml = toml])
  qed
  moreover have "case from_toml_str toml source of
      Err e \<Rightarrow> sublist ''unknown field'' (config_error_display debug show_toml e) | Ok _ \<Rightarrow> False"
    if "source \<in> set unknown_fields" for source
  proof -
    have "case toml source of Err e \<Rightarrow> sublist ''unknown field'' (show_toml e) | Ok _ \<Rightarrow> False"
      using assms that by (auto simp: reads_tests_def list_all_iff)
    then obtain e where "toml source = Err e" "sublist ''unknown field'' (show_toml e)"
      by (auto split: result.splits)
    then show ?thesis by (simp add: from_toml_str_def sublist_Cons_right)
  qed
  ultimately show ?thesis by (auto simp: rejects_invalid_values_def list_all_iff)
qed

definition missing_file_reports_its_path ::
    "(string \<Rightarrow> string) \<Rightarrow> ('t \<Rightarrow> string) \<Rightarrow> (string \<Rightarrow> (string, io_error) result) \<Rightarrow> (string \<Rightarrow> (raw_config, 't) result) \<Rightarrow> bool"
  where
  "missing_file_reports_its_path debug show_toml read_file toml \<longleftrightarrow>
     (case app_config_load read_file toml ''/nonexistent/sni_router.toml'' of
        Err e \<Rightarrow> sublist ''/nonexistent/sni_router.toml'' (config_error_display debug show_toml e)
      | Ok _ \<Rightarrow> False)"

lemma missing_file_reports_its_path_passes:
  "read_file ''/nonexistent/sni_router.toml'' = Err e \<Longrightarrow>
   missing_file_reports_its_path debug show_toml read_file toml"
  by (simp add: missing_file_reports_its_path_def app_config_load_def sublist_Cons_right)

section \<open>A reader of the tests' texts\<close>

definition table_toml :: "string \<Rightarrow> (raw_config, string) result" where
  "table_toml source =
     (case map_of (accept_readings @ map (\<lambda>(s, raw, _). (s, raw)) reject_cases) source of
        Some raw \<Rightarrow> Ok raw
      | None \<Rightarrow> Err ''unknown field'')"

lemma readings_distinct:
  "distinct (map fst (accept_readings @ map (\<lambda>(s, raw, _). (s, raw)) reject_cases))"
  by (simp add: accept_readings_def reject_cases_def settings_text_def routes_text_def server_line_def admin_line_def
      route_lines_def quoted_def)

lemma readings_known:
  "set unknown_fields \<inter> set (map fst (accept_readings @ map (\<lambda>(s, raw, _). (s, raw)) reject_cases)) = {}"
  by (simp add: accept_readings_def reject_cases_def settings_text_def routes_text_def server_line_def admin_line_def
      route_lines_def quoted_def unknown_fields_def)

lemma table_toml_reads_tests: "reads_tests table_toml (\<lambda>e. e)"
proof -
  let ?readings = "accept_readings @ map (\<lambda>(s, raw, _). (s, raw)) reject_cases"
  have known: "table_toml source = Ok raw" if "(source, raw) \<in> set ?readings" for source raw
    using map_of_is_SomeI [OF readings_distinct that] by (simp add: table_toml_def)
  have unknown: "table_toml source = Err ''unknown field''" if "source \<in> set unknown_fields" for source
  proof -
    have "source \<notin> set (map fst ?readings)" using readings_known that by blast
    then have "map_of ?readings source = None" by (simp only: set_map map_of_eq_None_iff not_False_eq_True)
    then show ?thesis by (simp only: table_toml_def option.case)
  qed
  have "table_toml source = Ok raw" if "(source, raw, expected) \<in> set reject_cases" for source raw expected
    using known [of source raw] imageI [OF that, of "\<lambda>(s, raw, _). (s, raw)"] by simp
  moreover have "table_toml source = Ok raw" if "(source, raw) \<in> set accept_readings" for source raw
    using known [of source raw] that by simp
  ultimately show ?thesis using unknown by (auto simp: reads_tests_def list_all_iff)
qed

end
