(* ===== verification/Reload_Tests.thy ===== *)
theory Reload_Tests
  imports Config_Tests
begin

text \<open>
  The unit tests of \<open>app:reload.rs\<close> as propositions about the model, each proved. The file on disk
  is a text or absent; the TOML reader is an argument that reads the tests' texts as what they
  say and refuses the one that is not TOML.
\<close>

definition V1 :: string where
  "V1 = toml_lines [''[[routes]]'', ''hostname = '' @ quoted ''a.test'', ''backend = '' @ quoted ''old:1'', []]"

definition V2 :: string where
  "V2 = toml_lines
     [''[[routes]]'', ''hostname = '' @ quoted ''a.test'', ''backend = '' @ quoted ''new:1'',
      ''[[routes]]'', ''hostname = '' @ quoted ''b.test'', ''backend = '' @ quoted ''b:1'', []]"

definition no_port_text :: string where
  "no_port_text = toml_lines
     [''[[routes]]'', ''hostname = '' @ quoted ''a.test'', ''backend = '' @ quoted ''no-port'', []]"

definition v2_routes :: "(string \<times> string) list" where
  "v2_routes = [(''a.test'', ''new:1''), (''b.test'', ''b:1'')]"

definition reads_reloads :: "(string \<Rightarrow> (raw_config, 't) result) \<Rightarrow> bool" where
  "reads_reloads toml \<longleftrightarrow>
     toml V1 = Ok (on_routes [(''a.test'', ''old:1'')]) \<and>
     toml V2 = Ok (on_routes v2_routes) \<and>
     toml no_port_text = Ok (on_routes [(''a.test'', ''no-port'')]) \<and>
     (case toml ''not toml ['' of Err _ \<Rightarrow> True | Ok _ \<Rightarrow> False) \<and>
     toml (toml_lines [''[server]'', ''max_connections = 5'', V2]) =
       Ok ((on_routes v2_routes)\<lparr>raw_server := raw_server_default\<lparr>raw_max_connections := 5\<rparr>\<rparr>)"

text \<open>The temporary file of a test: it holds a text or is gone. Only its own path is asked for.\<close>

definition temp_config :: "string option \<Rightarrow> string \<Rightarrow> (string, io_error) result" where
  "temp_config contents path =
     (case contents of
        Some s \<Rightarrow> Ok s
      | None \<Rightarrow> Err \<lparr>io_kind = IoNotFound, io_message = ''No such file or directory (os error 2)''\<rparr>)"

definition setup_reload ::
    "(string \<Rightarrow> (raw_config, 't) result) \<Rightarrow> (string \<Rightarrow> (string, io_error) result) \<Rightarrow>
     (startup_settings \<times> file_route_lookup) option" where
  "setup_reload toml file =
     (case app_config_load file toml ''f.toml'' of
        Ok config \<Rightarrow>
          Some (\<lparr>startup_server = app_server config, startup_admin = app_admin config\<rparr>,
                file_new (app_routes config))
      | Err _ \<Rightarrow> None)"

definition backend_for :: "file_route_lookup \<Rightarrow> string \<Rightarrow> string option" where
  "backend_for lookup name =
     (case hostname_parse name of
        Err _ \<Rightarrow> None
      | Ok host \<Rightarrow>
          (case file_lookup lookup (candidates_for_hostname host) of
             Ok ((_, b) # _) \<Rightarrow> Some (backend_display b)
           | _ \<Rightarrow> None))"

text \<open>\<open>file.write(contents)\<close>, or its removal, and then \<open>reload_from_path(&file.0, &startup, &lookup)\<close>.\<close>

definition reload_with ::
    "(string \<Rightarrow> (raw_config, 't) result) \<Rightarrow> startup_settings \<Rightarrow> string option \<Rightarrow> file_route_lookup \<Rightarrow>
     (reload_outcome, 't config_error) result \<times> file_route_lookup" where
  "reload_with toml startup contents lookup = reload_from_path (temp_config contents) toml ''f.toml'' startup lookup"

definition with_setup ::
    "(string \<Rightarrow> (raw_config, 't) result) \<Rightarrow> (startup_settings \<Rightarrow> file_route_lookup \<Rightarrow> bool) \<Rightarrow> bool" where
  "with_setup toml P =
     (case setup_reload toml (temp_config (Some V1)) of Some (startup, lookup) \<Rightarrow> P startup lookup | None \<Rightarrow> False)"

definition refused :: "('e, 'a) result \<Rightarrow> bool" where
  "refused r = (case r of Ok _ \<Rightarrow> False | Err _ \<Rightarrow> True)"

section \<open>Evaluation\<close>

lemma reload_host:
  "hostname_parse ''a.test'' = Ok (Hostname ''a.test'')" "hostname_parse ''b.test'' = Ok (Hostname ''b.test'')"
  by (rule hostname_parses; code_simp)+

lemma reload_wildcards:
  "route_key_wildcard_for (Hostname ''a.test'') = None" "route_key_wildcard_for (Hostname ''b.test'') = None"
  by code_simp+

lemma reload_rows:
  "route_key_parse ''a.test'' = Ok (exact_key ''a.test'')" "route_key_parse ''b.test'' = Ok (exact_key ''b.test'')"
  "backend_from_str ''old:1'' = Ok (named ''old'' 1)" "backend_from_str ''new:1'' = Ok (named ''new'' 1)"
  "backend_from_str ''b:1'' = Ok (named ''b'' 1)" "backend_from_str ''no-port'' = Err MissingPort"
proof -
  show "route_key_parse ''a.test'' = Ok (exact_key ''a.test'')" "route_key_parse ''b.test'' = Ok (exact_key ''b.test'')"
    by (rule exact_parses; code_simp)+
  have "plain_name ''old''" "plain_name ''new''" "plain_name ''b''" by code_simp+
  then show "backend_from_str ''old:1'' = Ok (named ''old'' 1)" "backend_from_str ''new:1'' = Ok (named ''new'' 1)"
    "backend_from_str ''b:1'' = Ok (named ''b'' 1)"
    using row_parses [of "''old''" 1] row_parses [of "''new''" 1] row_parses [of "''b''" 1] by (simp_all add: show_ports)
  have "split_host_port ''no-port'' = Err MissingPort" by (simp add: split_host_port_def rsplit_once_def)
  then show "backend_from_str ''no-port'' = Err MissingPort" by (simp add: backend_from_str_def)
qed

definition v1_table :: in_memory_lookup where
  "v1_table = \<lparr>mem_routes = [(exact_key ''a.test'', named ''old'' 1)]\<rparr>"

definition v2_table :: in_memory_lookup where
  "v2_table = \<lparr>mem_routes = [(exact_key ''a.test'', named ''new'' 1), (exact_key ''b.test'', named ''b'' 1)]\<rparr>"

lemma reload_tables:
  "build_route_table [\<lparr>raw_hostname = ''a.test'', raw_backend = ''old:1''\<rparr>] = Ok v1_table"
  "build_route_table [\<lparr>raw_hostname = ''a.test'', raw_backend = ''new:1''\<rparr>, \<lparr>raw_hostname = ''b.test'', raw_backend = ''b:1''\<rparr>] =
     Ok v2_table"
  "build_route_table [\<lparr>raw_hostname = ''a.test'', raw_backend = ''no-port''\<rparr>] =
     Err (InvalidRouteBackend 0 ''no-port'' MissingPort)"
  by (simp_all add: build_route_table_def reload_rows mem_insert_def mem_new_def v1_table_def v2_table_def)

lemma reload_backends:
  "backend_for (file_new v1_table) ''a.test'' = Some ''old:1''"
  "backend_for (file_new v2_table) ''a.test'' = Some ''new:1''"
  "backend_for (file_new v2_table) ''b.test'' = Some ''b:1''"
  by (simp_all add: backend_for_def reload_host file_lookup_def file_snapshot_def file_new_def v1_table_def v2_table_def
      mem_hits_def candidates_for_hostname_def cand_keys_def reload_wildcards route_key_exact_def List.map_filter_def
      backend_display_def show_ports)

definition reload_startup :: startup_settings where
  "reload_startup =
     \<lparr>startup_server = \<lparr>srv_listen = [(V4 [0, 0, 0, 0], 8080)], srv_router = router_config_default\<rparr>,
      startup_admin = \<lparr>adm_listen = (V4 [127, 0, 0, 1], 8081), adm_health_path = ''/health''\<rparr>\<rparr>"

lemma v1_loads:
  assumes "reads_reloads toml"
  shows "with_setup toml P = P reload_startup (file_new v1_table)"
proof -
  have "toml V1 = Ok (on_routes [(''a.test'', ''old:1'')])" using assms by (simp add: reads_reloads_def)
  from routes_only [where toml = toml, OF this] show ?thesis
    by (simp add: with_setup_def setup_reload_def app_config_load_def temp_config_def reload_tables reload_startup_def)
qed

lemma reload_ok:
  fixes toml :: "string \<Rightarrow> (raw_config, 't) result"
  assumes "toml source = Ok (on_routes routes)"
    "build_route_table (map (\<lambda>(h, b). \<lparr>raw_hostname = h, raw_backend = b\<rparr>) routes) =
      (Ok table :: (in_memory_lookup, 't config_error) result)"
  shows "reload_with toml reload_startup (Some source) lookup =
    (Ok \<lparr>reloaded_routes = mem_len table, ignored_restart_only_changes = False\<rparr>, file_replace lookup table)"
  by (simp add: reload_with_def reload_from_path_def app_config_load_def temp_config_def
      routes_only [where toml = toml, OF assms(1)] assms(2) reload_startup_def)

lemma reload_err:
  "from_toml_str toml source = Err e \<Longrightarrow> reload_with toml startup (Some source) lookup = (Err e, lookup)"
  by (simp add: reload_with_def reload_from_path_def app_config_load_def temp_config_def)

lemma file_replace_new: "file_replace (file_new old) table = file_new table"
  by (simp add: file_replace_def file_new_def)

lemma v2_len: "mem_len v2_table = 2"
  by (simp add: v2_table_def mem_len_def)

section \<open>The tests\<close>

definition valid_file_swaps_routes :: "(string \<Rightarrow> (raw_config, 't) result) \<Rightarrow> bool" where
  "valid_file_swaps_routes toml \<longleftrightarrow>
     with_setup toml (\<lambda>startup lookup.
       let (outcome, lookup) = reload_with toml startup (Some V2) lookup
       in outcome = Ok \<lparr>reloaded_routes = 2, ignored_restart_only_changes = False\<rparr> \<and>
          backend_for lookup ''a.test'' = Some ''new:1'' \<and> backend_for lookup ''b.test'' = Some ''b:1'')"

lemma valid_file_swaps_routes_passes:
  assumes "reads_reloads toml"
  shows "valid_file_swaps_routes toml"
proof -
  have "toml V2 = Ok (on_routes v2_routes)" using assms by (simp add: reads_reloads_def)
  from reload_ok [where toml = toml, OF this, of v2_table] show ?thesis
    by (simp add: valid_file_swaps_routes_def v1_loads [OF assms] v2_routes_def reload_tables file_replace_new
        reload_backends v2_len)
qed

definition invalid_file_keeps_current_routes :: "(string \<Rightarrow> (raw_config, 't) result) \<Rightarrow> bool" where
  "invalid_file_keeps_current_routes toml \<longleftrightarrow>
     with_setup toml (\<lambda>startup lookup.
       let (first, lookup) = reload_with toml startup (Some no_port_text) lookup;
           (second, lookup) = reload_with toml startup (Some ''not toml ['') lookup
       in refused first \<and> refused second \<and> backend_for lookup ''a.test'' = Some ''old:1'')"

lemma invalid_file_keeps_current_routes_passes:
  assumes "reads_reloads toml"
  shows "invalid_file_keeps_current_routes toml"
proof -
  have "toml no_port_text = Ok (on_routes [(''a.test'', ''no-port'')])" using assms by (simp add: reads_reloads_def)
  then have port: "from_toml_str toml no_port_text = Err (InvalidRouteBackend 0 ''no-port'' MissingPort)"
    by (simp add: routes_only [where toml = toml] reload_tables)
  obtain e where "toml ''not toml ['' = Err e" using assms by (auto simp: reads_reloads_def split: result.splits)
  then have "from_toml_str toml ''not toml ['' = Err (ParseError e)" by (simp add: from_toml_str_def)
  from reload_err [where toml = toml, OF port] reload_err [where toml = toml, OF this] show ?thesis
    by (simp add: invalid_file_keeps_current_routes_def v1_loads [OF assms] reload_backends refused_def)
qed

definition missing_file_keeps_current_routes :: "(string \<Rightarrow> (raw_config, 't) result) \<Rightarrow> bool" where
  "missing_file_keeps_current_routes toml \<longleftrightarrow>
     with_setup toml (\<lambda>startup lookup.
       let (outcome, lookup) = reload_with toml startup None lookup
       in refused outcome \<and> backend_for lookup ''a.test'' = Some ''old:1'')"

lemma missing_file_keeps_current_routes_passes:
  assumes "reads_reloads toml"
  shows "missing_file_keeps_current_routes toml"
  by (simp add: missing_file_keeps_current_routes_def v1_loads [OF assms] reload_with_def reload_from_path_def
      app_config_load_def temp_config_def reload_backends refused_def)

definition server_changes_are_reported_not_applied :: "(string \<Rightarrow> (raw_config, 't) result) \<Rightarrow> bool" where
  "server_changes_are_reported_not_applied toml \<longleftrightarrow>
     with_setup toml (\<lambda>startup lookup.
       let (outcome, lookup) =
         reload_with toml startup (Some (toml_lines [''[server]'', ''max_connections = 5'', V2])) lookup
       in (case outcome of Ok r \<Rightarrow> ignored_restart_only_changes r | Err _ \<Rightarrow> False) \<and>
          backend_for lookup ''a.test'' = Some ''new:1'')"

lemma server_changes_are_reported_not_applied_passes:
  assumes "reads_reloads toml"
  shows "server_changes_are_reported_not_applied toml"
proof -
  let ?source = "toml_lines [''[server]'', ''max_connections = 5'', V2]"
  have "toml ?source = Ok ((on_routes v2_routes)\<lparr>raw_server := raw_server_default\<lparr>raw_max_connections := 5\<rparr>\<rparr>)"
    using assms by (simp add: reads_reloads_def)
  from from_toml_str_eval [where toml = toml, OF this]
  have "from_toml_str toml ?source =
      Ok \<lparr>app_server = \<lparr>srv_listen = [(V4 [0, 0, 0, 0], 8080)], srv_router = router_config_default\<lparr>rc_max_connections := 5\<rparr>\<rparr>,
        app_admin = startup_admin reload_startup, app_routes = v2_table\<rparr>"
    by (simp add: on_routes_def raw_config_default_def v2_routes_def reload_tables admin_default_ok reload_startup_def
        server_eval router_config_default_def hello_limits_default_def from_secs_def from_millis_def millis_def NANOS_def)
  then show ?thesis
    by (simp add: server_changes_are_reported_not_applied_def v1_loads [OF assms] reload_with_def reload_from_path_def
        app_config_load_def temp_config_def reload_backends file_replace_new reload_startup_def router_config_default_def)
qed

section \<open>A reader of the tests' texts\<close>

definition reload_toml :: "string \<Rightarrow> (raw_config, unit) result" where
  "reload_toml source =
     (case map_of
        [(V1, on_routes [(''a.test'', ''old:1'')]), (V2, on_routes v2_routes),
         (no_port_text, on_routes [(''a.test'', ''no-port'')]),
         (toml_lines [''[server]'', ''max_connections = 5'', V2],
          (on_routes v2_routes)\<lparr>raw_server := raw_server_default\<lparr>raw_max_connections := 5\<rparr>\<rparr>)] source of
        Some raw \<Rightarrow> Ok raw
      | None \<Rightarrow> Err ())"

lemma reload_toml_reads_reloads: "reads_reloads reload_toml"
  by (simp add: reads_reloads_def reload_toml_def V1_def V2_def no_port_text_def quoted_def)

end
