(* ===== verification/Spec2Isabelle.thy ===== *)
theory Spec2Isabelle
  imports Program Admin_Clock Cached_Routing Cache_Tests Testing Parser_Tests Resolver_Tests Delivery_Tests Reload_Tests
begin

text \<open>
  \<^bold>\<open>Verification of sni_router.\<close> The program is a TCP proxy that reads the ClientHello of a TLS
  connection, looks the host name in it up in a route table, connects to the backend of the
  matching route, replays the bytes it read and then copies both ways, without terminating
  TLS. \<open>crates/sni_router\<close> is the library, \<open>crates/sni_router_app\<close> the server built on it. This
  development models both; paths below are relative to \<open>src/crates/sni_router/src\<close> or, where they
  start with \<open>app:\<close>, to \<open>src/crates/sni_router_app/src\<close>. Definitions carry the names of the code's
  functions, with a prefix where a name is used twice.

  \<^bold>\<open>Conventions.\<close> Rust's \<open>Result\<close> is \<open>result\<close> (\<open>Ok\<close>, \<open>Err\<close>); an operation that could panic returns an
  \<open>option\<close> of its result, \<open>None\<close> being the panic or, where the code waits, that it still waits
  (each definition says which). Bytes are \<open>8 word\<close>, ports \<open>16 word\<close>, the byte counters and the
  rotation counter \<open>64 word\<close> and wrap; sizes, ids and limits on which the code does no
  overflowing arithmetic are \<open>nat\<close>. Strings are lists of bytes as characters (UTF-8). Instants and
  durations are nanoseconds; the largest instant is a parameter where the code checks for
  overflow. Hash maps are association lists with distinct keys, so a theorem that holds for
  every such list holds for every iteration order. State behind a mutex is a record, and an
  operation under the lock is one function on it; what interleaves are those functions, as the
  steps of an inductive relation. \<open>Prelude\<close> holds the shared types and lemmas, the contract of a
  pool of slots (\<open>slot_pool\<close>), that of a relation simulated by another (\<open>simulation\<close>) and the
  collections \<open>wire_simps\<close> and \<open>key_simps\<close>; \<open>Std_Net\<close> the part of the standard library the code parses
  and prints addresses and UTF-8 with; \<open>Float64\<close> its \<open>f64\<close> arithmetic (rationals rounded to nearest
  even, with infinities and NaN; the sign of a zero, which nothing here reads, is not kept).

  \<^bold>\<open>Names and routing.\<close> \<open>Names\<close> is \<open>lookup/types.rs\<close>: host names, route keys and backends with their
  parsers and printers, each shown to accept exactly its normal forms. \<open>Routing\<close> is
  \<open>lookup/mod.rs\<close>, \<open>lookup/memory.rs\<close> and \<open>routing/mod.rs\<close>: candidate keys, hits, the in-memory table and
  the policy. The locale \<open>route_store\<close> is the contract between the router and a store; routing
  is proved sound and complete once inside it, and it is interpreted on the in-memory table
  and on the table of the configuration file.

  \<^bold>\<open>The protocol.\<close> \<open>Tls_Reader\<close> is \<open>protocol/reader.rs\<close>, \<open>Client_Hello\<close> \<open>protocol/hello.rs\<close> and the limits of
  \<open>protocol/mod.rs\<close>, \<open>Records\<close> \<open>protocol/record.rs\<close> with its offsets, range copies and growable arrays.
  \<open>Hello_Grammar\<close> states the grammar of a hello body and proves the parser accepts exactly it.
  \<open>Reassembly\<close> is an abstract walk over records that the offset-based scanner is proved to refine,
  panics included. \<open>Hello_Wire\<close> draws the consequences for whole buffers: what is accepted, that
  an answer never changes when more bytes come, that how the message is cut into records matters
  only through their number, and how much is consumed. \<open>Hello_Builder\<close> is the builder of \<open>testing.rs\<close> with its
  round trip through the parser. \<open>Hello_Reader\<close> is \<open>delivery/hello_reader.rs\<close>: the read loop over what
  the peer sends, shown to decide by the bytes alone and to keep every byte for the replay.

  \<^bold>\<open>The cache.\<close> \<open>Route_Cache\<close> is \<open>cache.rs\<close>: each operation on the cache state, a lookup split where it
  releases the lock, the load guard, and \<open>cache_step\<close> for any interleaving of lookups, loads
  that end (in success, failure, timeout, panic), invalidations, clearing and time.
  \<open>Jitter\<close> is the lifetime of an entry, computed in \<open>f64\<close> from a hash of its id, with its error bound.
  \<open>Cache_Invariant\<close> proves the invariant (limits, the key index, eviction records, ids, who owns an
  in-flight slot, where cached hits come from) for all reachable states, and from it that
  answers are authentic, single flight, that an invalidated load is never cached, and that expired
  hits are served only when their reload failed or the lookup was shed (\<open>lookup_answer\<close>).
  \<open>Cached_Routing\<close> puts the cache in front of a store that changes (\<open>store_step\<close>): a route is one the
  store held for a candidate key while a load ran, and after an invalidation or a clearing no
  earlier answer is given again.

  \<^bold>\<open>Delivery.\<close> \<open>Dns_Resolver\<close> is \<open>delivery/resolver.rs\<close>, with the permits and the in-flight map as
  \<open>dns_step\<close>. \<open>Proxy_Gate\<close> is \<open>delivery/gate.rs\<close> and the connections that race shutdown. \<open>Metered\<close> is
  \<open>delivery/metered.rs\<close> and the idle watchdog of \<open>delivery/proxy.rs\<close>. \<open>Splice\<close> is \<open>delivery/splice.rs\<close> and
  the choice of copy: both directions as small steps, one system call each, in any order.
  \<open>Connection\<close> is \<open>delivery/connection.rs\<close>: the whole pipeline of a connection as a function of what
  the network, the store and the races with deadlines and shutdown do (\<open>conn_world\<close>), a lookup or a
  copy that panics included, and the events of its close record. \<open>Server\<close> is \<open>delivery/server.rs\<close>:
  accepting in rotation, slots and the shutdown sequence as \<open>server_step\<close>. What the program does
  without its peers (timers, the gate's cancellation, the force token) is \<open>server_own_step\<close>, and
  liveness rests on that alone, never on a connection that ends by itself. \<open>Metrics\<close> is
  \<open>metrics.rs\<close>. \<open>Router_System\<close> runs the pipeline of
  every connection in the tasks of the server, with the sink they report to (\<open>router_step\<close>): its
  gauges agree with the tasks that run, in every interleaving.

  \<^bold>\<open>The application.\<close> \<open>App_Config\<close> is \<open>app:config/mod.rs\<close>, \<open>app:config/routes.rs\<close> and the limits of
  \<open>delivery/mod.rs\<close>: validation against a reference table of ranges, defaults, the route table.
  \<open>Route_File\<close> is the swappable table and \<open>app:reload.rs\<close>. \<open>Otel\<close> is \<open>app:otel_metrics.rs\<close>. \<open>Admin\<close> is
  \<open>app:admin.rs\<close>, the wiring of \<open>app:lib.rs\<close> and the exit code of \<open>app:main.rs\<close>; its step relation
  composes the server, the health flag and the admin listener (\<open>admin_own_step\<close>: what that does
  without its peers, \<open>abort_all\<close> included). \<open>Admin_Clock\<close> is the
  admin listener in time, shown to be a run of the untimed one, with the bound on how long a client
  waits for a slot. \<open>Testing\<close> is the rest of \<open>testing.rs\<close> and the messages errors print.

  \<^bold>\<open>The whole program.\<close> \<open>Process\<close> is \<open>BoundApp::run\<close> with the tasks it spawns and joins, inside \<open>main\<close>
  with \<open>cancel_on_signal\<close>: signals, reloads, the drain watch, the admin listener and the server
  interleave as \<open>process_step\<close>; the ones no peer takes part in are \<open>unaided_step\<close>. \<open>Program\<close> runs the connections of \<open>Router_System\<close> in that process over
  the table of \<open>Route_File\<close> (\<open>program_step\<close>, simulated by both parts) and proves the end-to-end
  property: which file, as it stood at which signal, decided where the bytes of a client went.

  \<^bold>\<open>The tests.\<close> A unit test is a proposition with the test's name, over the same definitions, and a
  lemma proves it: \<open>Captures\<close> (\<open>protocol/fixtures.rs\<close>, the captured hellos as bytes), \<open>Parser_Tests\<close>
  (\<open>protocol/\<close>), \<open>Name_Tests\<close> and \<open>Lookup_Tests\<close> (\<open>lookup/\<close>, \<open>routing/\<close>), \<open>Cache_Tests\<close> (\<open>cache.rs\<close>: the
  tasks of a test, its store and tokio's paused clock are a \<open>test_env\<close>, run in virtual time),
  \<open>Resolver_Tests\<close> (\<open>delivery/resolver.rs\<close>, likewise), \<open>Delivery_Tests\<close> (the gate, the hello reader, the
  splice admission and copy, the file routes), \<open>Admin_Clock\<close> (\<open>app:admin.rs\<close>), \<open>Config_Tests\<close> and
  \<open>Reload_Tests\<close> (\<open>app:config/mod.rs\<close>, \<open>app:reload.rs\<close>, for every TOML reader that reads the tests' texts as what they say, with one
  such reader). Where a test can only sample, over corruptions, splits or races, the
  proposition says what it samples.

  \<^bold>\<open>Termination and bounds.\<close> There is no fuel in the model; the harness of the resolver's tests takes
  one round for each lookup that can still end. The record scanner terminates because its offset grows, the read loop because it consumes the peer's actions, eviction because the order
  queue shrinks, the watchdog because every sleep ends later and no instant is beyond the
  largest. What may wait for ever is the value \<open>None\<close> or a state with no step, and the liveness
  theorems say when it does not: a copy whose system calls make progress ends within two
  calls per byte and two more, shutdown within twice \<open>max_connections\<close> and five further steps,
  the process within twice \<open>max_connections\<close> and 270 once signalled (256 of them for the admin's
  connections), both by their own steps alone even if no peer ever closes, and a busy listener delays another by at most one round.

  \<^bold>\<open>Assumptions.\<close> Code that is not in the repository is an argument of the definitions that use it:
  the TOML reader and the file system (\<open>app_config_load\<close>), the system resolver (the answer in
  \<open>dns_step\<close>), sockets (\<open>conn_world\<close>, the peer's actions in \<open>Hello_Reader\<close>), the kernel's replies to
  \<open>splice\<close> (\<open>Splice\<close>: it moves at most the bytes asked for, in order, and at least one from a
  readable socket), the HTTP server and the Prometheus encoder (\<open>Admin\<close>), tokio's timers and
  locks and the most permits its semaphore takes (\<open>Splice\<close>), a metrics sink that does not panic, and the keyed hash the jitter of a cached entry is drawn from.

  \<^bold>\<open>Not modelled.\<close> Logging, which has no effect on what is modelled; the durations carried by metric events; the portable copy, which is tokio's; the
  examples, benchmarks and the tests that open sockets (the outcome of one of them, a lookup that
  panics, is a lemma of \<open>Connection\<close>). The messages of configuration errors
  take \<open>{:?}\<close> of a string, which rests on Unicode tables, as an argument. In \<open>Connection\<close> other
  connections' use of the gate between two stages is not interleaved; \<open>Proxy_Gate\<close>, \<open>Server\<close> and
  \<open>Router_System\<close> do that.

  \<^bold>\<open>What modelling showed.\<close> A hello can consume more wire bytes than \<open>max_wire_bytes\<close> says
  (\<open>consumed_can_exceed_max_wire\<close>); a stale DNS answer can be used up to a second past its limit
  (\<open>dns_stale_bound\<close>); a change of the store can stay invisible for the jittered lifetime counted
  from the end of the load, which is longer than \<open>ttl\<close> (\<open>cached_routing_authentic\<close>); stale hits can be
  handed out after their window, which is checked before the wait for the load (\<open>stale_as_last_resort\<close>);
  an override of the splice budget is not checked against what a semaphore can hold, and every copy
  then panics (\<open>admission_override_panics\<close>, \<open>connection_outcomes\<close>); and a SIGINT
  handler that cannot be installed shuts the program down as a SIGINT would (\<open>failed_ctrl_c_cancels\<close>).
\<close>

end
